(* ===== verification/Prelude.thy ===== *)
theory Prelude
  imports Main "HOL-Library.Char_ord" "HOL-Library.List_Lexorder"
begin

text \<open>
  Shared vocabulary of the development: the fact collections the component theories feed,
  Rust's fixed-width integer conversions, the list facts the table model uses, and the two
  locales every state-machine argument of the development is an instance of.

  Strings are byte lists (HOL's \<open>string\<close>, one \<open>char\<close> per byte), so \<open>length\<close> is Rust's
  \<open>str::len\<close> and the order on strings (byte-wise lexicographic, from
  \<open>HOL-Library.List_Lexorder\<close>) is both Rust's \<open>Ord for str\<close> and SQLite's BINARY collation.
\<close>

section \<open>Fact collections\<close>

named_theorems io_simps \<open>evaluation of effectful programs on a concrete world\<close>
named_theorems moves_intros \<open>rules that a program moves the database along a preorder\<close>
named_theorems triple_intros \<open>rules of the Hoare logic of effectful programs\<close>
named_theorems frame_simps \<open>which tables and rows an update leaves alone\<close>

section \<open>Fixed-width integers\<close>

text \<open>
  Rust's \<open>i32\<close>, \<open>i64\<close>, \<open>u32\<close> and \<open>u64\<close> values are modelled as \<open>int\<close>; where the source casts or
  saturates, the width is written out.
\<close>

definition i64_max :: int where
  "i64_max = 9223372036854775807"

definition i64_min :: int where
  "i64_min = - 9223372036854775808"

definition u32_max :: int where
  "u32_max = 4294967295"

definition as_i64 :: "int \<Rightarrow> int" where
  "as_i64 x = (x + 9223372036854775808) mod 18446744073709551616 - 9223372036854775808"

definition as_u64 :: "int \<Rightarrow> int" where
  "as_u64 x = x mod 18446744073709551616"

definition saturating_add_i64 :: "int \<Rightarrow> int \<Rightarrow> int" where
  "saturating_add_i64 a b = max i64_min (min i64_max (a + b))"

lemmas width_defs = i64_max_def i64_min_def u32_max_def

lemma as_i64_range: "i64_min \<le> as_i64 x" "as_i64 x \<le> i64_max"
proof -
  have "0 \<le> (x + 9223372036854775808) mod 18446744073709551616"
    "(x + 9223372036854775808) mod 18446744073709551616 < 18446744073709551616"
    by simp_all
  then show "i64_min \<le> as_i64 x" "as_i64 x \<le> i64_max"
    by (auto simp: as_i64_def width_defs)
qed

lemma as_i64_id: "i64_min \<le> x \<Longrightarrow> x \<le> i64_max \<Longrightarrow> as_i64 x = x"
  by (simp add: as_i64_def width_defs)

lemma as_u64_id: "0 \<le> x \<Longrightarrow> x \<le> i64_max \<Longrightarrow> as_u64 x = x"
  by (simp add: as_u64_def width_defs)

lemma saturating_add_i64_range: "i64_min \<le> saturating_add_i64 a b" "saturating_add_i64 a b \<le> i64_max"
  by (auto simp: saturating_add_i64_def width_defs)

section \<open>Lists used as tables\<close>

lemma find_None_iff_key: "find P xs = None \<longleftrightarrow> (\<forall>x\<in>set xs. \<not> P x)"
  by (induction xs) auto

lemma find_SomeD: "find P xs = Some x \<Longrightarrow> x \<in> set xs \<and> P x"
  by (induction xs) (auto split: if_splits)

lemma find_Some_if_member: "x \<in> set xs \<Longrightarrow> P x \<Longrightarrow> \<exists>y. find P xs = Some y"
  by (induction xs) auto

lemma find_append [simp]:
  "find P (xs @ ys) = (case find P xs of None \<Rightarrow> find P ys | Some x \<Rightarrow> Some x)"
  by (induction xs) auto

lemma find_map_same:
  assumes "\<And>x. P (f x) = P x"
  shows "find P (map f xs) = map_option f (find P xs)"
  using assms by (induction xs) auto

lemma find_unique_key:
  assumes "distinct (map key xs)" "x \<in> set xs" "key x = k"
  shows "find (\<lambda>r. key r = k) xs = Some x"
  using assms by (induction xs) auto

lemma filter_map_same:
  assumes "\<And>x. P (f x) = P x"
  shows "filter P (map f xs) = map f (filter P xs)"
  using assms by (induction xs) auto

lemma filter_const_False [simp]: "(\<And>x. x \<in> set xs \<Longrightarrow> \<not> P x) \<Longrightarrow> filter P xs = []"
  by (induction xs) auto

lemma sort_key_sorted: "sorted (map f xs) \<Longrightarrow> sort_key f xs = xs"
  by (rule sort_key_id_if_sorted)

lemma sorted_upto_int [simp]: "sorted [i..j::int]"
  by (rule sorted_upto)

text \<open>Two occurrences under one key are the same row.\<close>

lemma distinct_map_eqD: "distinct (map key xs) \<Longrightarrow> x \<in> set xs \<Longrightarrow> y \<in> set xs \<Longrightarrow> key x = key y \<Longrightarrow> x = y"
  by (induction xs) (auto simp: image_iff)

lemma distinct_map_filter_key: "distinct (map key xs) \<Longrightarrow> distinct (map key (filter P xs))"
  by (rule distinct_map_filter)

text \<open>A separator that neither prefix contains splits a list in one way only.\<close>

lemma append_sep_inj:
  "x \<notin> set xs \<Longrightarrow> x \<notin> set ys \<Longrightarrow> xs @ x # as = ys @ x # bs \<longleftrightarrow> xs = ys \<and> as = bs"
proof (induction xs arbitrary: ys)
  case Nil
  then show ?case by (cases ys) auto
next
  case (Cons z zs)
  then show ?case by (cases ys) auto
qed

section \<open>Tables that only grow\<close>

text \<open>
  \<open>grows R xs ys\<close>: every row of \<open>xs\<close> is still there in \<open>ys\<close>, in its place, changed only as \<open>R\<close>
  allows; \<open>ys\<close> may have more rows after them.
\<close>

definition grows :: "('a \<Rightarrow> 'a \<Rightarrow> bool) \<Rightarrow> 'a list \<Rightarrow> 'a list \<Rightarrow> bool" where
  "grows R xs ys \<longleftrightarrow> length xs \<le> length ys \<and> list_all2 R xs (take (length xs) ys)"

lemma grows_append: "(\<And>x. R x x) \<Longrightarrow> grows R xs (xs @ zs)"
  by (simp add: grows_def list_all2_refl)

lemma grows_refl: "(\<And>x. R x x) \<Longrightarrow> grows R xs xs"
  by (simp add: grows_def list_all2_refl)

lemma grows_map: "(\<And>x. x \<in> set xs \<Longrightarrow> R x (f x)) \<Longrightarrow> grows R xs (map f xs)"
  by (simp add: grows_def list_all2_conv_all_nth)

lemma grows_trans:
  assumes "grows R xs ys" "grows R ys zs" "\<And>x y z. R x y \<Longrightarrow> R y z \<Longrightarrow> R x z"
  shows "grows R xs zs"
  unfolding grows_def list_all2_conv_all_nth
proof (intro conjI allI impI)
  show "length xs \<le> length zs" "length xs = length (take (length xs) zs)"
    using assms by (auto simp: grows_def)
  fix i assume i: "i < length xs"
  then have "R (xs ! i) (ys ! i)" "R (ys ! i) (zs ! i)"
    using assms by (auto simp: grows_def list_all2_conv_all_nth)
  then show "R (xs ! i) (take (length xs) zs ! i)" using i assms(3) by simp
qed

lemma grows_ConsE:
  assumes "grows R (x # xs) ys"
  obtains y zs where "ys = y # zs" "R x y" "grows R xs zs"
  using assms by (cases ys) (auto simp: grows_def)

lemma grows_find:
  assumes "grows R xs ys" "find P xs = Some x" "\<And>x y. R x y \<Longrightarrow> P y = P x"
  obtains y where "find P ys = Some y" "R x y"
  using assms(1,2)
proof (induction xs arbitrary: ys thesis)
  case (Cons a xs)
  obtain b zs where "ys = b # zs" "R a b" "grows R xs zs" using Cons.prems(2) by (rule grows_ConsE)
  then show ?case using Cons.prems(1,3) Cons.IH assms(3) by (cases "P a") auto
qed simp

lemma grows_member:
  assumes "grows R xs ys" "x \<in> set xs"
  obtains y where "y \<in> set ys" "R x y"
  using assms
proof (induction xs arbitrary: ys thesis)
  case (Cons a xs)
  obtain b zs where "ys = b # zs" "R a b" "grows R xs zs" using Cons.prems(2) by (rule grows_ConsE)
  then show ?case using Cons by auto
qed simp

section \<open>Step systems\<close>

text \<open>
  A component that changes state is a step relation. Two locales carry the inductions: a
  state predicate every step keeps holds along every run, and a preorder every step moves
  along relates the two ends of every run. The storage engine, the permission manager and the
  output channel of a console interpret them.
\<close>

locale invariant_system =
  fixes step :: "'s \<Rightarrow> 's \<Rightarrow> bool"
    and inv :: "'s \<Rightarrow> bool"
  assumes step_inv: "step s t \<Longrightarrow> inv s \<Longrightarrow> inv t"
begin

lemma run_inv: "step\<^sup>*\<^sup>* s t \<Longrightarrow> inv s \<Longrightarrow> inv t"
  by (induction rule: rtranclp_induct) (auto intro: step_inv)

end

locale monotone_system = invariant_system +
  fixes le :: "'s \<Rightarrow> 's \<Rightarrow> bool"
  assumes le_refl: "inv s \<Longrightarrow> le s s"
    and le_trans: "le s t \<Longrightarrow> le t u \<Longrightarrow> le s u"
    and step_le: "step s t \<Longrightarrow> inv s \<Longrightarrow> le s t"
begin

lemma run_le: "step\<^sup>*\<^sup>* s t \<Longrightarrow> inv s \<Longrightarrow> le s t"
proof (induction rule: rtranclp_induct)
  case base
  then show ?case by (rule le_refl)
next
  case (step t u)
  then show ?case
    using run_inv le_trans step_le by blast
qed

end

end
