(* ===== verification/World.thy ===== *)
theory World
  imports Prelude
begin

text \<open>
  The effects of the agent crates. A \<open>world\<close> is the database file, the SQLite statements issued
  so far, the wall clock and what the environment does to each of them: \<open>stmt_fault n\<close> says that
  the \<open>n\<close>-th statement fails with an engine fault (disk full, locked file, I/O error), \<open>clock_at n\<close>
  is what the \<open>n\<close>-th read of the system clock returns, in milliseconds relative to the Unix epoch.
  Both are arbitrary functions, so a theorem about every world is a theorem about every fault
  schedule and every clock, a clock that runs backwards included.

  A program is a function from a world to a result and the next world; \<open>Inl\<close> is an early return
  with an error. \<open>andthen\<close> is Rust's \<open>?\<close> followed by the rest of the function, \<open>map_err\<close> is the
  \<open>From\<close> conversion that \<open>?\<close> inserts.
\<close>

section \<open>Worlds and programs\<close>

record 'd world =
  db :: 'd
  stmt_no :: nat
  stmt_fault :: "nat \<Rightarrow> bool"
  clock_no :: nat
  clock_at :: "nat \<Rightarrow> int"

type_synonym ('d, 'e, 'a) io = "'d world \<Rightarrow> ('e + 'a) \<times> 'd world"

definition ret :: "'a \<Rightarrow> ('d, 'e, 'a) io" where
  "ret x = (\<lambda>w. (Inr x, w))"

definition fail :: "'e \<Rightarrow> ('d, 'e, 'a) io" where
  "fail e = (\<lambda>w. (Inl e, w))"

definition andthen :: "('d, 'e, 'a) io \<Rightarrow> ('a \<Rightarrow> ('d, 'e, 'b) io) \<Rightarrow> ('d, 'e, 'b) io" where
  "andthen m k = (\<lambda>w. case m w of (Inl e, w') \<Rightarrow> (Inl e, w') | (Inr x, w') \<Rightarrow> k x w')"

definition map_err :: "('e \<Rightarrow> 'f) \<Rightarrow> ('d, 'e, 'a) io \<Rightarrow> ('d, 'f, 'a) io" where
  "map_err f m = (\<lambda>w. case m w of (Inl e, w') \<Rightarrow> (Inl (f e), w') | (Inr x, w') \<Rightarrow> (Inr x, w'))"

text \<open>\<open>attempt m k\<close> is \<open>match m \<dots>\<close> on the whole result, errors included.\<close>

definition attempt :: "('d, 'e, 'a) io \<Rightarrow> ('e + 'a \<Rightarrow> ('d, 'f, 'b) io) \<Rightarrow> ('d, 'f, 'b) io" where
  "attempt m k = (\<lambda>w. case m w of (r, w') \<Rightarrow> k r w')"

section \<open>The clock\<close>

text \<open>
  \<open>now_millis\<close> of calcar-events: a clock before the epoch reads 0, and the \<open>u128\<close> millisecond
  count is cast to \<open>i64\<close>.
\<close>

definition now_millis :: "('d, 'e, int) io" where
  "now_millis = (\<lambda>w. let t = clock_at w (clock_no w) in
     (Inr (if t < 0 then 0 else as_i64 t), w\<lparr>clock_no := clock_no w + 1\<rparr>))"

section \<open>SQL statements and transactions\<close>

text \<open>
  \<open>Fault\<close> stands for every failure of the engine itself; the other constructors are the
  \<open>rusqlite\<close> errors the statements of the source can produce on their own.
\<close>

datatype sql_error =
    Fault
  | NoSuchTable
  | ConstraintViolation
  | QueryReturnedNoRows

text \<open>
  One SQL statement: it either fails and leaves the file alone or takes effect as a whole.
\<close>

definition sql :: "('d \<Rightarrow> sql_error + ('a \<times> 'd)) \<Rightarrow> ('d, sql_error, 'a) io" where
  "sql f = (\<lambda>w. let w1 = w\<lparr>stmt_no := stmt_no w + 1\<rparr> in
     if stmt_fault w (stmt_no w) then (Inl Fault, w1)
     else case f (db w) of
            Inl e \<Rightarrow> (Inl e, w1)
          | Inr (x, d) \<Rightarrow> (Inr x, w1\<lparr>db := d\<rparr>))"

text \<open>
  \<open>BEGIN\<close>, the body, \<open>COMMIT\<close>. An early return anywhere in between drops the \<open>Transaction\<close>
  value, which rolls back to the file as it was at \<open>BEGIN\<close>.
\<close>

definition transaction :: "(sql_error \<Rightarrow> 'e) \<Rightarrow> ('d, 'e, 'a) io \<Rightarrow> ('d, 'e, 'a) io" where
  "transaction conv body =
     andthen (map_err conv (sql (\<lambda>d. Inr ((), d)))) (\<lambda>_ w0.
       case andthen body (\<lambda>x. andthen (map_err conv (sql (\<lambda>d. Inr ((), d)))) (\<lambda>_. ret x)) w0 of
         (Inl e, w1) \<Rightarrow> (Inl e, w1\<lparr>db := db w0\<rparr>)
       | (Inr x, w1) \<Rightarrow> (Inr x, w1))"

section \<open>Evaluation without engine faults\<close>

definition quiet :: "'d world \<Rightarrow> bool" where
  "quiet w \<longleftrightarrow> (\<forall>n. \<not> stmt_fault w n)"

lemma quiet_updates [simp]:
  "quiet (w\<lparr>db := d\<rparr>) = quiet w"
  "quiet (w\<lparr>stmt_no := n\<rparr>) = quiet w"
  "quiet (w\<lparr>clock_no := n\<rparr>) = quiet w"
  by (simp_all add: quiet_def)

lemma quiet_not_fault: "quiet w \<Longrightarrow> \<not> stmt_fault w n"
  by (simp add: quiet_def)

lemma ret_apply [io_simps]: "ret x w = (Inr x, w)"
  by (simp add: ret_def)

lemma fail_apply [io_simps]: "fail e w = (Inl e, w)"
  by (simp add: fail_def)

lemma andthen_apply [io_simps]:
  "andthen m k w = (case m w of (Inl e, w') \<Rightarrow> (Inl e, w') | (Inr x, w') \<Rightarrow> k x w')"
  by (simp add: andthen_def)

lemma map_err_apply [io_simps]:
  "map_err f m w = (case m w of (Inl e, w') \<Rightarrow> (Inl (f e), w') | (Inr x, w') \<Rightarrow> (Inr x, w'))"
  by (simp add: map_err_def)

lemma attempt_apply [io_simps]: "attempt m k w = (case m w of (r, w') \<Rightarrow> k r w')"
  by (simp add: attempt_def)

lemma now_millis_apply [io_simps]:
  "now_millis w = (Inr (if clock_at w (clock_no w) < 0 then 0 else as_i64 (clock_at w (clock_no w))),
                   w\<lparr>clock_no := clock_no w + 1\<rparr>)"
  by (simp add: now_millis_def Let_def)

lemma sql_quiet [io_simps]:
  "quiet w \<Longrightarrow> sql f w = (case f (db w) of
      Inl e \<Rightarrow> (Inl e, w\<lparr>stmt_no := stmt_no w + 1\<rparr>)
    | Inr (x, d) \<Rightarrow> (Inr x, w\<lparr>stmt_no := stmt_no w + 1, db := d\<rparr>))"
  by (auto simp: sql_def Let_def quiet_def split: sum.splits)

section \<open>Moving along a preorder\<close>

text \<open>
  \<open>moves R m\<close>: whatever the faults and the clock, and whether \<open>m\<close> succeeds or not, the file
  before and the file after are related by \<open>R\<close>. For a preorder this composes, so what is shown
  of the storage primitives carries over to every program built from them.
\<close>

definition moves :: "('d \<Rightarrow> 'd \<Rightarrow> bool) \<Rightarrow> ('d, 'e, 'a) io \<Rightarrow> bool" where
  "moves R m \<longleftrightarrow> (\<forall>w. R (db w) (db (snd (m w))))"

lemma movesD: "moves R m \<Longrightarrow> m w = (r, w') \<Longrightarrow> R (db w) (db w')"
  by (metis moves_def snd_conv)

lemma moves_ret [moves_intros]: "reflp R \<Longrightarrow> moves R (ret x)"
  by (simp add: moves_def ret_def reflpD)

lemma moves_fail [moves_intros]: "reflp R \<Longrightarrow> moves R (fail e)"
  by (simp add: moves_def fail_def reflpD)

lemma moves_now_millis [moves_intros]: "reflp R \<Longrightarrow> moves R now_millis"
  by (simp add: moves_def now_millis_def Let_def reflpD)

lemma moves_andthen [moves_intros]:
  assumes "transp R" "moves R m" "\<And>x. moves R (k x)"
  shows "moves R (andthen m k)"
  unfolding moves_def
proof
  fix w
  obtain r w' where m: "m w = (r, w')" by fastforce
  have 1: "R (db w) (db w')" using assms(2) m by (rule movesD)
  show "R (db w) (db (snd (andthen m k w)))"
  proof (cases r)
    case (Inl e)
    with 1 m show ?thesis by (simp add: andthen_def)
  next
    case (Inr x)
    have "R (db w') (db (snd (k x w')))" using assms(3) by (simp add: moves_def)
    with 1 Inr m assms(1) show ?thesis by (auto simp: andthen_def dest: transpD)
  qed
qed

lemma moves_map_err [moves_intros]: "moves R m \<Longrightarrow> moves R (map_err f m)"
  by (auto simp: moves_def map_err_def split: prod.splits sum.splits) (metis snd_conv)+

lemma moves_attempt [moves_intros]:
  assumes "transp R" "moves R m" "\<And>r. moves R (k r)"
  shows "moves R (attempt m k)"
  unfolding moves_def
proof
  fix w
  obtain r w' where m: "m w = (r, w')" by fastforce
  then have "R (db w) (db w')" using assms(2) movesD by blast
  moreover have "R (db w') (db (snd (k r w')))" using assms(3) by (simp add: moves_def)
  ultimately show "R (db w) (db (snd (attempt m k w)))"
    using m assms(1) by (auto simp: attempt_def dest: transpD)
qed

lemma moves_sql:
  assumes "reflp R" "\<And>d x d'. f d = Inr (x, d') \<Longrightarrow> R d d'"
  shows "moves R (sql f)"
  using assms by (auto simp: moves_def sql_def Let_def reflpD split: sum.splits)

lemma moves_if [moves_intros]: "(b \<Longrightarrow> moves R m) \<Longrightarrow> (\<not> b \<Longrightarrow> moves R n) \<Longrightarrow> moves R (if b then m else n)"
  by simp

lemma moves_case_option [moves_intros]:
  "(x = None \<Longrightarrow> moves R m) \<Longrightarrow> (\<And>y. x = Some y \<Longrightarrow> moves R (n y)) \<Longrightarrow>
   moves R (case x of None \<Rightarrow> m | Some y \<Rightarrow> n y)"
  by (cases x) auto

lemma moves_case_prod [moves_intros]:
  "(\<And>a b. x = (a, b) \<Longrightarrow> moves R (n a b)) \<Longrightarrow> moves R (case x of (a, b) \<Rightarrow> n a b)"
  by (cases x) auto

lemma moves_case_sum [moves_intros]:
  "(\<And>a. x = Inl a \<Longrightarrow> moves R (m a)) \<Longrightarrow> (\<And>b. x = Inr b \<Longrightarrow> moves R (n b)) \<Longrightarrow>
   moves R (case x of Inl a \<Rightarrow> m a | Inr b \<Rightarrow> n b)"
  by (cases x) auto

lemma moves_mono: "moves R m \<Longrightarrow> (\<And>d d'. R d d' \<Longrightarrow> S d d') \<Longrightarrow> moves S m"
  by (simp add: moves_def)

section \<open>Triples\<close>

text \<open>
  \<open>triple P m Q E\<close>: from a file with \<open>P\<close>, a normal return ends in \<open>Q\<close>, an early return in \<open>E\<close>,
  under every fault schedule and clock. Used where the intermediate states of a transaction
  break the invariant.
\<close>

definition triple :: "('d \<Rightarrow> bool) \<Rightarrow> ('d, 'e, 'a) io \<Rightarrow> ('a \<Rightarrow> 'd \<Rightarrow> bool) \<Rightarrow> ('e \<Rightarrow> 'd \<Rightarrow> bool) \<Rightarrow> bool" where
  "triple P m Q E \<longleftrightarrow> (\<forall>w. P (db w) \<longrightarrow>
     (case m w of (Inl e, w') \<Rightarrow> E e (db w') | (Inr x, w') \<Rightarrow> Q x (db w')))"

lemma triple_ret [triple_intros]: "(\<And>d. P d \<Longrightarrow> Q x d) \<Longrightarrow> triple P (ret x) Q E"
  by (simp add: triple_def ret_def)

lemma triple_fail [triple_intros]: "(\<And>d. P d \<Longrightarrow> E e d) \<Longrightarrow> triple P (fail e) Q E"
  by (simp add: triple_def fail_def)

lemma triple_now_millis [triple_intros]: "(\<And>d t. P d \<Longrightarrow> Q t d) \<Longrightarrow> triple P now_millis Q E"
  by (simp add: triple_def now_millis_def Let_def)

lemma triple_andthen [triple_intros]:
  assumes "triple P m R E" "\<And>x. triple (R x) (k x) Q E"
  shows "triple P (andthen m k) Q E"
  unfolding triple_def
proof (intro allI impI)
  fix w :: "'a world" assume P: "P (db w)"
  obtain r w' where m: "m w = (r, w')" by fastforce
  have "case m w of (Inl e, w') \<Rightarrow> E e (db w') | (Inr x, w') \<Rightarrow> R x (db w')"
    using P assms(1) by (simp add: triple_def)
  then have 1: "case r of Inl e \<Rightarrow> E e (db w') | Inr x \<Rightarrow> R x (db w')"
    using m by (simp split: sum.splits)
  show "case andthen m k w of (Inl e, w') \<Rightarrow> E e (db w') | (Inr x, w') \<Rightarrow> Q x (db w')"
    using 1 m assms(2) by (cases r) (auto simp: andthen_def triple_def)
qed

lemma triple_map_err [triple_intros]:
  "triple P m Q (\<lambda>e. E (f e)) \<Longrightarrow> triple P (map_err f m) Q E"
  unfolding triple_def map_err_def
  by (auto split: prod.splits sum.splits)

lemma triple_sql:
  assumes "\<And>d x d'. P d \<Longrightarrow> f d = Inr (x, d') \<Longrightarrow> Q x d'" "\<And>d e. P d \<Longrightarrow> E e d"
  shows "triple P (sql f) Q E"
  using assms by (auto simp: triple_def sql_def Let_def split: sum.splits)

lemma triple_weaken:
  "triple P' m Q' E' \<Longrightarrow> (\<And>d. P d \<Longrightarrow> P' d) \<Longrightarrow> (\<And>x d. Q' x d \<Longrightarrow> Q x d) \<Longrightarrow> (\<And>e d. E' e d \<Longrightarrow> E e d) \<Longrightarrow>
   triple P m Q E"
  unfolding triple_def by (fastforce split: prod.splits sum.splits)

text \<open>The rule of transactions: what the body leaves behind on an early return does not matter.\<close>

lemma sql_skip:
  "sql (\<lambda>d. Inr ((), d)) w =
     (if stmt_fault w (stmt_no w) then Inl Fault else Inr (), w\<lparr>stmt_no := stmt_no w + 1\<rparr>)"
  by (cases w) (simp add: sql_def Let_def)

lemma transaction_unfold:
  "transaction conv body w =
     (let w1 = w\<lparr>stmt_no := stmt_no w + 1\<rparr> in
      if stmt_fault w (stmt_no w) then (Inl (conv Fault), w1)
      else case body w1 of
             (Inl e, w2) \<Rightarrow> (Inl e, w2\<lparr>db := db w\<rparr>)
           | (Inr x, w2) \<Rightarrow>
               if stmt_fault w2 (stmt_no w2)
               then (Inl (conv Fault), w2\<lparr>stmt_no := stmt_no w2 + 1, db := db w\<rparr>)
               else (Inr x, w2\<lparr>stmt_no := stmt_no w2 + 1\<rparr>))"
proof -
  obtain r w2 where b: "body (w\<lparr>stmt_no := stmt_no w + 1\<rparr>) = (r, w2)" by fastforce
  then show ?thesis
    by (cases r) (simp_all add: transaction_def andthen_def map_err_def sql_skip ret_def Let_def)
qed

lemma transaction_error_rolls_back:
  assumes "transaction conv body w = (Inl e, w')"
  shows "db w' = db w"
proof -
  obtain r w2 where b: "body (w\<lparr>stmt_no := stmt_no w + 1\<rparr>) = (r, w2)" by fastforce
  show ?thesis
    using assms b by (cases r) (auto simp: transaction_unfold Let_def split: if_splits)
qed

lemma transaction_okD:
  assumes "transaction conv body w = (Inr x, w')"
  obtains w2 where "body (w\<lparr>stmt_no := stmt_no w + 1\<rparr>) = (Inr x, w2)" "db w' = db w2"
proof -
  obtain r w2 where b: "body (w\<lparr>stmt_no := stmt_no w + 1\<rparr>) = (r, w2)" by fastforce
  show ?thesis
    using assms b that by (cases r) (auto simp: transaction_unfold Let_def split: if_splits)
qed

lemma triple_transaction:
  assumes "\<And>d0. P d0 \<Longrightarrow> triple (\<lambda>d. d = d0) body Q (\<lambda>_ _. True)" "\<And>d e. P d \<Longrightarrow> E e d"
  shows "triple P (transaction conv body) Q E"
  unfolding triple_def
proof (intro allI impI)
  fix w :: "'a world" assume P: "P (db w)"
  obtain r w' where t: "transaction conv body w = (r, w')" by fastforce
  show "case transaction conv body w of (Inl e, w') \<Rightarrow> E e (db w') | (Inr x, w') \<Rightarrow> Q x (db w')"
  proof (cases r)
    case (Inl e)
    then have "db w' = db w" using t transaction_error_rolls_back [of conv body w e w'] by simp
    then show ?thesis using t P Inl assms(2) by simp
  next
    case (Inr x)
    then have "transaction conv body w = (Inr x, w')" using t by simp
    then obtain w2 where b: "body (w\<lparr>stmt_no := stmt_no w + 1\<rparr>) = (Inr x, w2)" "db w' = db w2"
      by (rule transaction_okD)
    have "case body (w\<lparr>stmt_no := stmt_no w + 1\<rparr>) of (Inl e, w') \<Rightarrow> True | (Inr x, w') \<Rightarrow> Q x (db w')"
      using assms(1) [OF P] by (simp add: triple_def)
    then show ?thesis using b t Inr by simp
  qed
qed

lemma moves_transaction [moves_intros]:
  assumes "reflp R" "moves R body"
  shows "moves R (transaction conv body)"
  unfolding moves_def
proof
  fix w :: "'a world"
  obtain r w' where t: "transaction conv body w = (r, w')" by fastforce
  show "R (db w) (db (snd (transaction conv body w)))"
  proof (cases r)
    case (Inl e)
    then have "db w' = db w" using t transaction_error_rolls_back [of conv body w e w'] by simp
    then show ?thesis using t assms(1) by (simp add: reflpD)
  next
    case (Inr x)
    then have "transaction conv body w = (Inr x, w')" using t by simp
    then obtain w2 where "body (w\<lparr>stmt_no := stmt_no w + 1\<rparr>) = (Inr x, w2)" "db w' = db w2"
      by (rule transaction_okD)
    then show ?thesis using movesD [OF assms(2)] t by fastforce
  qed
qed

lemma transaction_quiet [io_simps]:
  "quiet w \<Longrightarrow> transaction conv body w =
     (case body (w\<lparr>stmt_no := stmt_no w + 1\<rparr>) of
        (Inl e, w2) \<Rightarrow> (Inl e, w2\<lparr>db := db w\<rparr>)
      | (Inr x, w2) \<Rightarrow>
          if stmt_fault w2 (stmt_no w2)
          then (Inl (conv Fault), w2\<lparr>stmt_no := stmt_no w2 + 1, db := db w\<rparr>)
          else (Inr x, w2\<lparr>stmt_no := stmt_no w2 + 1\<rparr>))"
  by (simp add: transaction_unfold Let_def quiet_not_fault)

text \<open>A program that only reads.\<close>

definition reads_only :: "('d, 'e, 'a) io \<Rightarrow> bool" where
  "reads_only m \<longleftrightarrow> moves (=) m"

lemma reads_only_moves: "reads_only m \<Longrightarrow> reflp R \<Longrightarrow> moves R m"
  by (simp add: reads_only_def moves_def reflpD)

lemma reads_only_db: "reads_only m \<Longrightarrow> m w = (r, w') \<Longrightarrow> db w' = db w"
  unfolding reads_only_def using movesD by fastforce

lemma reads_only_sql: "(\<And>d x d'. f d = Inr (x, d') \<Longrightarrow> d' = d) \<Longrightarrow> reads_only (sql f)"
  unfolding reads_only_def by (rule moves_sql) (auto simp: reflp_def)

section \<open>Total correctness without engine faults\<close>

text \<open>
  \<open>works P m Q\<close>: when the engine does not fail, \<open>m\<close> started on a file with \<open>P\<close> returns normally,
  with \<open>Q\<close> of its result and the file it leaves.
\<close>

definition works :: "('d \<Rightarrow> bool) \<Rightarrow> ('d, 'e, 'a) io \<Rightarrow> ('a \<Rightarrow> 'd \<Rightarrow> bool) \<Rightarrow> bool" where
  "works P m Q \<longleftrightarrow> (\<forall>w. quiet w \<longrightarrow> P (db w) \<longrightarrow>
     (\<exists>x w'. m w = (Inr x, w') \<and> quiet w' \<and> Q x (db w')))"

lemma worksE:
  assumes "works P m Q" "quiet w" "P (db w)"
  obtains x w' where "m w = (Inr x, w')" "quiet w'" "Q x (db w')"
  using assms by (auto simp: works_def)

lemma works_ret: "(\<And>d. P d \<Longrightarrow> Q x d) \<Longrightarrow> works P (ret x) Q"
  by (simp add: works_def ret_def)

lemma works_now: "(\<And>d t. P d \<Longrightarrow> Q t d) \<Longrightarrow> works P now_millis Q"
  by (simp add: works_def now_millis_def Let_def)

lemma works_andthen:
  assumes "works P m R" "\<And>x. works (R x) (k x) Q"
  shows "works P (andthen m k) Q"
  unfolding works_def
proof (intro allI impI)
  fix w :: "'a world" assume "quiet w" "P (db w)"
  with assms(1) obtain x w1 where m: "m w = (Inr x, w1)" "quiet w1" "R x (db w1)" by (rule worksE)
  from assms(2) m(2,3) obtain y w2 where "k x w1 = (Inr y, w2)" "quiet w2" "Q y (db w2)" by (rule worksE)
  with m show "\<exists>x w'. andthen m k w = (Inr x, w') \<and> quiet w' \<and> Q x (db w')"
    by (simp add: andthen_def)
qed

lemma works_map_err: "works P m Q \<Longrightarrow> works P (map_err f m) Q"
  unfolding works_def map_err_def by (fastforce split: prod.splits sum.splits)

lemma works_attempt:
  assumes "works P m R" "\<And>x. works (R x) (k (Inr x)) Q"
  shows "works P (attempt m k) Q"
  unfolding works_def
proof (intro allI impI)
  fix w :: "'a world" assume "quiet w" "P (db w)"
  with assms(1) obtain x w1 where m: "m w = (Inr x, w1)" "quiet w1" "R x (db w1)" by (rule worksE)
  from assms(2) m(2,3) obtain y w2 where "k (Inr x) w1 = (Inr y, w2)" "quiet w2" "Q y (db w2)" by (rule worksE)
  with m show "\<exists>x w'. attempt m k w = (Inr x, w') \<and> quiet w' \<and> Q x (db w')"
    by (simp add: attempt_def)
qed

lemma works_sql:
  assumes "\<And>d. P d \<Longrightarrow> \<exists>x d'. f d = Inr (x, d') \<and> Q x d'"
  shows "works P (sql f) Q"
  unfolding works_def using assms by (fastforce simp: sql_quiet)

lemma works_transaction:
  assumes "works P body Q"
  shows "works P (transaction conv body) Q"
  unfolding works_def
proof (intro allI impI)
  fix w :: "'a world" assume "quiet w" "P (db w)"
  then have "quiet (w\<lparr>stmt_no := stmt_no w + 1\<rparr>)" "P (db (w\<lparr>stmt_no := stmt_no w + 1\<rparr>))" by simp_all
  with assms obtain x w2 where "body (w\<lparr>stmt_no := stmt_no w + 1\<rparr>) = (Inr x, w2)" "quiet w2" "Q x (db w2)"
    by (rule worksE)
  with \<open>quiet w\<close> show "\<exists>x w'. transaction conv body w = (Inr x, w') \<and> quiet w' \<and> Q x (db w')"
    by (simp add: transaction_unfold Let_def quiet_not_fault)
qed

lemma works_pre: "works P m Q \<Longrightarrow> (\<And>d. P' d \<Longrightarrow> P d) \<Longrightarrow> works P' m Q"
  by (auto simp: works_def)

lemma works_if:
  "(b \<Longrightarrow> works P m Q) \<Longrightarrow> (\<not> b \<Longrightarrow> works P n Q) \<Longrightarrow> works P (if b then m else n) Q"
  by simp

lemma works_assume: "(\<And>d. P d \<Longrightarrow> b) \<Longrightarrow> (b \<Longrightarrow> works P m Q) \<Longrightarrow> works P m Q"
  by (auto simp: works_def)

text \<open>Partial knowledge combines: what holds of every normal return holds of this one.\<close>

lemma works_returns: "works P m Q \<Longrightarrow> quiet w \<Longrightarrow> P (db w) \<Longrightarrow> \<exists>x w'. m w = (Inr x, w') \<and> Q x (db w')"
  by (auto simp: works_def)

end
