(* ===== verification/Events.thy ===== *)
theory Events
  imports Prelude
begin

text \<open>
  The calcar-events crate (agent/crates/calcar-events/src/lib.rs): the three wire enums with
  their \<open>repr(i32)\<close> discriminants, their decoders, and the event record. \<open>now_millis\<close> of the same
  crate is an effect and lives in the theory of worlds.
\<close>

section \<open>Enums and discriminants\<close>

datatype Provider = Unspecified | Opencode | Claude | Codex | Generic

fun Provider_i32 :: "Provider \<Rightarrow> int" where
  "Provider_i32 Provider.Unspecified = 0"
| "Provider_i32 Opencode = 1"
| "Provider_i32 Claude = 2"
| "Provider_i32 Codex = 3"
| "Provider_i32 Generic = 4"

definition Provider_from_i32 :: "int \<Rightarrow> Provider option" where
  "Provider_from_i32 value =
     (if value = 0 then Some Provider.Unspecified
      else if value = 1 then Some Opencode
      else if value = 2 then Some Claude
      else if value = 3 then Some Codex
      else if value = 4 then Some Generic
      else None)"

datatype WorkflowState =
    Unspecified
  | Running
  | WaitingInput
  | WaitingApproval
  | Completed
  | Failed
  | Stopped
  | DisconnectedRunning

fun WorkflowState_i32 :: "WorkflowState \<Rightarrow> int" where
  "WorkflowState_i32 WorkflowState.Unspecified = 0"
| "WorkflowState_i32 Running = 1"
| "WorkflowState_i32 WaitingInput = 2"
| "WorkflowState_i32 WaitingApproval = 3"
| "WorkflowState_i32 Completed = 4"
| "WorkflowState_i32 Failed = 5"
| "WorkflowState_i32 Stopped = 6"
| "WorkflowState_i32 DisconnectedRunning = 7"

definition WorkflowState_from_i32 :: "int \<Rightarrow> WorkflowState option" where
  "WorkflowState_from_i32 value =
     (if value = 0 then Some WorkflowState.Unspecified
      else if value = 1 then Some Running
      else if value = 2 then Some WaitingInput
      else if value = 3 then Some WaitingApproval
      else if value = 4 then Some Completed
      else if value = 5 then Some Failed
      else if value = 6 then Some Stopped
      else if value = 7 then Some DisconnectedRunning
      else None)"

definition is_persistable :: "WorkflowState \<Rightarrow> bool" where
  "is_persistable s \<longleftrightarrow> s \<noteq> WorkflowState.Unspecified \<and> s \<noteq> DisconnectedRunning"

datatype EventType =
    Unspecified
  | AgentStarted
  | CommandStarted
  | CommandCompleted
  | FileChanged
  | ApprovalRequired
  | InputRequired
  | ErrorOccurred
  | WorkflowCompleted
  | WorkflowStopped

fun EventType_i32 :: "EventType \<Rightarrow> int" where
  "EventType_i32 EventType.Unspecified = 0"
| "EventType_i32 AgentStarted = 1"
| "EventType_i32 CommandStarted = 2"
| "EventType_i32 CommandCompleted = 3"
| "EventType_i32 FileChanged = 4"
| "EventType_i32 ApprovalRequired = 5"
| "EventType_i32 InputRequired = 6"
| "EventType_i32 ErrorOccurred = 7"
| "EventType_i32 WorkflowCompleted = 8"
| "EventType_i32 WorkflowStopped = 9"

definition EventType_from_i32 :: "int \<Rightarrow> EventType option" where
  "EventType_from_i32 value =
     (if value = 0 then Some EventType.Unspecified
      else if value = 1 then Some AgentStarted
      else if value = 2 then Some CommandStarted
      else if value = 3 then Some CommandCompleted
      else if value = 4 then Some FileChanged
      else if value = 5 then Some ApprovalRequired
      else if value = 6 then Some InputRequired
      else if value = 7 then Some ErrorOccurred
      else if value = 8 then Some WorkflowCompleted
      else if value = 9 then Some WorkflowStopped
      else None)"

text \<open>
  \<open>Debug\<close> output of \<open>WorkflowState\<close> (derived): the variant's name. It appears in refusal messages.
\<close>

fun WorkflowState_debug :: "WorkflowState \<Rightarrow> string" where
  "WorkflowState_debug WorkflowState.Unspecified = ''Unspecified''"
| "WorkflowState_debug Running = ''Running''"
| "WorkflowState_debug WaitingInput = ''WaitingInput''"
| "WorkflowState_debug WaitingApproval = ''WaitingApproval''"
| "WorkflowState_debug Completed = ''Completed''"
| "WorkflowState_debug Failed = ''Failed''"
| "WorkflowState_debug Stopped = ''Stopped''"
| "WorkflowState_debug DisconnectedRunning = ''DisconnectedRunning''"

section \<open>The event record\<close>

record WorkflowEvent =
  we_event_id :: string
  we_workflow_id :: string
  we_provider_session_id :: "string option"
  we_seq_no :: int
  we_occurred_at_millis :: int
  we_event_type :: EventType
  we_summary :: string
  we_detail_pointer :: "string option"

section \<open>Decoders invert discriminants\<close>

text \<open>
  One locale for the three enums: a discriminant and a decoder that agree. What follows from
  the two laws (no two variants share a number, a number decodes to at most the variant it
  numbers) is used by the storage and lifecycle theories.
\<close>

locale wire_enum =
  fixes disc :: "'e \<Rightarrow> int"
    and decode :: "int \<Rightarrow> 'e option"
  assumes decode_disc: "decode (disc s) = Some s"
    and disc_of_decode: "decode n = Some s \<Longrightarrow> disc s = n"
begin

lemma decode_Some_iff: "decode n = Some s \<longleftrightarrow> n = disc s"
  using decode_disc disc_of_decode by auto

lemma disc_inject: "disc s = disc t \<longleftrightarrow> s = t"
  by (metis decode_disc option.inject)

lemma decode_None_iff: "decode n = None \<longleftrightarrow> n \<notin> range disc"
  by (metis decode_Some_iff not_None_eq rangeE rangeI)

end

interpretation provider_enum: wire_enum Provider_i32 Provider_from_i32
proof
  show "Provider_from_i32 (Provider_i32 s) = Some s" for s
    by (cases s) (simp_all add: Provider_from_i32_def)
  show "Provider_from_i32 n = Some s \<Longrightarrow> Provider_i32 s = n" for n s
    by (auto simp: Provider_from_i32_def split: if_splits)
qed

interpretation state_enum: wire_enum WorkflowState_i32 WorkflowState_from_i32
proof
  show "WorkflowState_from_i32 (WorkflowState_i32 s) = Some s" for s
    by (cases s) (simp_all add: WorkflowState_from_i32_def)
  show "WorkflowState_from_i32 n = Some s \<Longrightarrow> WorkflowState_i32 s = n" for n s
    by (auto simp: WorkflowState_from_i32_def split: if_splits)
qed

interpretation event_enum: wire_enum EventType_i32 EventType_from_i32
proof
  show "EventType_from_i32 (EventType_i32 s) = Some s" for s
    by (cases s) (simp_all add: EventType_from_i32_def)
  show "EventType_from_i32 n = Some s \<Longrightarrow> EventType_i32 s = n" for n s
    by (auto simp: EventType_from_i32_def split: if_splits)
qed

lemmas enum_decode_simps [simp] =
  provider_enum.decode_disc state_enum.decode_disc event_enum.decode_disc

lemma WorkflowState_i32_range: "0 \<le> WorkflowState_i32 s" "WorkflowState_i32 s \<le> 7"
  by (cases s; simp)+

text \<open>The persistable states are the stored discriminants 1 to 6.\<close>

lemma is_persistable_iff_disc:
  "is_persistable s \<longleftrightarrow> WorkflowState_i32 s \<noteq> 0 \<and> WorkflowState_i32 s \<noteq> 7"
  by (cases s) (simp_all add: is_persistable_def)

end
