(* ===== verification/Storage.thy ===== *)
theory Storage
  imports World Events Rust_Str
begin

text \<open>
  The calcar-storage crate (agent/crates/calcar-storage/src/lib.rs and its migration
  0001_init.sql): the tables, and one definition per method of \<open>Storage\<close>.

  A table is the list of its rows in insertion order. A statement of the source is one \<open>sql\<close>
  program: \<open>INSERT\<close> checks the table's primary key, its \<open>CHECK\<close> constraints and its foreign key
  and appends, \<open>UPDATE\<close> maps over the rows that match, \<open>DELETE\<close> filters, \<open>SELECT\<close> filters and
  sorts. Counters and sizes are \<open>int\<close>: a per-workflow sequence would have to pass \<open>2 ^ 63\<close> events
  before SQLite's integers matter.
\<close>

section \<open>Errors\<close>

datatype StorageError =
    Sqlite sql_error
  | Io string
  | Migration string string
  | InvalidState string
  | NotFound string
  | AlreadyResolved string
  | Expired string

section \<open>Tables\<close>

record WorkflowRow =
  wr_workflow_id :: string
  wr_provider :: int
  wr_state :: int
  wr_title :: string
  wr_provider_session_id :: "string option"
  wr_created_at_millis :: int
  wr_updated_at_millis :: int

record event_row =
  er_workflow_id :: string
  er_seq_no :: int
  er_event_id :: string
  er_provider_session_id :: "string option"
  er_type :: int
  er_occurred_at_millis :: int
  er_summary :: string
  er_detail_pointer :: "string option"
  er_approx_bytes :: int

record outbox_row =
  ob_workflow_id :: string
  ob_seq_no :: int
  ob_enqueued_at_millis :: int
  ob_published_at_millis :: "int option"

record binding_row =
  sb_workflow_id :: string
  sb_provider_session_id :: string
  sb_resume_pointer :: "string option"
  sb_bound_at_millis :: int

record truncation_row =
  rt_workflow_id :: string
  rt_truncated_before_seq :: int
  rt_dropped_count :: int
  rt_at_millis :: int

record request_row =
  pr_request_id :: string
  pr_workflow_id :: string
  pr_kind :: int
  pr_state :: int
  pr_created_at_millis :: int
  pr_expires_at_millis :: "int option"
  pr_resolved_at_millis :: "int option"
  pr_resolve_payload :: "string option"

text \<open>
  \<open>migrations_log\<close> is the table schema_migrations, \<open>None\<close> while it does not exist; \<open>schema\<close> says
  whether the tables of 0001_init.sql exist.
\<close>

record database =
  migrations_log :: "(string \<times> int) list option"
  schema :: bool
  t_workflows :: "WorkflowRow list"
  t_events :: "event_row list"
  t_outbox :: "outbox_row list"
  t_bindings :: "binding_row list"
  t_truncations :: "truncation_row list"
  t_requests :: "request_row list"

type_synonym 'a store_io = "(database, StorageError, 'a) io"

text \<open>The file SQLite creates when none exists.\<close>

definition fresh_db :: database where
  "fresh_db = \<lparr>migrations_log = None, schema = False, t_workflows = [], t_events = [],
     t_outbox = [], t_bindings = [], t_truncations = [], t_requests = []\<rparr>"

text \<open>A statement over the tables of the schema; without them SQLite reports a missing table.\<close>

definition stmt :: "(database \<Rightarrow> sql_error + ('a \<times> database)) \<Rightarrow> 'a store_io" where
  "stmt f = map_err Sqlite (sql (\<lambda>d. if schema d then f d else Inl NoSuchTable))"

definition query :: "(database \<Rightarrow> 'a) \<Rightarrow> 'a store_io" where
  "query f = stmt (\<lambda>d. Inr (f d, d))"

section \<open>Migrations\<close>

text \<open>\<open>CREATE TABLE IF NOT EXISTS\<close> for every table of 0001_init.sql.\<close>

definition init_sql :: "database \<Rightarrow> database" where
  "init_sql d = d\<lparr>schema := True\<rparr>"

definition MIGRATIONS :: "(string \<times> (database \<Rightarrow> database)) list" where
  "MIGRATIONS = [(''0001_init'', init_sql)]"

definition create_migrations_log :: "unit store_io" where
  "create_migrations_log = map_err Sqlite (sql (\<lambda>d. Inr ((),
     case migrations_log d of None \<Rightarrow> d\<lparr>migrations_log := Some []\<rparr> | Some _ \<Rightarrow> d)))"

definition applied_names :: "string list store_io" where
  "applied_names = map_err Sqlite (sql (\<lambda>d. case migrations_log d of
       None \<Rightarrow> Inl NoSuchTable
     | Some log \<Rightarrow> Inr (map fst log, d)))"

definition run_migration_sql :: "string \<Rightarrow> (database \<Rightarrow> database) \<Rightarrow> unit store_io" where
  "run_migration_sql name script =
     map_err (\<lambda>_. Migration name ''migration script failed'') (sql (\<lambda>d. Inr ((), script d)))"

definition log_migration :: "string \<Rightarrow> int \<Rightarrow> unit store_io" where
  "log_migration name at = map_err Sqlite (sql (\<lambda>d. case migrations_log d of
       None \<Rightarrow> Inl NoSuchTable
     | Some log \<Rightarrow> if name \<in> set (map fst log) then Inl ConstraintViolation
                   else Inr ((), d\<lparr>migrations_log := Some (log @ [(name, at)])\<rparr>)))"

fun apply_migrations ::
  "string list \<Rightarrow> (string \<times> (database \<Rightarrow> database)) list \<Rightarrow> string list \<Rightarrow> string list store_io" where
  "apply_migrations already [] newly = ret newly"
| "apply_migrations already ((name, script) # rest) newly =
     (if name \<in> set already then apply_migrations already rest newly
      else andthen
        (transaction Sqlite
           (andthen (run_migration_sql name script) (\<lambda>_.
            andthen now_millis (\<lambda>now.
            log_migration name now))))
        (\<lambda>_. apply_migrations already rest (newly @ [name])))"

definition migrate :: "string list store_io" where
  "migrate =
     andthen create_migrations_log (\<lambda>_.
     andthen applied_names (\<lambda>already.
     apply_migrations already MIGRATIONS []))"

section \<open>Workflow rows\<close>

definition MAX_RING_EVENTS :: int where
  "MAX_RING_EVENTS = 5000"

definition MAX_RING_BYTES :: int where
  "MAX_RING_BYTES = 10 * 1024 * 1024"

record RingStats =
  rs_count :: int
  rs_approx_bytes :: int
  rs_oldest_seq :: "int option"
  rs_newest_seq :: "int option"
  rs_truncated_before_seq :: "int option"
  rs_dropped_count :: int

datatype RequestKind = Input | Approval

fun RequestKind_i32 :: "RequestKind \<Rightarrow> int" where
  "RequestKind_i32 Input = 1"
| "RequestKind_i32 Approval = 2"

definition RequestKind_from_i32 :: "int \<Rightarrow> RequestKind option" where
  "RequestKind_from_i32 value =
     (if value = 1 then Some Input else if value = 2 then Some Approval else None)"

record EventDraft =
  ed_workflow_id :: string
  ed_event_id :: string
  ed_provider_session_id :: "string option"
  ed_occurred_at_millis :: int
  ed_event_type :: EventType
  ed_summary :: string
  ed_detail_pointer :: "string option"

definition TERMINAL_STATES :: "int list" where
  "TERMINAL_STATES = [4, 5, 6]"

definition opt_len :: "string option \<Rightarrow> int" where
  "opt_len s = (case s of None \<Rightarrow> 0 | Some t \<Rightarrow> int (length t))"

definition approx_bytes :: "string \<Rightarrow> string option \<Rightarrow> string \<Rightarrow> string option \<Rightarrow> int" where
  "approx_bytes summary detail_pointer event_id provider_session_id =
     64 + int (length summary) + opt_len detail_pointer + int (length event_id)
       + opt_len provider_session_id"

definition find_workflow :: "database \<Rightarrow> string \<Rightarrow> WorkflowRow option" where
  "find_workflow d wid = find (\<lambda>r. wr_workflow_id r = wid) (t_workflows d)"

text \<open>\<open>INSERT INTO workflows\<close>: primary key and \<open>CHECK (state NOT IN (0, 7))\<close>.\<close>

definition insert_workflow :: "WorkflowRow \<Rightarrow> database \<Rightarrow> sql_error + (unit \<times> database)" where
  "insert_workflow r d =
     (if find_workflow d (wr_workflow_id r) \<noteq> None \<or> wr_state r \<in> {0, 7} then Inl ConstraintViolation
      else Inr ((), d\<lparr>t_workflows := t_workflows d @ [r]\<rparr>))"

definition create_workflow ::
  "string \<Rightarrow> Provider \<Rightarrow> string \<Rightarrow> string option \<Rightarrow> WorkflowRow store_io" where
  "create_workflow workflow_id provider title provider_session_id =
     andthen now_millis (\<lambda>now.
     let row = \<lparr>wr_workflow_id = workflow_id, wr_provider = Provider_i32 provider,
                wr_state = WorkflowState_i32 Running, wr_title = title,
                wr_provider_session_id = provider_session_id,
                wr_created_at_millis = now, wr_updated_at_millis = now\<rparr> in
     andthen (stmt (insert_workflow row)) (\<lambda>_. ret row))"

definition get_workflow :: "string \<Rightarrow> WorkflowRow option store_io" where
  "get_workflow workflow_id = query (\<lambda>d. find_workflow d workflow_id)"

text \<open>\<open>UPDATE workflows SET state, updated_at_millis WHERE workflow_id\<close>, under the same \<open>CHECK\<close>.\<close>

definition update_workflow_state ::
  "string \<Rightarrow> int \<Rightarrow> int \<Rightarrow> database \<Rightarrow> sql_error + (unit \<times> database)" where
  "update_workflow_state wid st now d =
     (if find_workflow d wid \<noteq> None \<and> st \<in> {0, 7} then Inl ConstraintViolation
      else Inr ((), d\<lparr>t_workflows := map (\<lambda>r. if wr_workflow_id r = wid
             then r\<lparr>wr_state := st, wr_updated_at_millis := now\<rparr> else r) (t_workflows d)\<rparr>))"

definition set_workflow_state :: "string \<Rightarrow> WorkflowState \<Rightarrow> WorkflowRow store_io" where
  "set_workflow_state workflow_id new_state =
     (if \<not> is_persistable new_state then
        fail (InvalidState (''state '' @ WorkflowState_debug new_state
          @ '' is a projection or unspecified and is never persisted''))
      else
        andthen (get_workflow workflow_id) (\<lambda>found. case found of
          None \<Rightarrow> fail (NotFound (''workflow '' @ workflow_id))
        | Some current \<Rightarrow>
            if wr_state current \<in> set TERMINAL_STATES then
              fail (InvalidState (''workflow '' @ workflow_id @ '' is in terminal state ''
                @ show_int (wr_state current) @ ''; no transitions out''))
            else
              andthen now_millis (\<lambda>now.
              andthen (stmt (update_workflow_state workflow_id (WorkflowState_i32 new_state) now)) (\<lambda>_.
              andthen (get_workflow workflow_id) (\<lambda>again. case again of
                None \<Rightarrow> fail (NotFound (''workflow '' @ workflow_id))
              | Some row \<Rightarrow> ret row)))))"

section \<open>The event ring\<close>

definition events_of :: "database \<Rightarrow> string \<Rightarrow> event_row list" where
  "events_of d wid = filter (\<lambda>r. er_workflow_id r = wid) (t_events d)"

text \<open>\<open>MAX(seq_no)\<close> and \<open>MIN(seq_no)\<close> over a workflow's events, \<open>None\<close> for SQL's \<open>NULL\<close>.\<close>

definition max_seq :: "database \<Rightarrow> string \<Rightarrow> int option" where
  "max_seq d wid = (case map er_seq_no (events_of d wid) of [] \<Rightarrow> None | x # xs \<Rightarrow> Some (foldl max x xs))"

definition min_seq :: "database \<Rightarrow> string \<Rightarrow> int option" where
  "min_seq d wid = (case map er_seq_no (events_of d wid) of [] \<Rightarrow> None | x # xs \<Rightarrow> Some (foldl min x xs))"

definition ring_count :: "database \<Rightarrow> string \<Rightarrow> int" where
  "ring_count d wid = int (length (events_of d wid))"

definition ring_bytes :: "database \<Rightarrow> string \<Rightarrow> int" where
  "ring_bytes d wid = sum_list (map er_approx_bytes (events_of d wid))"

text \<open>\<open>INSERT INTO workflow_events\<close>: primary key (workflow, seq) and the workflow must exist.\<close>

definition insert_event :: "event_row \<Rightarrow> database \<Rightarrow> sql_error + (unit \<times> database)" where
  "insert_event r d =
     (if find_workflow d (er_workflow_id r) = None
         \<or> er_seq_no r \<in> set (map er_seq_no (events_of d (er_workflow_id r)))
      then Inl ConstraintViolation
      else Inr ((), d\<lparr>t_events := t_events d @ [r]\<rparr>))"

definition outbox_of :: "database \<Rightarrow> string \<Rightarrow> outbox_row list" where
  "outbox_of d wid = filter (\<lambda>r. ob_workflow_id r = wid) (t_outbox d)"

definition insert_outbox :: "outbox_row \<Rightarrow> database \<Rightarrow> sql_error + (unit \<times> database)" where
  "insert_outbox r d =
     (if ob_seq_no r \<in> set (map ob_seq_no (outbox_of d (ob_workflow_id r))) then Inl ConstraintViolation
      else Inr ((), d\<lparr>t_outbox := t_outbox d @ [r]\<rparr>))"

definition find_truncation :: "database \<Rightarrow> string \<Rightarrow> truncation_row option" where
  "find_truncation d wid = find (\<lambda>r. rt_workflow_id r = wid) (t_truncations d)"

text \<open>The walk over the oldest rows that finds the cutoff covering both deficits.\<close>

fun trim_walk :: "int \<Rightarrow> int \<Rightarrow> int option \<Rightarrow> (int \<times> int) list \<Rightarrow> int option" where
  "trim_walk need_events need_bytes cutoff [] = cutoff"
| "trim_walk need_events need_bytes cutoff ((seq, row_bytes) # rows) =
     (if need_events \<le> 0 \<and> need_bytes \<le> 0 then cutoff
      else trim_walk (need_events - 1) (need_bytes - row_bytes) (Some seq) rows)"

text \<open>\<open>DELETE \<dots> WHERE workflow_id = ? AND seq_no <= ?\<close>, with the count of deleted rows.\<close>

definition delete_events :: "string \<Rightarrow> int \<Rightarrow> database \<Rightarrow> sql_error + (int \<times> database)" where
  "delete_events wid cutoff d =
     (let doomed = (\<lambda>r. er_workflow_id r = wid \<and> er_seq_no r \<le> cutoff) in
      Inr (int (length (filter doomed (t_events d))),
           d\<lparr>t_events := filter (\<lambda>r. \<not> doomed r) (t_events d)\<rparr>))"

definition upsert_truncation :: "string \<Rightarrow> int \<Rightarrow> int \<Rightarrow> int \<Rightarrow> database \<Rightarrow> sql_error + (unit \<times> database)" where
  "upsert_truncation wid cutoff deleted now d =
     Inr ((), if find_truncation d wid = None
        then d\<lparr>t_truncations := t_truncations d @
               [\<lparr>rt_workflow_id = wid, rt_truncated_before_seq = cutoff, rt_dropped_count = deleted,
                 rt_at_millis = now\<rparr>]\<rparr>
        else d\<lparr>t_truncations := map (\<lambda>r. if rt_workflow_id r = wid
               then r\<lparr>rt_truncated_before_seq := max (rt_truncated_before_seq r) cutoff,
                      rt_dropped_count := rt_dropped_count r + deleted, rt_at_millis := now\<rparr>
               else r) (t_truncations d)\<rparr>)"

text \<open>The end of \<open>trim_ring\<close>: delete up to the cutoff, if there is one, and record it.\<close>

definition cut_ring :: "string \<Rightarrow> int option \<Rightarrow> unit store_io" where
  "cut_ring workflow_id found = (case found of
       None \<Rightarrow> ret ()
     | Some cutoff \<Rightarrow>
         andthen (stmt (delete_events workflow_id cutoff)) (\<lambda>deleted.
         andthen now_millis (\<lambda>now.
         stmt (upsert_truncation workflow_id cutoff deleted now))))"

definition trim_ring :: "string \<Rightarrow> unit store_io" where
  "trim_ring workflow_id =
     andthen (query (\<lambda>d. (ring_count d workflow_id, ring_bytes d workflow_id))) (\<lambda>(count, bytes).
     let excess_events = max (count - MAX_RING_EVENTS) 0;
         excess_bytes = max (bytes - MAX_RING_BYTES) 0 in
     if excess_events = 0 \<and> excess_bytes = 0 then ret ()
     else
       andthen (stmt (\<lambda>d. case max_seq d workflow_id of
                  None \<Rightarrow> Inl QueryReturnedNoRows | Some m \<Rightarrow> Inr (m, d))) (\<lambda>newest.
       andthen (query (\<lambda>d. map (\<lambda>r. (er_seq_no r, er_approx_bytes r))
                  (sort_key er_seq_no (filter (\<lambda>r. er_seq_no r < newest) (events_of d workflow_id))))) (\<lambda>rows.
       cut_ring workflow_id (trim_walk excess_events excess_bytes None rows))))"

definition draft_row :: "EventDraft \<Rightarrow> int \<Rightarrow> event_row" where
  "draft_row draft seq =
     \<lparr>er_workflow_id = ed_workflow_id draft, er_seq_no = seq, er_event_id = ed_event_id draft,
      er_provider_session_id = ed_provider_session_id draft,
      er_type = EventType_i32 (ed_event_type draft),
      er_occurred_at_millis = ed_occurred_at_millis draft, er_summary = ed_summary draft,
      er_detail_pointer = ed_detail_pointer draft,
      er_approx_bytes = approx_bytes (ed_summary draft) (ed_detail_pointer draft) (ed_event_id draft)
        (ed_provider_session_id draft)\<rparr>"

definition draft_event :: "EventDraft \<Rightarrow> int \<Rightarrow> WorkflowEvent" where
  "draft_event draft seq =
     \<lparr>we_event_id = ed_event_id draft, we_workflow_id = ed_workflow_id draft,
      we_provider_session_id = ed_provider_session_id draft, we_seq_no = as_u64 seq,
      we_occurred_at_millis = ed_occurred_at_millis draft,
      we_event_type = ed_event_type draft, we_summary = ed_summary draft,
      we_detail_pointer = ed_detail_pointer draft\<rparr>"

text \<open>The statements between \<open>BEGIN\<close> and \<open>COMMIT\<close>.\<close>

definition append_body :: "EventDraft \<Rightarrow> WorkflowEvent store_io" where
  "append_body draft =
     andthen (query (\<lambda>d. (case max_seq d (ed_workflow_id draft) of None \<Rightarrow> 0 | Some m \<Rightarrow> m) + 1)) (\<lambda>seq.
     andthen (stmt (insert_event (draft_row draft seq))) (\<lambda>_.
     andthen now_millis (\<lambda>now.
     andthen (stmt (insert_outbox
       \<lparr>ob_workflow_id = ed_workflow_id draft, ob_seq_no = seq, ob_enqueued_at_millis = now,
        ob_published_at_millis = None\<rparr>)) (\<lambda>_.
     andthen (trim_ring (ed_workflow_id draft)) (\<lambda>_.
     ret (draft_event draft seq))))))"

definition append_event :: "EventDraft \<Rightarrow> WorkflowEvent store_io" where
  "append_event draft =
     andthen (get_workflow (ed_workflow_id draft)) (\<lambda>found. case found of
       None \<Rightarrow> fail (NotFound (''workflow '' @ ed_workflow_id draft))
     | Some _ \<Rightarrow> transaction Sqlite (append_body draft))"

definition map_event :: "event_row \<Rightarrow> WorkflowEvent" where
  "map_event r =
     \<lparr>we_event_id = er_event_id r, we_workflow_id = er_workflow_id r,
      we_provider_session_id = er_provider_session_id r, we_seq_no = as_u64 (er_seq_no r),
      we_occurred_at_millis = er_occurred_at_millis r,
      we_event_type = (case EventType_from_i32 (er_type r) of None \<Rightarrow> EventType.Unspecified | Some t \<Rightarrow> t),
      we_summary = er_summary r, we_detail_pointer = er_detail_pointer r\<rparr>"

definition events_after :: "string \<Rightarrow> int \<Rightarrow> nat \<Rightarrow> WorkflowEvent list store_io" where
  "events_after workflow_id after_seq limit =
     query (\<lambda>d. map map_event (take limit
       (sort_key er_seq_no (filter (\<lambda>r. er_seq_no r > after_seq) (events_of d workflow_id)))))"

definition ring_stats :: "string \<Rightarrow> RingStats store_io" where
  "ring_stats workflow_id =
     andthen (query (\<lambda>d. (ring_count d workflow_id, ring_bytes d workflow_id))) (\<lambda>(count, bytes).
     andthen (query (\<lambda>d. (min_seq d workflow_id, max_seq d workflow_id))) (\<lambda>(oldest, newest).
     andthen (query (\<lambda>d. find_truncation d workflow_id)) (\<lambda>cut.
     ret \<lparr>rs_count = count, rs_approx_bytes = bytes, rs_oldest_seq = oldest, rs_newest_seq = newest,
          rs_truncated_before_seq = map_option rt_truncated_before_seq cut,
          rs_dropped_count = (case cut of None \<Rightarrow> 0 | Some r \<Rightarrow> rt_dropped_count r)\<rparr>)))"

section \<open>The outbox\<close>

record OutboxEntry =
  oe_workflow_id :: string
  oe_seq_no :: int

definition pending_outbox :: "database \<Rightarrow> outbox_row list" where
  "pending_outbox d = filter (\<lambda>r. ob_published_at_millis r = None) (t_outbox d)"

text \<open>
  \<open>ORDER BY enqueued_at_millis, workflow_id, seq_no\<close>: three stable sorts, the least significant
  key first.
\<close>

definition drain_order :: "outbox_row list \<Rightarrow> outbox_row list" where
  "drain_order rows =
     sort_key ob_enqueued_at_millis (sort_key ob_workflow_id (sort_key ob_seq_no rows))"

definition outbox_drain :: "nat \<Rightarrow> OutboxEntry list store_io" where
  "outbox_drain limit = query (\<lambda>d.
     map (\<lambda>r. \<lparr>oe_workflow_id = ob_workflow_id r, oe_seq_no = ob_seq_no r\<rparr>)
       (take limit (drain_order (pending_outbox d))))"

definition mark_one :: "OutboxEntry \<Rightarrow> int \<Rightarrow> database \<Rightarrow> sql_error + (nat \<times> database)" where
  "mark_one entry now d =
     (let hit = (\<lambda>r. ob_workflow_id r = oe_workflow_id entry \<and> ob_seq_no r = oe_seq_no entry
                      \<and> ob_published_at_millis r = None) in
      Inr (length (filter hit (t_outbox d)),
           d\<lparr>t_outbox := map (\<lambda>r. if hit r then r\<lparr>ob_published_at_millis := Some now\<rparr> else r) (t_outbox d)\<rparr>))"

fun mark_loop :: "OutboxEntry list \<Rightarrow> nat \<Rightarrow> nat store_io" where
  "mark_loop [] marked = ret marked"
| "mark_loop (entry # entries) marked =
     andthen now_millis (\<lambda>now.
     andthen (stmt (mark_one entry now)) (\<lambda>n. mark_loop entries (marked + n)))"

definition outbox_mark_published :: "OutboxEntry list \<Rightarrow> nat store_io" where
  "outbox_mark_published entries = mark_loop entries 0"

definition outbox_pending_count :: "int store_io" where
  "outbox_pending_count = query (\<lambda>d. int (length (pending_outbox d)))"

section \<open>Session bindings\<close>

definition find_binding :: "database \<Rightarrow> string \<Rightarrow> binding_row option" where
  "find_binding d wid = find (\<lambda>r. sb_workflow_id r = wid) (t_bindings d)"

definition upsert_binding ::
  "string \<Rightarrow> string \<Rightarrow> string option \<Rightarrow> int \<Rightarrow> database \<Rightarrow> sql_error + (unit \<times> database)" where
  "upsert_binding wid session pointer now d =
     (let row = \<lparr>sb_workflow_id = wid, sb_provider_session_id = session,
                 sb_resume_pointer = pointer, sb_bound_at_millis = now\<rparr> in
      if find_workflow d wid = None then Inl ConstraintViolation
      else if find_binding d wid = None then Inr ((), d\<lparr>t_bindings := t_bindings d @ [row]\<rparr>)
      else Inr ((), d\<lparr>t_bindings := map (\<lambda>r. if sb_workflow_id r = wid then row else r) (t_bindings d)\<rparr>))"

definition upsert_session_binding :: "string \<Rightarrow> string \<Rightarrow> string option \<Rightarrow> unit store_io" where
  "upsert_session_binding workflow_id provider_session_id resume_pointer =
     andthen now_millis (\<lambda>now.
     stmt (upsert_binding workflow_id provider_session_id resume_pointer now))"

definition get_session_binding :: "string \<Rightarrow> (string \<times> string option) option store_io" where
  "get_session_binding workflow_id = query (\<lambda>d.
     map_option (\<lambda>r. (sb_provider_session_id r, sb_resume_pointer r)) (find_binding d workflow_id))"

section \<open>Pending requests\<close>

datatype RequestState = Pending | Resolved | Expired

fun RequestState_i32 :: "RequestState \<Rightarrow> int" where
  "RequestState_i32 Pending = 1"
| "RequestState_i32 Resolved = 2"
| "RequestState_i32 RequestState.Expired = 3"

definition find_request :: "database \<Rightarrow> string \<Rightarrow> request_row option" where
  "find_request d rid = find (\<lambda>r. pr_request_id r = rid) (t_requests d)"

definition insert_request :: "request_row \<Rightarrow> database \<Rightarrow> sql_error + (unit \<times> database)" where
  "insert_request r d =
     (if find_request d (pr_request_id r) \<noteq> None \<or> find_workflow d (pr_workflow_id r) = None
         \<or> pr_kind r \<notin> {1, 2} \<or> pr_state r \<notin> {1, 2, 3}
      then Inl ConstraintViolation
      else Inr ((), d\<lparr>t_requests := t_requests d @ [r]\<rparr>))"

definition create_pending_request ::
  "string \<Rightarrow> string \<Rightarrow> RequestKind \<Rightarrow> int option \<Rightarrow> unit store_io" where
  "create_pending_request request_id workflow_id kind expires_at_millis =
     andthen (get_workflow workflow_id) (\<lambda>found. case found of
       None \<Rightarrow> fail (NotFound (''workflow '' @ workflow_id))
     | Some _ \<Rightarrow>
       andthen now_millis (\<lambda>now.
       stmt (insert_request
         \<lparr>pr_request_id = request_id, pr_workflow_id = workflow_id, pr_kind = RequestKind_i32 kind,
          pr_state = 1, pr_created_at_millis = now, pr_expires_at_millis = expires_at_millis,
          pr_resolved_at_millis = None, pr_resolve_payload = None\<rparr>)))"

definition overdue :: "int \<Rightarrow> request_row \<Rightarrow> bool" where
  "overdue now r \<longleftrightarrow> pr_state r = 1 \<and> (case pr_expires_at_millis r of None \<Rightarrow> False | Some t \<Rightarrow> t \<le> now)"

definition expire_one :: "string \<Rightarrow> int \<Rightarrow> database \<Rightarrow> sql_error + (unit \<times> database)" where
  "expire_one rid now d = Inr ((), d\<lparr>t_requests :=
     map (\<lambda>r. if pr_request_id r = rid \<and> overdue now r then r\<lparr>pr_state := 3\<rparr> else r) (t_requests d)\<rparr>)"

definition resolve_one :: "string \<Rightarrow> int \<Rightarrow> string \<Rightarrow> database \<Rightarrow> sql_error + (nat \<times> database)" where
  "resolve_one rid now payload d =
     (let hit = (\<lambda>r. pr_request_id r = rid \<and> pr_state r = 1) in
      Inr (length (filter hit (t_requests d)),
           d\<lparr>t_requests := map (\<lambda>r. if hit r
               then r\<lparr>pr_state := 2, pr_resolved_at_millis := Some now, pr_resolve_payload := Some payload\<rparr>
               else r) (t_requests d)\<rparr>))"

definition resolve_pending_request :: "string \<Rightarrow> string \<Rightarrow> unit store_io" where
  "resolve_pending_request request_id payload =
     andthen now_millis (\<lambda>now.
     andthen (stmt (expire_one request_id now)) (\<lambda>_.
     andthen (stmt (resolve_one request_id now payload)) (\<lambda>updated.
     if updated = 1 then ret ()
     else
       andthen (query (\<lambda>d. map_option pr_state (find_request d request_id))) (\<lambda>state.
       case state of
         Some s \<Rightarrow> if s = 3 then fail (StorageError.Expired request_id)
                   else fail (AlreadyResolved request_id)
       | None \<Rightarrow> fail (NotFound (''request '' @ request_id))))))"

definition expire_all :: "int \<Rightarrow> database \<Rightarrow> sql_error + (int \<times> database)" where
  "expire_all now d =
     Inr (int (length (filter (overdue now) (t_requests d))),
          d\<lparr>t_requests := map (\<lambda>r. if overdue now r then r\<lparr>pr_state := 3\<rparr> else r) (t_requests d)\<rparr>)"

definition expire_pending_requests :: "int store_io" where
  "expire_pending_requests = andthen now_millis (\<lambda>now. stmt (expire_all now))"

end
