(* ===== verification/Storage_Ring.thy ===== *)
theory Storage_Ring
  imports Storage
begin

text \<open>
  The event ring of calcar-storage. Per workflow the ring is a window of consecutive sequence
  numbers: \<open>cut + 1\<close> up to the high-water mark, where \<open>cut\<close> is what \<open>ring_truncations\<close> records, and
  the outbox holds one row for every number ever assigned. This theory shows that an append
  keeps that shape, what it returns, how much the trim drops, and that a failing append
  leaves the file untouched.
\<close>

section \<open>Successful programs and what they did\<close>

lemma andthen_okE:
  assumes "andthen m k w = (Inr y, w2)"
  obtains x w1 where "m w = (Inr x, w1)" "k x w1 = (Inr y, w2)"
  using assms by (auto simp: andthen_def split: prod.splits sum.splits)

lemma map_err_okE:
  assumes "map_err f m w = (Inr y, w1)"
  obtains "m w = (Inr y, w1)"
  using assms by (auto simp: map_err_def split: prod.splits sum.splits)

lemma now_okE:
  assumes "now_millis w = (Inr t, w1)"
  obtains "db w1 = db w"
  using assms by (auto simp: now_millis_def Let_def)

lemma ret_okE:
  assumes "ret x w = (Inr y, w1)"
  obtains "y = x" "w1 = w"
  using assms by (auto simp: ret_def)

lemma stmt_okE:
  assumes "stmt f w = (Inr x, w1)"
  obtains "schema (db w)" "f (db w) = Inr (x, db w1)"
  using assms
  by (auto simp: stmt_def map_err_def sql_def Let_def split: prod.splits sum.splits if_splits)

lemma query_okE:
  assumes "query f w = (Inr x, w1)"
  obtains "schema (db w)" "x = f (db w)" "db w1 = db w"
proof -
  have "stmt (\<lambda>d. Inr (f d, d)) w = (Inr x, w1)" using assms by (simp add: query_def)
  then have "schema (db w) \<and> x = f (db w) \<and> db w1 = db w"
    by (rule stmt_okE) auto
  then show ?thesis using that by blast
qed

lemma get_workflow_okE:
  assumes "get_workflow wid w = (Inr r, w1)"
  obtains "schema (db w)" "r = find_workflow (db w) wid" "db w1 = db w"
  using assms that unfolding get_workflow_def by (blast elim: query_okE)

lemmas ok_elims = andthen_okE map_err_okE now_okE ret_okE stmt_okE query_okE get_workflow_okE

section \<open>How many rows the walk drops\<close>

fun trim_count :: "int \<Rightarrow> int \<Rightarrow> int list \<Rightarrow> nat" where
  "trim_count need_events need_bytes [] = 0"
| "trim_count need_events need_bytes (b # bs) =
     (if need_events \<le> 0 \<and> need_bytes \<le> 0 then 0 else Suc (trim_count (need_events - 1) (need_bytes - b) bs))"

lemma trim_count_le: "trim_count ne nb bs \<le> length bs"
  by (induction ne nb bs rule: trim_count.induct) auto

lemma trim_count_enough:
  "trim_count ne nb bs < length bs \<Longrightarrow>
   ne \<le> int (trim_count ne nb bs) \<and> nb \<le> sum_list (take (trim_count ne nb bs) bs)"
  by (induction ne nb bs rule: trim_count.induct) (auto split: if_splits)

lemma trim_count_minimal:
  "j < trim_count ne nb bs \<Longrightarrow> \<not> (ne \<le> int j \<and> nb \<le> sum_list (take j bs))"
proof (induction ne nb bs arbitrary: j rule: trim_count.induct)
  case (2 ne nb b bs)
  then show ?case by (cases j) (force split: if_splits)+
qed simp

lemma trim_count_0: "ne \<le> 0 \<Longrightarrow> nb \<le> 0 \<Longrightarrow> trim_count ne nb bs = 0"
  by (cases bs) auto

lemma trim_walk_count:
  "length seqs = length bs \<Longrightarrow>
   trim_walk ne nb c (zip seqs bs) =
     (if trim_count ne nb bs = 0 then c else Some (seqs ! (trim_count ne nb bs - 1)))"
proof (induction ne nb bs arbitrary: seqs c rule: trim_count.induct)
  case (2 ne nb b bs)
  then obtain q qs where seqs: "seqs = q # qs" "length qs = length bs" by (cases seqs) auto
  show ?case
    using 2 seqs by (auto simp: nth_Cons' gr0_conv_Suc split: if_splits)
qed auto

section \<open>The shape of a ring\<close>

definition cut_of :: "database \<Rightarrow> string \<Rightarrow> int" where
  "cut_of d wid = (case find_truncation d wid of None \<Rightarrow> 0 | Some r \<Rightarrow> rt_truncated_before_seq r)"

definition dropped_of :: "database \<Rightarrow> string \<Rightarrow> int" where
  "dropped_of d wid = (case find_truncation d wid of None \<Rightarrow> 0 | Some r \<Rightarrow> rt_dropped_count r)"

definition high_water :: "database \<Rightarrow> string \<Rightarrow> int" where
  "high_water d wid = cut_of d wid + ring_count d wid"

definition ring_ok :: "database \<Rightarrow> string \<Rightarrow> bool" where
  "ring_ok d wid \<longleftrightarrow>
     0 \<le> cut_of d wid \<and> dropped_of d wid = cut_of d wid \<and>
     map er_seq_no (events_of d wid) = [cut_of d wid + 1 .. high_water d wid] \<and>
     map ob_seq_no (outbox_of d wid) = [1 .. high_water d wid] \<and>
     (0 < cut_of d wid \<longrightarrow> events_of d wid \<noteq> []) \<and>
     ring_count d wid \<le> MAX_RING_EVENTS \<and>
     (ring_bytes d wid \<le> MAX_RING_BYTES \<or> ring_count d wid = 1) \<and>
     (\<forall>r\<in>set (events_of d wid). 64 \<le> er_approx_bytes r)"

lemma ring_okD:
  assumes "ring_ok d wid"
  shows "0 \<le> cut_of d wid" "dropped_of d wid = cut_of d wid"
    "map er_seq_no (events_of d wid) = [cut_of d wid + 1 .. high_water d wid]"
    "map ob_seq_no (outbox_of d wid) = [1 .. high_water d wid]"
    "0 < cut_of d wid \<Longrightarrow> events_of d wid \<noteq> []"
    "ring_count d wid \<le> MAX_RING_EVENTS"
    "ring_bytes d wid \<le> MAX_RING_BYTES \<or> ring_count d wid = 1"
    "r \<in> set (events_of d wid) \<Longrightarrow> 64 \<le> er_approx_bytes r"
  using assms by (auto simp: ring_ok_def)

lemma upto_empty_iff: "[i..j::int] = [] \<longleftrightarrow> j < i"
  by (cases "i \<le> j") (auto simp: upto_rec1)

lemma foldl_max_upto_Cons:
  assumes "[i..j::int] = x # xs"
  shows "foldl max x xs = j"
proof -
  have "i \<le> j" using assms upto_empty_iff [of i j] by simp
  then have "Max (set [i..j]) = j" by (auto simp: Max_eq_iff)
  then show ?thesis
    using assms by (simp add: Max.set_eq_fold [symmetric] foldl_conv_fold max.commute)
qed

lemma foldl_min_upto_Cons:
  assumes "[i..j::int] = x # xs"
  shows "foldl min x xs = i"
proof -
  have "i \<le> j" using assms upto_empty_iff [of i j] by simp
  then have "Min (set [i..j]) = i" by (auto simp: Min_eq_iff)
  then show ?thesis
    using assms by (simp add: Min.set_eq_fold [symmetric] foldl_conv_fold min.commute)
qed

lemma max_seq_window:
  assumes "map er_seq_no (events_of d wid) = [c + 1 .. h]"
  shows "max_seq d wid = (if c < h then Some h else None)"
proof (cases "[c + 1 .. h]")
  case Nil
  then have "h < c + 1" by (simp only: upto_empty_iff)
  with Nil assms show ?thesis by (simp add: max_seq_def)
next
  case (Cons x xs)
  then have "\<not> h < c + 1" by (metis list.distinct(1) upto_empty_iff)
  with Cons assms foldl_max_upto_Cons [OF Cons] show ?thesis by (simp add: max_seq_def)
qed

lemma next_seq:
  assumes "ring_ok d wid"
  shows "(case max_seq d wid of None \<Rightarrow> 0 | Some m \<Rightarrow> m) + 1 = high_water d wid + 1"
proof -
  have "0 \<le> ring_count d wid" by (simp add: ring_count_def)
  moreover have "cut_of d wid = 0 \<and> high_water d wid = 0" if "ring_count d wid = 0"
    using that ring_okD(1,5) [OF assms] by (fastforce simp: ring_count_def high_water_def)
  ultimately show ?thesis
    using max_seq_window [OF ring_okD(3) [OF assms]] by (auto simp: high_water_def)
qed

section \<open>Windows of consecutive numbers\<close>

lemma window_Cons:
  "map f (x # xs) = [a + 1 .. a + int (length (x # xs))] \<longleftrightarrow>
   f x = a + 1 \<and> map f xs = [a + 1 + 1 .. a + 1 + int (length xs)]"
proof -
  have "[a + 1 .. a + int (length (x # xs))] = (a + 1) # [a + 1 + 1 .. a + 1 + int (length xs)]"
    by (subst upto_rec1) (simp_all add: add.assoc)
  then show ?thesis by simp
qed

lemma window_filter_gt:
  assumes "map f xs = [a + 1 .. a + int (length xs)]"
  shows "filter (\<lambda>r. a + int k < f r) xs = drop k xs"
  using assms
proof (induction xs arbitrary: a k)
  case (Cons x xs)
  then have w: "f x = a + 1" "map f xs = [a + 1 + 1 .. a + 1 + int (length xs)]"
    by (simp_all only: window_Cons)
  show ?case
  proof (cases k)
    case 0
    have "a < f r" if "r \<in> set (x # xs)" for r
    proof -
      have "f r \<in> set (map f (x # xs))" using that by auto
      then show ?thesis unfolding Cons.prems by simp
    qed
    then show ?thesis using 0 by (simp add: filter_True)
  next
    case (Suc j)
    then show ?thesis using Cons.IH [OF w(2), of j] w by (simp add: algebra_simps)
  qed
qed simp

lemma window_filter_last:
  assumes "map f xs = [a + 1 .. a + int (length xs)]"
  shows "filter (\<lambda>r. f r < a + int (length xs)) xs = butlast xs"
  using assms
proof (induction xs arbitrary: a)
  case (Cons x xs)
  then have w: "f x = a + 1" "map f xs = [a + 1 + 1 .. a + 1 + int (length xs)]"
    by (simp_all only: window_Cons)
  show ?case using Cons.IH [OF w(2)] w by (cases xs) (simp_all add: algebra_simps)
qed simp

lemma window_sorted:
  assumes "map f xs = [a .. b::int]"
  shows "sort_key f xs = xs" "sort_key f (drop k xs) = drop k xs" "sort_key f (butlast xs) = butlast xs"
proof -
  have s: "sorted (map f xs)" using assms by simp
  show "sort_key f xs = xs" using s by (rule sort_key_sorted)
  show "sort_key f (drop k xs) = drop k xs"
    by (rule sort_key_sorted) (simp add: s sorted_wrt_drop drop_map [symmetric])
  show "sort_key f (butlast xs) = butlast xs"
    by (rule sort_key_sorted)
       (metis s butlast_conv_take sorted_wrt_take take_map)
qed

lemma window_append:
  "map f xs = [a + 1 .. a + int (length xs)] \<Longrightarrow> f x = a + int (length xs) + 1 \<Longrightarrow>
   map f (xs @ [x]) = [a + 1 .. a + int (length (xs @ [x]))]"
  by (simp add: upto_rec2 algebra_simps)

lemma window_drop:
  assumes "map f xs = [a + 1 .. a + int (length xs)]" "k \<le> length xs"
  shows "map f (drop k xs) = [a + int k + 1 .. a + int (length xs)]"
  using assms
proof (induction xs arbitrary: a k)
  case (Cons x xs)
  then have w: "map f xs = [a + 1 + 1 .. a + 1 + int (length xs)]"
    by (simp_all only: window_Cons)
  show ?case
  proof (cases k)
    case 0
    then show ?thesis using Cons.prems by simp
  next
    case (Suc j)
    then show ?thesis using Cons.IH [OF w, of j] Cons.prems by (simp add: algebra_simps)
  qed
qed simp

lemma map_pair_zip: "map (\<lambda>r. (f r, g r)) xs = zip (map f xs) (map g xs)"
  by (induction xs) auto

section \<open>Trimming\<close>

text \<open>Everything but the events and the truncation marks.\<close>

definition same_rest :: "database \<Rightarrow> database \<Rightarrow> bool" where
  "same_rest d d' \<longleftrightarrow> migrations_log d' = migrations_log d \<and> schema d' = schema d \<and>
     t_workflows d' = t_workflows d \<and> t_bindings d' = t_bindings d \<and> t_requests d' = t_requests d"

text \<open>\<open>d'\<close> is \<open>d\<close> after the \<open>k\<close> oldest events of \<open>wid\<close> were dropped and the cut recorded.\<close>

definition ring_trimmed :: "database \<Rightarrow> string \<Rightarrow> nat \<Rightarrow> database \<Rightarrow> bool" where
  "ring_trimmed d wid k d' \<longleftrightarrow>
     events_of d' wid = drop k (events_of d wid) \<and>
     cut_of d' wid = cut_of d wid + int k \<and> dropped_of d' wid = dropped_of d wid + int k \<and>
     (\<forall>v. v \<noteq> wid \<longrightarrow> events_of d' v = events_of d v \<and> find_truncation d' v = find_truncation d v) \<and>
     set (t_events d') \<subseteq> set (t_events d) \<and> t_outbox d' = t_outbox d \<and> same_rest d d'"

lemma ring_trimmed_0 [simp]: "ring_trimmed d wid 0 d"
  by (simp add: ring_trimmed_def same_rest_def)

lemma events_of_delete:
  assumes "delete_events wid cutoff d = Inr (n, d1)"
  shows "events_of d1 wid = filter (\<lambda>r. cutoff < er_seq_no r) (events_of d wid)"
    "v \<noteq> wid \<Longrightarrow> events_of d1 v = events_of d v"
    "n = int (length (events_of d wid)) - int (length (events_of d1 wid))"
proof -
  have d1: "d1 = d\<lparr>t_events := filter (\<lambda>r. \<not> (er_workflow_id r = wid \<and> er_seq_no r \<le> cutoff)) (t_events d)\<rparr>"
    and n: "n = int (length (filter (\<lambda>r. er_workflow_id r = wid \<and> er_seq_no r \<le> cutoff) (t_events d)))"
    using assms by (simp_all add: delete_events_def Let_def)
  show e: "events_of d1 wid = filter (\<lambda>r. cutoff < er_seq_no r) (events_of d wid)"
    unfolding d1 events_of_def by (auto intro: filter_cong)
  show "v \<noteq> wid \<Longrightarrow> events_of d1 v = events_of d v"
    unfolding d1 events_of_def by (auto intro: filter_cong)
  have "length (events_of d wid) = length (filter (\<lambda>r. cutoff < er_seq_no r) (events_of d wid))
          + length (filter (\<lambda>r. \<not> cutoff < er_seq_no r) (events_of d wid))"
    by (rule sum_length_filter_compl [symmetric])
  moreover have "filter (\<lambda>r. \<not> cutoff < er_seq_no r) (events_of d wid)
      = filter (\<lambda>r. er_workflow_id r = wid \<and> er_seq_no r \<le> cutoff) (t_events d)"
    unfolding events_of_def by (auto intro: filter_cong)
  ultimately show "n = int (length (events_of d wid)) - int (length (events_of d1 wid))"
    unfolding n e by simp
qed

lemma find_truncation_upsert:
  assumes "upsert_truncation wid cutoff n now d = Inr ((), d')"
  shows "find_truncation d' wid = Some (case find_truncation d wid of
       None \<Rightarrow> \<lparr>rt_workflow_id = wid, rt_truncated_before_seq = cutoff, rt_dropped_count = n, rt_at_millis = now\<rparr>
     | Some r \<Rightarrow> r\<lparr>rt_truncated_before_seq := max (rt_truncated_before_seq r) cutoff,
                    rt_dropped_count := rt_dropped_count r + n, rt_at_millis := now\<rparr>)"
    "v \<noteq> wid \<Longrightarrow> find_truncation d' v = find_truncation d v"
    "d' = d\<lparr>t_truncations := t_truncations d'\<rparr>"
proof -
  let ?upd = "\<lambda>r. if rt_workflow_id r = wid
     then r\<lparr>rt_truncated_before_seq := max (rt_truncated_before_seq r) cutoff,
            rt_dropped_count := rt_dropped_count r + n, rt_at_millis := now\<rparr> else r"
  have k: "(rt_workflow_id (?upd r) = v) = (rt_workflow_id r = v)" for r v by simp
  have f: "find (\<lambda>r. rt_workflow_id r = v) (map ?upd xs) =
      map_option ?upd (find (\<lambda>r. rt_workflow_id r = v) xs)" for v xs
    by (rule find_map_same) (rule k)
  have d': "d' = (if find_truncation d wid = None
        then d\<lparr>t_truncations := t_truncations d @
               [\<lparr>rt_workflow_id = wid, rt_truncated_before_seq = cutoff, rt_dropped_count = n, rt_at_millis = now\<rparr>]\<rparr>
        else d\<lparr>t_truncations := map ?upd (t_truncations d)\<rparr>)"
    using assms by (simp add: upsert_truncation_def)
  show "find_truncation d' wid = Some (case find_truncation d wid of
       None \<Rightarrow> \<lparr>rt_workflow_id = wid, rt_truncated_before_seq = cutoff, rt_dropped_count = n, rt_at_millis = now\<rparr>
     | Some r \<Rightarrow> r\<lparr>rt_truncated_before_seq := max (rt_truncated_before_seq r) cutoff,
                    rt_dropped_count := rt_dropped_count r + n, rt_at_millis := now\<rparr>)"
    unfolding d' by (auto simp: find_truncation_def f dest: find_SomeD split: option.splits)
  show "v \<noteq> wid \<Longrightarrow> find_truncation d' v = find_truncation d v"
    unfolding d' by (auto simp: find_truncation_def f map_option_case dest: find_SomeD split: option.splits)
  show "d' = d\<lparr>t_truncations := t_truncations d'\<rparr>"
    unfolding d' by simp
qed

definition excess_drop :: "database \<Rightarrow> string \<Rightarrow> nat" where
  "excess_drop d wid = trim_count (max (ring_count d wid - MAX_RING_EVENTS) 0)
     (max (ring_bytes d wid - MAX_RING_BYTES) 0) (map er_approx_bytes (butlast (events_of d wid)))"

lemma delete_upsert_trimmed:
  assumes del: "delete_events wid (cut_of d wid + int k) d = Inr (n, d1)"
    and ups: "upsert_truncation wid (cut_of d wid + int k) n now d1 = Inr ((), d')"
    and win: "map er_seq_no (events_of d wid) = [cut_of d wid + 1 .. cut_of d wid + int (length (events_of d wid))]"
    and k: "k \<le> length (events_of d wid)"
  shows "ring_trimmed d wid k d'"
proof -
  have e1: "events_of d1 wid = drop k (events_of d wid)"
    using events_of_delete(1) [OF del] window_filter_gt [OF win] by simp
  have n: "n = int k" using events_of_delete(3) [OF del] k by (simp add: e1)
  have d1: "t_truncations d1 = t_truncations d" "t_outbox d1 = t_outbox d" "same_rest d d1"
    "set (t_events d1) \<subseteq> set (t_events d)"
    using del by (auto simp: delete_events_def Let_def same_rest_def)
  have e': "events_of d' v = events_of d1 v" "t_events d' = t_events d1" "t_outbox d' = t_outbox d1"
    "same_rest d1 d'" for v
    by (subst find_truncation_upsert(3) [OF ups]; simp add: events_of_def same_rest_def)+
  have f1: "find_truncation d1 v = find_truncation d v" for v
    using d1(1) by (simp add: find_truncation_def)
  have "cut_of d' wid = cut_of d wid + int k \<and> dropped_of d' wid = dropped_of d wid + int k"
    using find_truncation_upsert(1) [OF ups] n
    by (auto simp: cut_of_def dropped_of_def f1 split: option.splits)
  then show ?thesis
    using e1 e' d1 f1 events_of_delete(2) [OF del] find_truncation_upsert(2) [OF ups]
    by (auto simp: ring_trimmed_def same_rest_def)
qed

lemma cut_ring_ok:
  assumes run: "cut_ring wid (if k = 0 then None else Some (cut_of d wid + int k)) w = (Inr u, w')"
    and d: "db w = d"
    and win: "map er_seq_no (events_of d wid) = [cut_of d wid + 1 .. cut_of d wid + int (length (events_of d wid))]"
    and k: "k \<le> length (events_of d wid)"
  shows "ring_trimmed d wid k (db w')"
proof (cases "k = 0")
  case True
  then show ?thesis using run d by (auto simp: cut_ring_def ret_def)
next
  case False
  then obtain n d1 now where "delete_events wid (cut_of d wid + int k) d = Inr (n, d1)"
    "upsert_truncation wid (cut_of d wid + int k) n now d1 = Inr ((), db w')"
    using run d by (auto simp: cut_ring_def elim!: andthen_okE stmt_okE now_okE)
  then show ?thesis by (rule delete_upsert_trimmed) (fact win k)+
qed

lemma window_walk:
  assumes win: "map er_seq_no es = [c + 1 .. c + int (length es)]" and ne: "es \<noteq> []"
    and k: "k = trim_count ee eb (map er_approx_bytes (butlast es))"
  shows "trim_walk ee eb None (map (\<lambda>r. (er_seq_no r, er_approx_bytes r))
           (sort_key er_seq_no (filter (\<lambda>r. er_seq_no r < c + int (length es)) es)))
         = (if k = 0 then None else Some (c + int k))"
    and "k < length es"
proof -
  have rows: "map (\<lambda>r. (er_seq_no r, er_approx_bytes r))
        (sort_key er_seq_no (filter (\<lambda>r. er_seq_no r < c + int (length es)) es))
        = zip (map er_seq_no (butlast es)) (map er_approx_bytes (butlast es))"
    using window_filter_last [OF win] window_sorted(3) [OF win] by (simp add: map_pair_zip)
  have kle: "k \<le> length (butlast es)"
    unfolding k using trim_count_le by (metis length_map)
  then show "k < length es" using ne length_butlast [of es] length_greater_0_conv [of es] by linarith
  have nth: "map er_seq_no (butlast es) ! (k - 1) = c + int k" if "k \<noteq> 0"
  proof -
    have "k - 1 < length (butlast es)" using kle that by simp
    then have "map er_seq_no (butlast es) ! (k - 1) = map er_seq_no es ! (k - 1)"
      by (simp add: nth_butlast)
    also have "\<dots> = c + int k"
      unfolding win using that kle ne by (subst nth_upto) auto
    finally show ?thesis .
  qed
  have "trim_walk ee eb None (zip (map er_seq_no (butlast es)) (map er_approx_bytes (butlast es)))
      = (if k = 0 then None else Some (map er_seq_no (butlast es) ! (k - 1)))"
    unfolding k by (rule trim_walk_count) simp
  then show "trim_walk ee eb None (map (\<lambda>r. (er_seq_no r, er_approx_bytes r))
           (sort_key er_seq_no (filter (\<lambda>r. er_seq_no r < c + int (length es)) es)))
         = (if k = 0 then None else Some (c + int k))"
    unfolding rows using nth by simp
qed

lemma trim_ring_ok:
  assumes run: "trim_ring wid w = (Inr u, w')" and d: "db w = d"
    and win: "map er_seq_no (events_of d wid) = [cut_of d wid + 1 .. cut_of d wid + int (length (events_of d wid))]"
    and ne: "events_of d wid \<noteq> []"
  shows "ring_trimmed d wid (excess_drop d wid) (db w')"
proof (cases "max (ring_count d wid - MAX_RING_EVENTS) 0 = 0 \<and> max (ring_bytes d wid - MAX_RING_BYTES) 0 = 0")
  case True
  then have "excess_drop d wid = 0" by (simp add: excess_drop_def trim_count_0)
  moreover have "db w' = d"
    using run d True unfolding trim_ring_def by (auto elim!: andthen_okE query_okE ret_okE)
  ultimately show ?thesis by simp
next
  case False
  define ee eb where "ee = max (ring_count d wid - MAX_RING_EVENTS) 0"
    and "eb = max (ring_bytes d wid - MAX_RING_BYTES) 0"
  have max: "max_seq d wid = Some (cut_of d wid + int (length (events_of d wid)))"
    using max_seq_window [OF win] ne by simp
  have k: "excess_drop d wid = trim_count ee eb (map er_approx_bytes (butlast (events_of d wid)))"
    by (simp add: excess_drop_def ee_def eb_def)
  obtain w1 where w1: "db w1 = d" and "andthen (stmt (\<lambda>d. case max_seq d wid of
                  None \<Rightarrow> Inl QueryReturnedNoRows | Some m \<Rightarrow> Inr (m, d))) (\<lambda>newest.
       andthen (query (\<lambda>d. map (\<lambda>r. (er_seq_no r, er_approx_bytes r))
                  (sort_key er_seq_no (filter (\<lambda>r. er_seq_no r < newest) (events_of d wid))))) (\<lambda>rows.
       cut_ring wid (trim_walk ee eb None rows))) w1 = (Inr u, w')"
    using run d unfolding trim_ring_def ee_def eb_def
    by (elim andthen_okE query_okE) (simp add: Let_def if_not_P [OF False])
  then obtain w2 where "db w2 = d" and "cut_ring wid (trim_walk ee eb None (map (\<lambda>r. (er_seq_no r, er_approx_bytes r))
      (sort_key er_seq_no (filter (\<lambda>r. er_seq_no r < cut_of d wid + int (length (events_of d wid))) (events_of d wid))))) w2
      = (Inr u, w')"
    using max by (elim andthen_okE stmt_okE query_okE) (auto simp: w1)
  then have "db w2 = d" and "cut_ring wid (if excess_drop d wid = 0 then None
      else Some (cut_of d wid + int (excess_drop d wid))) w2 = (Inr u, w')"
    using window_walk(1) [OF win ne k] by simp_all
  then show ?thesis
    using window_walk(2) [OF win ne k] by (intro cut_ring_ok [OF _ _ win]) auto
qed

section \<open>Appending\<close>

text \<open>The file between the two inserts of an append and its trim.\<close>

definition with_event :: "EventDraft \<Rightarrow> int \<Rightarrow> int \<Rightarrow> database \<Rightarrow> database" where
  "with_event draft seq now d = d\<lparr>t_events := t_events d @ [draft_row draft seq],
     t_outbox := t_outbox d @ [\<lparr>ob_workflow_id = ed_workflow_id draft, ob_seq_no = seq,
       ob_enqueued_at_millis = now, ob_published_at_millis = None\<rparr>]\<rparr>"

lemma with_event_simps [simp]:
  "events_of (with_event draft seq now d) v =
     (if v = ed_workflow_id draft then events_of d v @ [draft_row draft seq] else events_of d v)"
  "map ob_seq_no (outbox_of (with_event draft seq now d) v) =
     (if v = ed_workflow_id draft then map ob_seq_no (outbox_of d v) @ [seq] else map ob_seq_no (outbox_of d v))"
  "find_truncation (with_event draft seq now d) v = find_truncation d v"
  "cut_of (with_event draft seq now d) v = cut_of d v"
  "dropped_of (with_event draft seq now d) v = dropped_of d v"
  "same_rest d (with_event draft seq now d)"
  "t_events (with_event draft seq now d) = t_events d @ [draft_row draft seq]"
  by (simp_all add: with_event_def events_of_def outbox_of_def find_truncation_def cut_of_def
        dropped_of_def same_rest_def draft_row_def)

lemma draft_row_simps [simp]:
  "er_workflow_id (draft_row draft seq) = ed_workflow_id draft"
  "er_seq_no (draft_row draft seq) = seq"
  "64 \<le> er_approx_bytes (draft_row draft seq)"
  by (simp_all add: draft_row_def approx_bytes_def opt_len_def split: option.split)

lemma ring_window:
  assumes "ring_ok d wid"
  shows "map er_seq_no (events_of d wid) = [cut_of d wid + 1 .. cut_of d wid + int (length (events_of d wid))]"
  using ring_okD(3) [OF assms] by (simp add: high_water_def ring_count_def)

lemma append_event_okE:
  assumes "append_event draft w = (Inr ev, w')"
  obtains w2 w3 where "schema (db w)" "find_workflow (db w) (ed_workflow_id draft) \<noteq> None"
    "append_body draft w2 = (Inr ev, w3)" "db w2 = db w" "db w' = db w3"
proof -
  obtain w1 where s: "schema (db w)" and w1: "db w1 = db w"
    and r: "(case find_workflow (db w) (ed_workflow_id draft) of
       None \<Rightarrow> fail (NotFound (''workflow '' @ ed_workflow_id draft))
     | Some _ \<Rightarrow> transaction Sqlite (append_body draft)) w1 = (Inr ev, w')"
    using assms unfolding append_event_def by (elim andthen_okE get_workflow_okE) blast
  then obtain f where f: "find_workflow (db w) (ed_workflow_id draft) = Some f"
    by (cases "find_workflow (db w) (ed_workflow_id draft)") (auto simp: fail_def)
  then have "transaction Sqlite (append_body draft) w1 = (Inr ev, w')" using r by simp
  then obtain w3 where "append_body draft (w1\<lparr>stmt_no := stmt_no w1 + 1\<rparr>) = (Inr ev, w3)" "db w' = db w3"
    by (rule transaction_okD)
  with s f w1 show ?thesis by (intro that [of "w1\<lparr>stmt_no := stmt_no w1 + 1\<rparr>" w3]) auto
qed

lemma insert_event_InrD: "insert_event r d = Inr (u, d') \<Longrightarrow> d' = d\<lparr>t_events := t_events d @ [r]\<rparr>"
  by (auto simp: insert_event_def split: if_splits)

lemma insert_outbox_InrD: "insert_outbox r d = Inr (u, d') \<Longrightarrow> d' = d\<lparr>t_outbox := t_outbox d @ [r]\<rparr>"
  by (auto simp: insert_outbox_def split: if_splits)

lemma append_body_okE:
  assumes run: "append_body draft w = (Inr ev, w')" and d: "db w = d"
    and ok: "ring_ok d (ed_workflow_id draft)"
  obtains now w1 where
    "db w1 = with_event draft (high_water d (ed_workflow_id draft) + 1) now d"
    "trim_ring (ed_workflow_id draft) w1 = (Inr (), w')"
    "ev = draft_event draft (high_water d (ed_workflow_id draft) + 1)"
proof -
  let ?seq = "high_water d (ed_workflow_id draft) + 1"
  obtain now d1 w1 where i: "insert_event (draft_row draft ?seq) d = Inr ((), d1)"
      "insert_outbox \<lparr>ob_workflow_id = ed_workflow_id draft, ob_seq_no = ?seq,
         ob_enqueued_at_millis = now, ob_published_at_millis = None\<rparr> d1 = Inr ((), db w1)"
    and t: "trim_ring (ed_workflow_id draft) w1 = (Inr (), w')" "ev = draft_event draft ?seq"
    using run unfolding append_body_def
    by (elim andthen_okE query_okE stmt_okE now_okE ret_okE) (simp add: d next_seq [OF ok])
  have "db w1 = with_event draft ?seq now d"
    using insert_event_InrD [OF i(1)] insert_outbox_InrD [OF i(2)] by (simp add: with_event_def)
  with t show ?thesis by (intro that)
qed

lemma append_event_ok:
  assumes run: "append_event draft w = (Inr ev, w')" and ok: "ring_ok (db w) (ed_workflow_id draft)"
  obtains now where "schema (db w)" "find_workflow (db w) (ed_workflow_id draft) \<noteq> None"
    "ev = draft_event draft (high_water (db w) (ed_workflow_id draft) + 1)"
    "ring_trimmed (with_event draft (high_water (db w) (ed_workflow_id draft) + 1) now (db w))
       (ed_workflow_id draft)
       (excess_drop (with_event draft (high_water (db w) (ed_workflow_id draft) + 1) now (db w)) (ed_workflow_id draft))
       (db w')"
proof -
  let ?v = "ed_workflow_id draft" and ?seq = "high_water (db w) (ed_workflow_id draft) + 1"
  obtain w2 w3 where a: "schema (db w)" "find_workflow (db w) ?v \<noteq> None"
    "append_body draft w2 = (Inr ev, w3)" "db w2 = db w" "db w' = db w3"
    using run by (rule append_event_okE)
  obtain now w1 where b: "db w1 = with_event draft ?seq now (db w)"
    "trim_ring ?v w1 = (Inr (), w3)" "ev = draft_event draft ?seq"
    using a(3,4) ok by (rule append_body_okE)
  let ?d = "with_event draft ?seq now (db w)"
  have "map er_seq_no (events_of ?d ?v) = [cut_of ?d ?v + 1 .. cut_of ?d ?v + int (length (events_of ?d ?v))]"
    using window_append [OF ring_window [OF ok], of "draft_row draft ?seq"]
    by (simp add: high_water_def ring_count_def)
  then have "ring_trimmed ?d ?v (excess_drop ?d ?v) (db w3)"
    using b(1,2) by (intro trim_ring_ok) auto
  with a b(3) show ?thesis by (intro that [of now]) auto
qed

text \<open>An append that fails, at whatever statement, leaves the file as it was.\<close>

lemma append_event_error:
  assumes "append_event draft w = (Inl e, w')"
  shows "db w' = db w"
proof -
  obtain r w1 where g: "get_workflow (ed_workflow_id draft) w = (r, w1)" by fastforce
  have "db w1 = db w"
    using g by (auto simp: get_workflow_def query_def stmt_def map_err_def sql_def Let_def
        split: prod.splits sum.splits if_splits)
  moreover have "db w' = db w1"
    using assms g transaction_error_rolls_back [of Sqlite "append_body draft" w1 e w']
    by (cases r) (auto simp: append_event_def andthen_def fail_def split: option.splits)
  ultimately show ?thesis by simp
qed

section \<open>What the trim guarantees\<close>

lemma sum_list_take_drop: "sum_list (map f (drop k xs)) = sum_list (map f xs) - sum_list (map f (take k xs) :: int list)"
proof -
  have "sum_list (map f xs) = sum_list (map f (take k xs @ drop k xs))" by simp
  then show ?thesis by (simp only: map_append sum_list_append)
qed

lemma excess_drop_bounds:
  assumes ne: "events_of d wid \<noteq> []"
  shows "excess_drop d wid < length (events_of d wid)"
    and "excess_drop d wid < length (events_of d wid) - 1 \<Longrightarrow>
         ring_count d wid - int (excess_drop d wid) \<le> MAX_RING_EVENTS \<and>
         sum_list (map er_approx_bytes (drop (excess_drop d wid) (events_of d wid))) \<le> MAX_RING_BYTES"
    and "j < excess_drop d wid \<Longrightarrow> \<forall>r\<in>set (events_of d wid). 0 \<le> er_approx_bytes r \<Longrightarrow>
         MAX_RING_EVENTS < ring_count d wid - int j \<or>
         MAX_RING_BYTES < sum_list (map er_approx_bytes (drop j (events_of d wid)))"
proof -
  define ee eb bs where "ee = max (ring_count d wid - MAX_RING_EVENTS) 0"
    and "eb = max (ring_bytes d wid - MAX_RING_BYTES) 0"
    and "bs = map er_approx_bytes (butlast (events_of d wid))"
  have k: "excess_drop d wid = trim_count ee eb bs"
    by (simp add: excess_drop_def ee_def eb_def bs_def)
  have len: "length bs = length (events_of d wid) - 1" "0 < length (events_of d wid)"
    using ne by (simp_all add: bs_def)
  have tk: "sum_list (map er_approx_bytes (drop j (events_of d wid))) = ring_bytes d wid - sum_list (take j bs)"
    if "j \<le> length bs" for j
  proof -
    have "take j bs = map er_approx_bytes (take j (events_of d wid))"
      using that len by (simp add: bs_def take_map [symmetric] butlast_conv_take min_def)
    then show ?thesis by (simp add: sum_list_take_drop ring_bytes_def)
  qed
  show "excess_drop d wid < length (events_of d wid)"
    using trim_count_le [of ee eb bs] len unfolding k by linarith
  show "ring_count d wid - int (excess_drop d wid) \<le> MAX_RING_EVENTS \<and>
         sum_list (map er_approx_bytes (drop (excess_drop d wid) (events_of d wid))) \<le> MAX_RING_BYTES"
    if "excess_drop d wid < length (events_of d wid) - 1"
    using that trim_count_enough [of ee eb bs] tk [of "excess_drop d wid"] len
    by (auto simp: k ee_def eb_def)
  show "MAX_RING_EVENTS < ring_count d wid - int j \<or>
         MAX_RING_BYTES < sum_list (map er_approx_bytes (drop j (events_of d wid)))"
    if "j < excess_drop d wid" and pos: "\<forall>r\<in>set (events_of d wid). 0 \<le> er_approx_bytes r"
  proof -
    have "0 \<le> sum_list (take j bs)"
      by (rule sum_list_nonneg) (use pos in \<open>auto simp: bs_def dest!: in_set_takeD in_set_butlastD\<close>)
    then show ?thesis
      using that(1) trim_count_minimal [of j ee eb bs] trim_count_le [of ee eb bs] tk [of j]
      by (auto simp: k ee_def eb_def)
  qed
qed

lemma ring_trimmed_ok:
  assumes trim: "ring_trimmed (with_event draft (high_water d v + 1) now d) v
      (excess_drop (with_event draft (high_water d v + 1) now d) v) d'"
    and v: "v = ed_workflow_id draft" and ok: "ring_ok d v"
  shows "ring_ok d' v" "high_water d' v = high_water d v + 1"
proof -
  let ?m = "with_event draft (high_water d v + 1) now d"
  define k where "k = excess_drop ?m v"
  have es: "events_of ?m v = events_of d v @ [draft_row draft (high_water d v + 1)]" by (simp add: v)
  then have ne: "events_of ?m v \<noteq> []" by simp
  note t = trim [unfolded ring_trimmed_def k_def [symmetric]]
  note ex = excess_drop_bounds [OF ne, folded k_def]
  have len: "length (events_of ?m v) = Suc (length (events_of d v))" unfolding es by simp
  have ev': "events_of d' v = drop k (events_of ?m v)" and cut': "cut_of d' v = cut_of d v + int k"
    and dr': "dropped_of d' v = cut_of d v + int k" and ob': "t_outbox d' = t_outbox ?m"
    using t ring_okD(2) [OF ok] by simp_all
  have cnt': "ring_count d' v = ring_count d v + 1 - int k"
    using ex(1) len by (simp add: ring_count_def ev')
  then show hw: "high_water d' v = high_water d v + 1"
    by (simp add: high_water_def cut')
  have "map er_seq_no (events_of ?m v) = [cut_of d v + 1 .. cut_of d v + int (length (events_of ?m v))]"
    unfolding es by (rule window_append [OF ring_window [OF ok]]) (simp add: high_water_def ring_count_def)
  then have win: "map er_seq_no (events_of d' v) = [cut_of d' v + 1 .. high_water d' v]"
    unfolding ev' using window_drop [of er_seq_no "events_of ?m v" "cut_of d v" k] ex(1)
    by (simp add: len cut' hw v [symmetric]) (simp add: high_water_def ring_count_def algebra_simps)
  have hw0: "0 \<le> high_water d v" using ring_okD(1) [OF ok] by (simp add: high_water_def ring_count_def)
  have ob: "map ob_seq_no (outbox_of d' v) = [1 .. high_water d' v]"
  proof -
    have "map ob_seq_no (outbox_of d' v) = map ob_seq_no (outbox_of ?m v)"
      using ob' by (simp add: outbox_of_def)
    also have "\<dots> = [1 .. high_water d v] @ [high_water d v + 1]"
      using ring_okD(4) [OF ok] by (simp add: v)
    also have "\<dots> = [1 .. high_water d' v]" using hw0 by (simp add: hw upto_rec2)
    finally show ?thesis .
  qed
  have bound: "ring_count d' v \<le> MAX_RING_EVENTS \<and> (ring_bytes d' v \<le> MAX_RING_BYTES \<or> ring_count d' v = 1)"
  proof (cases "k < length (events_of ?m v) - 1")
    case True
    then show ?thesis using ex(2) by (simp add: ring_count_def ring_bytes_def ev' of_nat_diff len)
  next
    case False
    then have "k = length (events_of d v)" using ex(1) len by simp
    then have "ring_count d' v = 1" using cnt' by (simp add: ring_count_def)
    then show ?thesis by (simp add: MAX_RING_EVENTS_def)
  qed
  have "\<forall>r\<in>set (events_of d' v). 64 \<le> er_approx_bytes r"
    using ring_okD(8) [OF ok] by (auto simp: ev' es dest!: in_set_dropD)
  moreover have "events_of d' v \<noteq> []" using ex(1) by (simp add: ev')
  ultimately show "ring_ok d' v"
    using win ob bound ring_okD(1) [OF ok] by (simp add: ring_ok_def cut' dr')
qed

end
