(* ===== verification/Storage_Steps.thy ===== *)
theory Storage_Steps
  imports Storage_Ring
begin

text \<open>
  The storage engine as a state machine: one rule per public method of \<open>Storage\<close> that writes,
  under every fault schedule and clock. The well-formedness of the file (keys, checks, foreign
  keys, the ring of every workflow) is an invariant, and along every run the file only moves
  forward: finished workflows, resolved requests and published outbox rows never change again,
  sequence numbers are never reused, and events that survive a trim are the ones written.
\<close>

section \<open>Steps\<close>

inductive storage_step :: "database \<Rightarrow> database \<Rightarrow> bool" where
  step_migrate: "migrate w = (r, w') \<Longrightarrow> storage_step (db w) (db w')"
| step_create: "create_workflow wid p title s w = (r, w') \<Longrightarrow> storage_step (db w) (db w')"
| step_state: "set_workflow_state wid st w = (r, w') \<Longrightarrow> storage_step (db w) (db w')"
| step_append: "append_event draft w = (r, w') \<Longrightarrow> storage_step (db w) (db w')"
| step_publish: "outbox_mark_published entries w = (r, w') \<Longrightarrow> storage_step (db w) (db w')"
| step_bind: "upsert_session_binding wid s p w = (r, w') \<Longrightarrow> storage_step (db w) (db w')"
| step_request: "create_pending_request rid wid k x w = (r, w') \<Longrightarrow> storage_step (db w) (db w')"
| step_resolve: "resolve_pending_request rid payload w = (r, w') \<Longrightarrow> storage_step (db w) (db w')"
| step_expire: "expire_pending_requests w = (r, w') \<Longrightarrow> storage_step (db w) (db w')"

section \<open>The invariant\<close>

definition valid_state :: "int \<Rightarrow> bool" where
  "valid_state v \<longleftrightarrow> (case WorkflowState_from_i32 v of None \<Rightarrow> False | Some s \<Rightarrow> is_persistable s)"

definition wf_workflows :: "database \<Rightarrow> bool" where
  "wf_workflows d \<longleftrightarrow> distinct (map wr_workflow_id (t_workflows d)) \<and>
     (\<forall>r\<in>set (t_workflows d). valid_state (wr_state r) \<and> Provider_from_i32 (wr_provider r) \<noteq> None)"

definition wf_rings :: "database \<Rightarrow> bool" where
  "wf_rings d \<longleftrightarrow> (\<forall>wid. ring_ok d wid) \<and>
     (\<forall>r\<in>set (t_events d). find_workflow d (er_workflow_id r) \<noteq> None \<and>
        EventType_from_i32 (er_type r) \<noteq> None)"

definition wf_bindings :: "database \<Rightarrow> bool" where
  "wf_bindings d \<longleftrightarrow> distinct (map sb_workflow_id (t_bindings d)) \<and>
     (\<forall>r\<in>set (t_bindings d). find_workflow d (sb_workflow_id r) \<noteq> None)"

definition wf_request :: "database \<Rightarrow> request_row \<Rightarrow> bool" where
  "wf_request d r \<longleftrightarrow> find_workflow d (pr_workflow_id r) \<noteq> None \<and>
     RequestKind_from_i32 (pr_kind r) \<noteq> None \<and> pr_state r \<in> {1, 2, 3} \<and>
     (pr_resolve_payload r \<noteq> None \<longleftrightarrow> pr_state r = 2) \<and>
     (pr_resolved_at_millis r \<noteq> None \<longleftrightarrow> pr_state r = 2)"

definition wf_requests :: "database \<Rightarrow> bool" where
  "wf_requests d \<longleftrightarrow> distinct (map pr_request_id (t_requests d)) \<and>
     (\<forall>r\<in>set (t_requests d). wf_request d r)"

definition wf_db :: "database \<Rightarrow> bool" where
  "wf_db d \<longleftrightarrow> wf_workflows d \<and> wf_rings d \<and> wf_bindings d \<and> wf_requests d"

section \<open>What only moves forward\<close>

definition workflow_le :: "WorkflowRow \<Rightarrow> WorkflowRow \<Rightarrow> bool" where
  "workflow_le r r' \<longleftrightarrow> wr_workflow_id r' = wr_workflow_id r \<and> wr_provider r' = wr_provider r \<and>
     wr_title r' = wr_title r \<and> wr_provider_session_id r' = wr_provider_session_id r \<and>
     wr_created_at_millis r' = wr_created_at_millis r \<and>
     (wr_state r \<in> set TERMINAL_STATES \<longrightarrow> r' = r)"

definition request_le :: "request_row \<Rightarrow> request_row \<Rightarrow> bool" where
  "request_le r r' \<longleftrightarrow> pr_request_id r' = pr_request_id r \<and> pr_workflow_id r' = pr_workflow_id r \<and>
     pr_kind r' = pr_kind r \<and> pr_created_at_millis r' = pr_created_at_millis r \<and>
     pr_expires_at_millis r' = pr_expires_at_millis r \<and> (pr_state r \<noteq> 1 \<longrightarrow> r' = r)"

definition outbox_le :: "outbox_row \<Rightarrow> outbox_row \<Rightarrow> bool" where
  "outbox_le r r' \<longleftrightarrow> ob_workflow_id r' = ob_workflow_id r \<and> ob_seq_no r' = ob_seq_no r \<and>
     ob_enqueued_at_millis r' = ob_enqueued_at_millis r \<and> (ob_published_at_millis r \<noteq> None \<longrightarrow> r' = r)"

text \<open>
  The ring of a workflow: the cut and the high-water mark only rise, and of the events numbered
  up to the old high-water mark exactly those above the new cut are left, unchanged.
\<close>

definition ring_le :: "database \<Rightarrow> database \<Rightarrow> string \<Rightarrow> bool" where
  "ring_le d d' wid \<longleftrightarrow> cut_of d wid \<le> cut_of d' wid \<and> high_water d wid \<le> high_water d' wid \<and>
     filter (\<lambda>r. er_seq_no r \<le> high_water d wid) (events_of d' wid) =
     filter (\<lambda>r. cut_of d' wid < er_seq_no r \<and> er_seq_no r \<le> high_water d wid) (events_of d wid)"

definition db_le :: "database \<Rightarrow> database \<Rightarrow> bool" where
  "db_le d d' \<longleftrightarrow> grows workflow_le (t_workflows d) (t_workflows d') \<and>
     grows request_le (t_requests d) (t_requests d') \<and>
     grows outbox_le (t_outbox d) (t_outbox d') \<and> (\<forall>wid. ring_le d d' wid)"

definition safe :: "database \<Rightarrow> database \<Rightarrow> bool" where
  "safe d d' \<longleftrightarrow> (wf_db d \<longrightarrow> wf_db d' \<and> db_le d d')"

lemma workflow_le_refl [simp]: "workflow_le r r"
  and request_le_refl [simp]: "request_le q q"
  and outbox_le_refl [simp]: "outbox_le b b"
  by (simp_all add: workflow_le_def request_le_def outbox_le_def)

lemma workflow_le_trans: "workflow_le r s \<Longrightarrow> workflow_le s t \<Longrightarrow> workflow_le r t"
  by (auto simp: workflow_le_def)

lemma request_le_trans: "request_le r s \<Longrightarrow> request_le s t \<Longrightarrow> request_le r t"
  by (auto simp: request_le_def)

lemma outbox_le_trans: "outbox_le r s \<Longrightarrow> outbox_le s t \<Longrightarrow> outbox_le r t"
  by (auto simp: outbox_le_def)

lemma ring_le_refl [simp]: "wf_db d \<Longrightarrow> ring_le d d wid"
proof -
  assume "wf_db d"
  then have "ring_ok d wid" by (simp add: wf_db_def wf_rings_def)
  then have "map er_seq_no (events_of d wid) = [cut_of d wid + 1 .. high_water d wid]" by (rule ring_okD(3))
  then have "cut_of d wid < er_seq_no r" if "r \<in> set (events_of d wid)" for r
  proof -
    have "er_seq_no r \<in> set (map er_seq_no (events_of d wid))" using that by simp
    then show ?thesis unfolding \<open>map er_seq_no (events_of d wid) = _\<close> by simp
  qed
  then show ?thesis by (auto simp: ring_le_def intro: filter_cong)
qed

lemma ring_le_trans:
  assumes "ring_le d d1 wid" "ring_le d1 d2 wid"
  shows "ring_le d d2 wid"
proof -
  have "filter (\<lambda>r. er_seq_no r \<le> high_water d wid) (events_of d2 wid)
      = filter (\<lambda>r. er_seq_no r \<le> high_water d wid)
          (filter (\<lambda>r. er_seq_no r \<le> high_water d1 wid) (events_of d2 wid))"
    using assms(1) by (auto simp: ring_le_def intro: filter_cong)
  also have "\<dots> = filter (\<lambda>r. cut_of d2 wid < er_seq_no r)
          (filter (\<lambda>r. er_seq_no r \<le> high_water d wid) (events_of d1 wid))"
  proof -
    have "high_water d wid \<le> high_water d1 wid" using assms(1) by (simp add: ring_le_def)
    then show ?thesis
      using assms(2) by (auto simp: ring_le_def filter_filter intro: filter_cong)
  qed
  also have "\<dots> = filter (\<lambda>r. cut_of d2 wid < er_seq_no r \<and> er_seq_no r \<le> high_water d wid) (events_of d wid)"
    using assms by (auto simp: ring_le_def intro: filter_cong)
  finally show ?thesis using assms by (auto simp: ring_le_def)
qed

lemma db_le_refl: "wf_db d \<Longrightarrow> db_le d d"
  by (simp add: db_le_def grows_refl)

lemma db_le_trans: "db_le d d1 \<Longrightarrow> db_le d1 d2 \<Longrightarrow> db_le d d2"
  unfolding db_le_def
  by (meson grows_trans workflow_le_trans request_le_trans outbox_le_trans ring_le_trans)

lemma reflp_safe [simp]: "reflp safe"
  by (rule reflpI) (simp add: safe_def db_le_refl)

lemma transp_safe [simp]: "transp safe"
  by (rule transpI) (auto simp: safe_def intro: db_le_trans)

section \<open>Frames\<close>

lemma find_workflow_grows:
  assumes "grows workflow_le (t_workflows d) (t_workflows d')" "find_workflow d wid = Some r"
  obtains r' where "find_workflow d' wid = Some r'" "workflow_le r r'"
  using grows_find [OF assms(1), of "\<lambda>r. wr_workflow_id r = wid" r] assms(2)
  by (auto simp: find_workflow_def workflow_le_def)

lemma find_workflow_kept:
  assumes "grows workflow_le (t_workflows d) (t_workflows d')" "find_workflow d wid \<noteq> None"
  shows "find_workflow d' wid \<noteq> None"
  using assms by (metis find_workflow_grows not_None_eq)

lemma ring_frame:
  assumes "t_events d' = t_events d" "t_truncations d' = t_truncations d"
  shows "events_of d' wid = events_of d wid" "cut_of d' wid = cut_of d wid"
    "dropped_of d' wid = dropped_of d wid" "high_water d' wid = high_water d wid"
    "ring_count d' wid = ring_count d wid" "ring_bytes d' wid = ring_bytes d wid"
  using assms by (simp_all add: events_of_def cut_of_def dropped_of_def high_water_def ring_count_def
        ring_bytes_def find_truncation_def)

lemma ring_le_frame:
  assumes "wf_db d" "t_events d' = t_events d" "t_truncations d' = t_truncations d"
  shows "ring_le d d' wid"
  using ring_le_refl [OF assms(1)] ring_frame [OF assms(2,3)] by (simp add: ring_le_def)

lemma outbox_seqs_frame:
  assumes "\<And>r. ob_workflow_id (f r) = ob_workflow_id r" "\<And>r. ob_seq_no (f r) = ob_seq_no r"
    "t_outbox d' = map f (t_outbox d)"
  shows "map ob_seq_no (outbox_of d' wid) = map ob_seq_no (outbox_of d wid)"
  using assms by (simp add: outbox_of_def filter_map o_def)

lemma wf_rings_frame:
  assumes "wf_rings d" "t_events d' = t_events d" "t_truncations d' = t_truncations d"
    "\<And>wid. map ob_seq_no (outbox_of d' wid) = map ob_seq_no (outbox_of d wid)"
    "grows workflow_le (t_workflows d) (t_workflows d')"
  shows "wf_rings d'"
  using assms(1,4) ring_frame [OF assms(2,3)] find_workflow_kept [OF assms(5)]
  by (simp add: wf_rings_def ring_ok_def assms(2))

text \<open>One statement on the table of workflows, of requests, of the outbox or of bindings.\<close>

lemma safe_workflows:
  assumes "wf_db d" "grows workflow_le (t_workflows d) ws" "wf_workflows (d\<lparr>t_workflows := ws\<rparr>)"
  shows "safe d (d\<lparr>t_workflows := ws\<rparr>)"
proof -
  let ?d = "d\<lparr>t_workflows := ws\<rparr>"
  have g: "grows workflow_le (t_workflows d) (t_workflows ?d)" using assms(2) by simp
  note kept = find_workflow_kept [OF g]
  have "wf_rings ?d"
    using assms(1) by (intro wf_rings_frame [OF _ _ _ _ g]) (auto simp: wf_db_def outbox_of_def)
  moreover have "wf_bindings ?d" "wf_requests ?d"
    using assms(1) kept by (auto simp: wf_db_def wf_bindings_def wf_requests_def wf_request_def)
  moreover have "ring_le d ?d wid" for wid using assms(1) by (rule ring_le_frame) simp_all
  ultimately show ?thesis
    using assms(2,3) by (simp add: safe_def wf_db_def db_le_def grows_refl)
qed

lemma table_frames [frame_simps]:
  "find_workflow (d\<lparr>t_requests := rs\<rparr>) wid = find_workflow d wid"
  "find_workflow (d\<lparr>t_outbox := os\<rparr>) wid = find_workflow d wid"
  "find_workflow (d\<lparr>t_bindings := bs\<rparr>) wid = find_workflow d wid"
  "outbox_of (d\<lparr>t_requests := rs\<rparr>) wid = outbox_of d wid"
  "outbox_of (d\<lparr>t_bindings := bs\<rparr>) wid = outbox_of d wid"
  "ring_ok (d\<lparr>t_requests := rs\<rparr>) wid = ring_ok d wid"
  "ring_ok (d\<lparr>t_bindings := bs\<rparr>) wid = ring_ok d wid"
  by (simp_all add: find_workflow_def outbox_of_def ring_ok_def events_of_def cut_of_def dropped_of_def
        high_water_def ring_count_def ring_bytes_def find_truncation_def)

lemma wf_other_tables:
  "wf_workflows (d\<lparr>t_requests := rs\<rparr>) = wf_workflows d" "wf_workflows (d\<lparr>t_outbox := os\<rparr>) = wf_workflows d"
  "wf_workflows (d\<lparr>t_bindings := bs\<rparr>) = wf_workflows d"
  "wf_bindings (d\<lparr>t_requests := rs\<rparr>) = wf_bindings d" "wf_bindings (d\<lparr>t_outbox := os\<rparr>) = wf_bindings d"
  "wf_requests (d\<lparr>t_outbox := os\<rparr>) = wf_requests d" "wf_requests (d\<lparr>t_bindings := bs\<rparr>) = wf_requests d"
  "wf_rings (d\<lparr>t_requests := rs\<rparr>) = wf_rings d" "wf_rings (d\<lparr>t_bindings := bs\<rparr>) = wf_rings d"
  by (simp_all add: wf_workflows_def wf_bindings_def wf_requests_def wf_request_def wf_rings_def frame_simps)

lemma safe_requests:
  assumes "wf_db d" "grows request_le (t_requests d) rs" "wf_requests (d\<lparr>t_requests := rs\<rparr>)"
  shows "safe d (d\<lparr>t_requests := rs\<rparr>)"
proof -
  have "ring_le d (d\<lparr>t_requests := rs\<rparr>) wid" for wid using assms(1) by (rule ring_le_frame) simp_all
  then have "db_le d (d\<lparr>t_requests := rs\<rparr>)" using assms by (simp add: db_le_def grows_refl)
  moreover have "wf_db (d\<lparr>t_requests := rs\<rparr>)" using assms by (simp add: wf_db_def wf_other_tables)
  ultimately show ?thesis by (simp add: safe_def)
qed

lemma safe_bindings:
  assumes "wf_db d" "wf_bindings (d\<lparr>t_bindings := bs\<rparr>)"
  shows "safe d (d\<lparr>t_bindings := bs\<rparr>)"
proof -
  have "ring_le d (d\<lparr>t_bindings := bs\<rparr>) wid" for wid using assms(1) by (rule ring_le_frame) simp_all
  then have "db_le d (d\<lparr>t_bindings := bs\<rparr>)" using assms by (simp add: db_le_def grows_refl)
  moreover have "wf_db (d\<lparr>t_bindings := bs\<rparr>)" using assms by (simp add: wf_db_def wf_other_tables)
  ultimately show ?thesis by (simp add: safe_def)
qed

lemma safe_outbox_map:
  assumes "wf_db d" "\<And>r. outbox_le r (f r)"
  shows "safe d (d\<lparr>t_outbox := map f (t_outbox d)\<rparr>)"
proof -
  let ?d = "d\<lparr>t_outbox := map f (t_outbox d)\<rparr>"
  have f: "ob_workflow_id (f r) = ob_workflow_id r" "ob_seq_no (f r) = ob_seq_no r" for r
    using assms(2) [of r] unfolding outbox_le_def by blast+
  have "map ob_seq_no (outbox_of ?d wid) = map ob_seq_no (outbox_of d wid)" for wid
    by (rule outbox_seqs_frame [of f]) (simp_all add: f)
  moreover have "wf_rings d" using assms(1) by (simp add: wf_db_def)
  ultimately have "wf_rings ?d"
    by (intro wf_rings_frame [where d = d and d' = ?d]) (simp_all add: grows_refl)
  then have "wf_db ?d" using assms(1) by (simp add: wf_db_def wf_other_tables)
  moreover have "ring_le d ?d wid" for wid using assms(1) by (rule ring_le_frame) simp_all
  then have "db_le d ?d" by (simp add: db_le_def grows_refl grows_map assms(2))
  ultimately show ?thesis by (simp add: safe_def)
qed

section \<open>Every method is safe\<close>

lemma moves_stmt:
  assumes "reflp R" "\<And>d x d'. schema d \<Longrightarrow> f d = Inr (x, d') \<Longrightarrow> R d d'"
  shows "moves R (stmt f)"
  unfolding stmt_def using assms by (intro moves_map_err moves_sql) (auto split: if_splits)

lemma moves_query [moves_intros]: "reflp R \<Longrightarrow> moves R (query f)"
  unfolding query_def by (rule moves_stmt) (auto dest: reflpD)

lemma moves_get_workflow [moves_intros]: "reflp R \<Longrightarrow> moves R (get_workflow wid)"
  unfolding get_workflow_def by (rule moves_query)

lemma get_workflow_db: "get_workflow wid w = (r, w') \<Longrightarrow> db w' = db w"
  using movesD [OF moves_get_workflow [of "(=)"]] by (metis reflpI)

lemma safe_insert_workflow:
  assumes "insert_workflow r d = Inr (u, d')" "valid_state (wr_state r)" "Provider_from_i32 (wr_provider r) \<noteq> None"
  shows "safe d d'"
proof (cases "wf_db d")
  case True
  have d': "d' = d\<lparr>t_workflows := t_workflows d @ [r]\<rparr>" "find_workflow d (wr_workflow_id r) = None"
    using assms(1) by (auto simp: insert_workflow_def split: if_splits)
  have "wf_workflows d'"
    using True assms(2,3) d'(2) unfolding d'(1)
    by (auto simp: wf_db_def wf_workflows_def find_workflow_def find_None_iff_key)
  then show ?thesis
    unfolding d'(1) using True by (intro safe_workflows) (auto intro: grows_append)
qed (simp add: safe_def)

lemma Provider_decodes: "Provider_from_i32 (Provider_i32 p) \<noteq> None"
  by (cases p) (simp_all add: Provider_from_i32_def)

lemma EventType_decodes: "EventType_from_i32 (EventType_i32 t) = Some t"
  by (cases t) (simp_all add: EventType_from_i32_def)

lemma valid_state_i32: "valid_state (WorkflowState_i32 s) = is_persistable s"
  by (cases s) (simp_all add: valid_state_def WorkflowState_from_i32_def is_persistable_def)

lemma moves_create_workflow: "moves safe (create_workflow wid p title s)"
  unfolding create_workflow_def Let_def
  by (intro moves_intros moves_stmt)
     (auto intro!: safe_insert_workflow simp: Provider_decodes valid_state_i32 is_persistable_def
       simp del: WorkflowState_i32.simps)

text \<open>What a call of \<open>set_workflow_state\<close> can have done to the file.\<close>

lemma set_workflow_state_cases:
  assumes "set_workflow_state wid st w = (r, w')"
  obtains (same) "db w' = db w"
  | (changed) now row where "is_persistable st" "find_workflow (db w) wid = Some row"
      "wr_state row \<notin> set TERMINAL_STATES"
      "update_workflow_state wid (WorkflowState_i32 st) now (db w) = Inr ((), db w')"
proof (cases "is_persistable st")
  case False
  then show ?thesis using assms same by (auto simp: set_workflow_state_def fail_def)
next
  case persist: True
  obtain f w1 where g: "get_workflow wid w = (f, w1)" by fastforce
  have w1: "db w1 = db w" using g by (rule get_workflow_db)
  have found: "x = find_workflow (db w) wid" if "f = Inr x" for x
    using g that by (auto elim: get_workflow_okE)
  show ?thesis
  proof (cases "\<exists>row. f = Inr (Some row) \<and> wr_state row \<notin> set TERMINAL_STATES")
    case False
    then have "db w' = db w1"
      using assms g persist
      by (cases f) (auto simp: set_workflow_state_def andthen_def fail_def split: option.splits)
    then show ?thesis using w1 same by simp
  next
    case True
    then obtain row where row: "f = Inr (Some row)" "wr_state row \<notin> set TERMINAL_STATES" by blast
    obtain now w2 where n: "now_millis w1 = (Inr now :: StorageError + int, w2)" "db w2 = db w1"
      by (auto simp: now_millis_def Let_def)
    obtain u w3 where s: "stmt (update_workflow_state wid (WorkflowState_i32 st) now) w2 = (u, w3)" by fastforce
    have "db w' = db w3"
    proof (cases u)
      case (Inl e)
      then show ?thesis using assms g persist row n s by (simp add: set_workflow_state_def andthen_def)
    next
      case (Inr x)
      have "moves (=) (andthen (get_workflow wid) (\<lambda>again. case again of
                None \<Rightarrow> fail (NotFound (''workflow '' @ wid)) | Some row \<Rightarrow> ret row))"
        by (intro moves_intros) auto
      moreover have "andthen (get_workflow wid) (\<lambda>again. case again of
                None \<Rightarrow> fail (NotFound (''workflow '' @ wid)) | Some row \<Rightarrow> ret row) w3 = (r, w')"
        using assms g persist row n s Inr
        by (simp add: set_workflow_state_def andthen_def [of "get_workflow wid"] andthen_def [of now_millis]
             andthen_def [of "stmt f" for f] del: append.simps)
      ultimately show ?thesis using movesD by metis
    qed
    moreover have "db w3 = db w \<or> update_workflow_state wid (WorkflowState_i32 st) now (db w) = Inr ((), db w3)"
    proof (cases u)
      case (Inl e)
      then show ?thesis using s n w1
        by (auto simp: stmt_def map_err_def sql_def Let_def split: prod.splits sum.splits if_splits)
    next
      case (Inr x)
      then have "update_workflow_state wid (WorkflowState_i32 st) now (db w2) = Inr (x, db w3)"
        using s by (auto elim: stmt_okE)
      then show ?thesis using n w1 by simp
    qed
    ultimately show ?thesis using same changed persist row found by auto
  qed
qed

lemma safe_update_state:
  assumes "update_workflow_state wid (WorkflowState_i32 st) now d = Inr (u, d')" "is_persistable st"
    "find_workflow d wid = Some row" "wr_state row \<notin> set TERMINAL_STATES"
  shows "safe d d'"
proof (cases "wf_db d")
  case True
  let ?f = "\<lambda>r. if wr_workflow_id r = wid then r\<lparr>wr_state := WorkflowState_i32 st, wr_updated_at_millis := now\<rparr> else r"
  have d': "d' = d\<lparr>t_workflows := map ?f (t_workflows d)\<rparr>"
    using assms(1) by (auto simp: update_workflow_state_def split: if_splits)
  have dist: "distinct (map wr_workflow_id (t_workflows d))"
    using True by (simp add: wf_db_def wf_workflows_def)
  have "r = row" if "r \<in> set (t_workflows d)" "wr_workflow_id r = wid" for r
    using find_unique_key [OF dist that] assms(3) by (simp add: find_workflow_def)
  then have le: "workflow_le r (?f r)" if "r \<in> set (t_workflows d)" for r
    using that assms(4) by (auto simp: workflow_le_def)
  have "map wr_workflow_id (map ?f (t_workflows d)) = map wr_workflow_id (t_workflows d)" by simp
  then have "wf_workflows d'"
    using True dist assms(2) unfolding d'
    by (auto simp: wf_db_def wf_workflows_def valid_state_i32 simp del: map_map)
  then show ?thesis
    unfolding d' using True le by (intro safe_workflows grows_map)
qed (simp add: safe_def)

lemma moves_set_workflow_state: "moves safe (set_workflow_state wid st)"
  unfolding moves_def
proof
  fix w
  obtain r w' where s: "set_workflow_state wid st w = (r, w')" by fastforce
  then have "safe (db w) (db w')"
    by (cases rule: set_workflow_state_cases) (auto intro: safe_update_state reflpD [OF reflp_safe])
  then show "safe (db w) (db (snd (set_workflow_state wid st w)))" by (simp add: s)
qed

lemma safe_insert_request:
  assumes "insert_request r d = Inr (u, d')" "pr_state r = 1" "pr_resolved_at_millis r = None"
    "pr_resolve_payload r = None"
  shows "safe d d'"
proof (cases "wf_db d")
  case True
  have d': "d' = d\<lparr>t_requests := t_requests d @ [r]\<rparr>" "find_request d (pr_request_id r) = None"
    "find_workflow d (pr_workflow_id r) \<noteq> None" "pr_kind r \<in> {1, 2}"
    using assms(1) by (auto simp: insert_request_def split: if_splits)
  have "wf_request d r"
    using d'(3,4) assms(2-4) by (auto simp: wf_request_def RequestKind_from_i32_def)
  then have "wf_requests d'"
    using True d'(2) unfolding d'(1)
    by (auto simp: wf_db_def wf_requests_def wf_request_def frame_simps find_request_def find_None_iff_key)
  then show ?thesis
    unfolding d'(1) using True by (intro safe_requests) (auto intro: grows_append)
qed (simp add: safe_def)

lemma moves_create_pending_request: "moves safe (create_pending_request rid wid k x)"
  unfolding create_pending_request_def
  by (intro moves_intros moves_stmt) (auto intro: safe_insert_request)

lemma safe_requests_map:
  assumes "\<And>r. request_le r (f r)" "\<And>r. wf_request d r \<Longrightarrow> wf_request d (f r)"
  shows "safe d (d\<lparr>t_requests := map f (t_requests d)\<rparr>)"
proof (cases "wf_db d")
  case True
  have "pr_request_id (f r) = pr_request_id r" for r
    using assms(1) [of r] unfolding request_le_def by blast
  then have "map pr_request_id (map f (t_requests d)) = map pr_request_id (t_requests d)" by simp
  then have "wf_requests (d\<lparr>t_requests := map f (t_requests d)\<rparr>)"
    using True assms(2) by (auto simp: wf_db_def wf_requests_def wf_request_def frame_simps simp del: map_map)
  then show ?thesis using True by (intro safe_requests grows_map assms(1))
qed (simp add: safe_def)

lemma safe_expire_one: "expire_one rid now d = Inr (u, d') \<Longrightarrow> safe d d'"
  unfolding expire_one_def
  by (auto intro!: safe_requests_map simp: request_le_def overdue_def wf_request_def)

lemma safe_resolve_one: "resolve_one rid now payload d = Inr (u, d') \<Longrightarrow> safe d d'"
  unfolding resolve_one_def Let_def
  by (auto intro!: safe_requests_map simp: request_le_def wf_request_def)

lemma safe_expire_all: "expire_all now d = Inr (u, d') \<Longrightarrow> safe d d'"
  unfolding expire_all_def
  by (auto intro!: safe_requests_map simp: request_le_def overdue_def wf_request_def)

lemma moves_resolve_pending_request: "moves safe (resolve_pending_request rid payload)"
  unfolding resolve_pending_request_def
  by (intro moves_intros moves_stmt) (auto intro: safe_expire_one safe_resolve_one)

lemma moves_expire_pending_requests: "moves safe expire_pending_requests"
  unfolding expire_pending_requests_def
  by (intro moves_intros moves_stmt) (auto intro: safe_expire_all)

lemma safe_mark_one: "mark_one entry now d = Inr (u, d') \<Longrightarrow> safe d d'"
proof (cases "wf_db d")
  case True
  then show "mark_one entry now d = Inr (u, d') \<Longrightarrow> safe d d'"
    unfolding mark_one_def Let_def by (auto intro!: safe_outbox_map simp: outbox_le_def)
qed (simp add: safe_def)

lemma moves_mark_loop: "moves safe (mark_loop entries n)"
  by (induction entries arbitrary: n)
     (auto intro!: moves_intros moves_stmt dest: safe_mark_one)

lemma moves_outbox_mark_published: "moves safe (outbox_mark_published entries)"
  unfolding outbox_mark_published_def by (rule moves_mark_loop)

lemma safe_upsert_binding:
  assumes "upsert_binding wid s p now d = Inr (u, d')"
  shows "safe d d'"
proof (cases "wf_db d")
  case True
  let ?row = "\<lparr>sb_workflow_id = wid, sb_provider_session_id = s, sb_resume_pointer = p, sb_bound_at_millis = now\<rparr>"
  obtain bs where d': "d' = d\<lparr>t_bindings := bs\<rparr>" "find_workflow d wid \<noteq> None"
    and bs: "if find_binding d wid = None then bs = t_bindings d @ [?row]
             else bs = map (\<lambda>r. if sb_workflow_id r = wid then ?row else r) (t_bindings d)"
    using assms by (auto simp: upsert_binding_def Let_def split: if_splits)
  have "map sb_workflow_id (map (\<lambda>r. if sb_workflow_id r = wid then ?row else r) (t_bindings d))
      = map sb_workflow_id (t_bindings d)" by simp
  then have "wf_bindings d'"
    using True d'(2) bs unfolding d'(1)
    by (auto simp: wf_db_def wf_bindings_def frame_simps find_binding_def find_None_iff_key
          simp del: map_map split: if_splits)
  then show ?thesis using True unfolding d'(1) by (intro safe_bindings)
qed (simp add: safe_def)

lemma moves_upsert_session_binding: "moves safe (upsert_session_binding wid s p)"
  unfolding upsert_session_binding_def
  by (intro moves_intros moves_stmt) (auto intro: safe_upsert_binding)

text \<open>The append: the only method that writes to the ring.\<close>

lemma window_filter_le:
  assumes "map f xs = [a + 1 .. a + int (length xs)]"
  shows "filter (\<lambda>r. f r \<le> a + int (length xs)) xs = xs"
proof (rule filter_True, rule ballI)
  fix r assume "r \<in> set xs"
  then have "f r \<in> set (map f xs)" by simp
  then show "f r \<le> a + int (length xs)" unfolding assms by simp
qed

lemma append_safe:
  assumes "wf_db d" and v: "v = ed_workflow_id draft" and f: "find_workflow d v \<noteq> None"
    and trim: "ring_trimmed (with_event draft (high_water d v + 1) now d) v
      (excess_drop (with_event draft (high_water d v + 1) now d) v) d'"
  shows "wf_db d'" "db_le d d'"
proof -
  let ?m = "with_event draft (high_water d v + 1) now d"
  define k where "k = excess_drop ?m v"
  note t = trim [unfolded ring_trimmed_def k_def [symmetric]]
  have ok: "ring_ok d u" for u using assms(1) by (simp add: wf_db_def wf_rings_def)
  note ringv = ring_trimmed_ok [OF trim v ok]
  have same: "t_workflows d' = t_workflows d" "t_requests d' = t_requests d" "t_bindings d' = t_bindings d"
    using t by (simp_all add: same_rest_def with_event_def)
  have fw: "find_workflow d' u = find_workflow d u" for u using same(1) by (simp add: find_workflow_def)
  have ob: "t_outbox d' = t_outbox d @ [\<lparr>ob_workflow_id = v, ob_seq_no = high_water d v + 1,
       ob_enqueued_at_millis = now, ob_published_at_millis = None\<rparr>]"
    using t by (simp add: with_event_def v)
  have other: "events_of d' u = events_of d u" "find_truncation d' u = find_truncation d u"
    "outbox_of d' u = outbox_of d u" if "u \<noteq> v" for u
  proof -
    show "events_of d' u = events_of d u" "find_truncation d' u = find_truncation d u"
      using t that by (simp_all add: v)
    show "outbox_of d' u = outbox_of d u" unfolding outbox_of_def ob using that by simp
  qed
  have oku: "ring_ok d' u" for u
  proof (cases "u = v")
    case False
    then show ?thesis using ok [of u] other [OF False]
      by (simp add: ring_ok_def high_water_def cut_of_def dropped_of_def ring_count_def ring_bytes_def)
  qed (use ringv in simp)
  have "\<forall>r\<in>set (t_events d'). find_workflow d' (er_workflow_id r) \<noteq> None \<and> EventType_from_i32 (er_type r) \<noteq> None"
  proof
    fix r assume "r \<in> set (t_events d')"
    then have "r \<in> set (t_events d) \<or> r = draft_row draft (high_water d v + 1)" using t by auto
    then show "find_workflow d' (er_workflow_id r) \<noteq> None \<and> EventType_from_i32 (er_type r) \<noteq> None"
    proof
      assume "r \<in> set (t_events d)"
      then show ?thesis using assms(1) by (simp add: wf_db_def wf_rings_def fw)
    next
      assume "r = draft_row draft (high_water d v + 1)"
      then show ?thesis using f by (simp add: fw v draft_row_def EventType_decodes)
    qed
  qed
  then have "wf_rings d'" using oku by (simp add: wf_rings_def)
  then show "wf_db d'" using assms(1) same
    by (simp add: wf_db_def wf_workflows_def wf_bindings_def wf_requests_def wf_request_def fw)
  have "ring_le d d' u" for u
  proof (cases "u = v")
    case False
    then show ?thesis using ring_le_refl [OF assms(1), of u] other [OF False]
      by (simp add: ring_le_def high_water_def cut_of_def ring_count_def)
  next
    case True
    have w: "map er_seq_no (events_of d v) = [cut_of d v + 1 .. cut_of d v + int (length (events_of d v))]"
      using ok by (rule ring_window)
    have hw: "high_water d v = cut_of d v + int (length (events_of d v))"
      by (simp add: high_water_def ring_count_def)
    have cut: "cut_of d' v = cut_of d v + int k" using t by simp
    have kle: "k \<le> length (events_of d v)"
      using excess_drop_bounds(1) [of ?m v, folded k_def] by (simp add: v)
    have "events_of d' v = drop k (events_of d v) @ [draft_row draft (high_water d v + 1)]"
      using t kle by (simp add: v)
    moreover have "filter (\<lambda>r. er_seq_no r \<le> high_water d v) (drop k (events_of d v)) = drop k (events_of d v)"
      using window_filter_le [OF w] by (auto simp: hw filter_id_conv dest: in_set_dropD)
    moreover have "filter (\<lambda>r. cut_of d' v < er_seq_no r \<and> er_seq_no r \<le> high_water d v) (events_of d v)
        = drop k (events_of d v)"
    proof -
      have "filter (\<lambda>r. cut_of d' v < er_seq_no r \<and> er_seq_no r \<le> high_water d v) (events_of d v)
          = filter (\<lambda>r. cut_of d v + int k < er_seq_no r) (filter (\<lambda>r. er_seq_no r \<le> high_water d v) (events_of d v))"
        by (auto simp: cut filter_filter intro: filter_cong)
      then show ?thesis using window_filter_le [OF w] window_filter_gt [OF w, of k] by (simp add: hw)
    qed
    ultimately show ?thesis using True ringv(2) cut by (simp add: ring_le_def)
  qed
  then show "db_le d d'" using same by (simp add: db_le_def ob grows_refl grows_append)
qed

lemma moves_append_event: "moves safe (append_event draft)"
  unfolding moves_def
proof
  fix w
  obtain r w' where s: "append_event draft w = (r, w')" by fastforce
  have "safe (db w) (db w')"
  proof (cases r)
    case (Inl e)
    then have "db w' = db w" using s append_event_error by blast
    then show ?thesis using reflp_safe by (simp add: reflpD)
  next
    case (Inr ev)
    show ?thesis
      unfolding safe_def
    proof
      assume wf: "wf_db (db w)"
      then have "ring_ok (db w) (ed_workflow_id draft)" by (simp add: wf_db_def wf_rings_def)
      then obtain now where "find_workflow (db w) (ed_workflow_id draft) \<noteq> None"
        "ring_trimmed (with_event draft (high_water (db w) (ed_workflow_id draft) + 1) now (db w))
           (ed_workflow_id draft)
           (excess_drop (with_event draft (high_water (db w) (ed_workflow_id draft) + 1) now (db w)) (ed_workflow_id draft))
           (db w')"
        using append_event_ok [of draft w ev w'] s Inr by metis
      then show "wf_db (db w') \<and> db_le (db w) (db w')"
        using append_safe [OF wf refl] by metis
    qed
  qed
  then show "safe (db w) (db (snd (append_event draft w)))" by (simp add: s)
qed

text \<open>Migrations touch no row.\<close>

lemma safe_meta: "safe d (d\<lparr>migrations_log := l\<rparr>)" "safe d (d\<lparr>schema := b\<rparr>)"
proof -
  have "safe d d'" if "t_workflows d' = t_workflows d" "t_requests d' = t_requests d" "t_bindings d' = t_bindings d"
    "t_outbox d' = t_outbox d" "t_events d' = t_events d" "t_truncations d' = t_truncations d" for d'
    unfolding safe_def
  proof
    assume wf: "wf_db d"
    have fw: "find_workflow d' u = find_workflow d u" for u using that by (simp add: find_workflow_def)
    have "wf_rings d'"
      using wf that by (intro wf_rings_frame [where d = d and d' = d']) (simp_all add: wf_db_def outbox_of_def grows_refl)
    moreover have "wf_workflows d'" "wf_bindings d'" "wf_requests d'"
      using wf that by (simp_all add: wf_db_def wf_workflows_def wf_bindings_def wf_requests_def wf_request_def fw)
    moreover have "ring_le d d' u" for u using wf that by (intro ring_le_frame)
    ultimately show "wf_db d' \<and> db_le d d'" using that by (simp add: wf_db_def db_le_def grows_refl)
  qed
  then show "safe d (d\<lparr>migrations_log := l\<rparr>)" "safe d (d\<lparr>schema := b\<rparr>)" by simp_all
qed

lemma safe_init_sql: "safe d (init_sql d)"
  by (simp add: init_sql_def safe_meta)

lemma moves_apply_migrations:
  assumes "\<And>name script d. (name, script) \<in> set ms \<Longrightarrow> safe d (script d)"
  shows "moves safe (apply_migrations already ms newly)"
  using assms
proof (induction already ms newly rule: apply_migrations.induct)
  case (2 already name script rest newly)
  have "moves safe (run_migration_sql name script)"
    unfolding run_migration_sql_def by (intro moves_map_err moves_sql) (use 2(3) in auto)
  moreover have "moves safe (log_migration name at)" for at
    unfolding log_migration_def
    by (intro moves_map_err moves_sql) (auto simp: safe_meta split: option.splits if_splits)
  ultimately show ?case using 2 by (auto intro!: moves_intros)
qed (auto intro: moves_ret)

lemma moves_migrate: "moves safe migrate"
proof -
  have "moves safe create_migrations_log"
    unfolding create_migrations_log_def
    by (intro moves_map_err moves_sql) (auto simp: safe_meta reflpD [OF reflp_safe] split: option.splits)
  moreover have "moves safe applied_names"
    unfolding applied_names_def
    by (intro moves_map_err moves_sql) (auto simp: reflpD [OF reflp_safe] split: option.splits)
  moreover have "moves safe (apply_migrations already MIGRATIONS [])" for already
    by (rule moves_apply_migrations) (auto simp: MIGRATIONS_def safe_init_sql)
  ultimately show ?thesis unfolding migrate_def by (intro moves_intros) auto
qed

lemmas storage_moves = moves_migrate moves_create_workflow moves_set_workflow_state moves_append_event
  moves_outbox_mark_published moves_upsert_session_binding moves_create_pending_request
  moves_resolve_pending_request moves_expire_pending_requests

lemma storage_step_safe: "storage_step d d' \<Longrightarrow> safe d d'"
  by (induction rule: storage_step.induct) (rule movesD, rule storage_moves, assumption)+

interpretation store: monotone_system storage_step wf_db db_le
proof
  show "storage_step s t \<Longrightarrow> wf_db s \<Longrightarrow> wf_db t" "storage_step s t \<Longrightarrow> wf_db s \<Longrightarrow> db_le s t" for s t
    using storage_step_safe by (auto simp: safe_def)
  show "db_le s t \<Longrightarrow> db_le t u \<Longrightarrow> db_le s u" for s t u by (rule db_le_trans)
  show "wf_db s \<Longrightarrow> db_le s s" for s by (rule db_le_refl)
qed

lemma wf_fresh_db [simp]: "wf_db fresh_db"
  by (simp add: wf_db_def wf_workflows_def wf_rings_def wf_bindings_def wf_requests_def ring_ok_def
        fresh_db_def events_of_def outbox_of_def cut_of_def dropped_of_def high_water_def ring_count_def
        ring_bytes_def find_truncation_def MAX_RING_EVENTS_def MAX_RING_BYTES_def)

lemma wf_reachable: "storage_step\<^sup>*\<^sup>* fresh_db d \<Longrightarrow> wf_db d"
  using store.run_inv wf_fresh_db by blast

section \<open>Programs that are sequences of storage calls\<close>

text \<open>Any program built from the methods above, whatever it does between them, is a run.\<close>

definition storage_run :: "database \<Rightarrow> database \<Rightarrow> bool" where
  "storage_run = storage_step\<^sup>*\<^sup>*"

lemma reflp_run [simp]: "reflp storage_run" and transp_run [simp]: "transp storage_run"
  by (auto simp: storage_run_def intro: reflpI transpI)

lemma runs_method:
  assumes "\<And>w r w'. m w = (r, w') \<Longrightarrow> storage_step (db w) (db w')"
  shows "moves storage_run m"
  unfolding moves_def storage_run_def using assms by (metis prod.collapse r_into_rtranclp)

lemma runs_storage [moves_intros]:
  "moves storage_run migrate"
  "moves storage_run (create_workflow wid p title s)"
  "moves storage_run (set_workflow_state wid st)"
  "moves storage_run (append_event draft)"
  "moves storage_run (outbox_mark_published entries)"
  "moves storage_run (upsert_session_binding wid s2 ptr)"
  "moves storage_run (create_pending_request rid wid k x)"
  "moves storage_run (resolve_pending_request rid payload)"
  "moves storage_run expire_pending_requests"
  by (rule runs_method, erule storage_step.intros)+

lemma runs_reads [moves_intros]:
  "moves storage_run (events_after wid a n)"
  "moves storage_run (ring_stats wid)"
  "moves storage_run (outbox_drain n)"
  "moves storage_run outbox_pending_count"
  "moves storage_run (get_session_binding wid)"
  unfolding events_after_def ring_stats_def outbox_drain_def outbox_pending_count_def get_session_binding_def
  by (intro moves_intros; simp)+

lemma run_wf: "storage_run d d' \<Longrightarrow> wf_db d \<Longrightarrow> wf_db d'"
  unfolding storage_run_def by (rule store.run_inv)

lemma storage_run_le: "storage_run d d' \<Longrightarrow> wf_db d \<Longrightarrow> db_le d d'"
  unfolding storage_run_def by (rule store.run_le)

text \<open>What a run keeps of one workflow and of one request.\<close>

lemma run_workflow:
  assumes "storage_run d d'" "wf_db d" "find_workflow d wid = Some r"
  obtains r' where "find_workflow d' wid = Some r'" "workflow_le r r'"
  using find_workflow_grows [of d d' wid r] storage_run_le [OF assms(1,2)] assms(3) by (auto simp: db_le_def)

lemma run_request:
  assumes "storage_run d d'" "wf_db d" "find_request d rid = Some r"
  obtains r' where "find_request d' rid = Some r'" "request_le r r'"
  using grows_find [of request_le "t_requests d" "t_requests d'" "\<lambda>r. pr_request_id r = rid" r]
    storage_run_le [OF assms(1,2)] assms(3)
  by (auto simp: db_le_def find_request_def request_le_def)

lemma run_ring: "storage_run d d' \<Longrightarrow> wf_db d \<Longrightarrow> ring_le d d' wid"
  using storage_run_le by (auto simp: db_le_def)

end
