(* ===== verification/Storage_Props.thy ===== *)
theory Storage_Props
  imports Storage_Steps
begin

text \<open>
  What calcar-storage promises its callers: the replay contract of the event ring, atomic and
  total appends, the outbox, finished workflows, and requests that are answered once.
\<close>

section \<open>Statements in a healthy engine\<close>

lemma works_stmt:
  assumes "\<And>d. P d \<Longrightarrow> schema d \<and> (\<exists>x d'. f d = Inr (x, d') \<and> Q x d')"
  shows "works P (stmt f) Q"
  unfolding stmt_def by (intro works_map_err works_sql) (use assms in auto)

lemma works_query:
  assumes "\<And>d. P d \<Longrightarrow> schema d \<and> Q (f d) d"
  shows "works P (query f) Q"
  unfolding query_def by (rule works_stmt) (use assms in auto)

lemma works_get_workflow:
  assumes "\<And>d. P d \<Longrightarrow> schema d \<and> Q (find_workflow d wid) d"
  shows "works P (get_workflow wid) Q"
  unfolding get_workflow_def by (rule works_query) (fact assms)

section \<open>Appending\<close>

lemma works_cut_ring: "works (\<lambda>d. schema d) (cut_ring wid c) (\<lambda>_ d. schema d)"
proof (cases c)
  case None
  then show ?thesis by (simp add: cut_ring_def works_ret)
next
  case (Some cutoff)
  show ?thesis unfolding Some cut_ring_def option.case
    by (rule works_andthen [where R = "\<lambda>_ d. schema d"], rule works_stmt, simp add: delete_events_def Let_def,
        rule works_andthen [where R = "\<lambda>_ d. schema d"], rule works_now, assumption,
        rule works_stmt) (simp add: upsert_truncation_def)
qed

lemma works_trim_ring:
  "works (\<lambda>d. schema d \<and> events_of d wid \<noteq> []) (trim_ring wid) (\<lambda>_ d. schema d)"
  unfolding trim_ring_def
proof (rule works_andthen [where R = "\<lambda>_ d. schema d \<and> events_of d wid \<noteq> []"])
  show "works (\<lambda>d. schema d \<and> events_of d wid \<noteq> []) (query (\<lambda>d. (ring_count d wid, ring_bytes d wid)))
          (\<lambda>_ d. schema d \<and> events_of d wid \<noteq> [])" by (rule works_query) simp
next
  fix x :: "int \<times> int"
  obtain count bytes where x: "x = (count, bytes)" by fastforce
  have tail: "works (\<lambda>d. schema d \<and> events_of d wid \<noteq> [])
     (andthen (stmt (\<lambda>d. case max_seq d wid of None \<Rightarrow> Inl QueryReturnedNoRows | Some m \<Rightarrow> Inr (m, d))) (\<lambda>newest.
       andthen (query (\<lambda>d. map (\<lambda>r. (er_seq_no r, er_approx_bytes r))
                  (sort_key er_seq_no (filter (\<lambda>r. er_seq_no r < newest) (events_of d wid))))) (\<lambda>rows.
       cut_ring wid (trim_walk ee eb None rows)))) (\<lambda>_ d. schema d)" for ee eb
    by (rule works_andthen [where R = "\<lambda>_ d. schema d"], rule works_stmt,
        force simp: max_seq_def split: list.splits,
        rule works_andthen [where R = "\<lambda>_ d. schema d"], rule works_query, simp, rule works_cut_ring)
  show "works (\<lambda>d. schema d \<and> events_of d wid \<noteq> []) ((\<lambda>(count, bytes).
     let excess_events = max (count - MAX_RING_EVENTS) 0;
         excess_bytes = max (bytes - MAX_RING_BYTES) 0 in
     if excess_events = 0 \<and> excess_bytes = 0 then ret ()
     else
       andthen (stmt (\<lambda>d. case max_seq d wid of
                  None \<Rightarrow> Inl QueryReturnedNoRows | Some m \<Rightarrow> Inr (m, d))) (\<lambda>newest.
       andthen (query (\<lambda>d. map (\<lambda>r. (er_seq_no r, er_approx_bytes r))
                  (sort_key er_seq_no (filter (\<lambda>r. er_seq_no r < newest) (events_of d wid))))) (\<lambda>rows.
       cut_ring wid (trim_walk excess_events excess_bytes None rows)))) x) (\<lambda>_ d. schema d)"
    unfolding x prod.case Let_def
    by (intro works_if tail works_ret) simp
qed

lemma fresh_seq:
  assumes "ring_ok d v"
  shows "high_water d v + 1 \<notin> set (map er_seq_no (events_of d v))"
    "high_water d v + 1 \<notin> set (map ob_seq_no (outbox_of d v))"
  unfolding ring_okD(3) [OF assms] ring_okD(4) [OF assms] by simp_all

lemma works_append_body:
  "works (\<lambda>d. schema d \<and> ring_ok d (ed_workflow_id draft) \<and> find_workflow d (ed_workflow_id draft) \<noteq> None)
     (append_body draft) (\<lambda>_ d. schema d)"
  unfolding append_body_def
proof (rule works_andthen [where R = "\<lambda>seq d. schema d \<and> ring_ok d (ed_workflow_id draft)
      \<and> find_workflow d (ed_workflow_id draft) \<noteq> None \<and> seq = high_water d (ed_workflow_id draft) + 1"],
    rule works_query, use next_seq in simp)
  let ?v = "ed_workflow_id draft"
  fix seq
  let ?R = "\<lambda>d. schema d \<and> events_of d ?v \<noteq> [] \<and> seq \<notin> set (map ob_seq_no (outbox_of d ?v))"
  have i: "schema d \<and> (\<exists>u d'. insert_event (draft_row draft seq) d = Inr (u, d') \<and> ?R d')"
    if "schema d \<and> ring_ok d ?v \<and> find_workflow d ?v \<noteq> None \<and> seq = high_water d ?v + 1" for d
  proof -
    have "insert_event (draft_row draft seq) d = Inr ((), d\<lparr>t_events := t_events d @ [draft_row draft seq]\<rparr>)"
      using that fresh_seq(1) [of d ?v] by (simp add: insert_event_def)
    moreover have "?R (d\<lparr>t_events := t_events d @ [draft_row draft seq]\<rparr>)"
      using that fresh_seq(2) [of d ?v] by (simp add: events_of_def outbox_of_def)
    ultimately show ?thesis using that by blast
  qed
  show "works (\<lambda>d. schema d \<and> ring_ok d ?v \<and> find_workflow d ?v \<noteq> None \<and> seq = high_water d ?v + 1)
     (andthen (stmt (insert_event (draft_row draft seq))) (\<lambda>_.
      andthen now_millis (\<lambda>now.
      andthen (stmt (insert_outbox
        \<lparr>ob_workflow_id = ?v, ob_seq_no = seq, ob_enqueued_at_millis = now,
         ob_published_at_millis = None\<rparr>)) (\<lambda>_.
      andthen (trim_ring ?v) (\<lambda>_.
      ret (draft_event draft seq)))))) (\<lambda>_ d. schema d)"
  proof (rule works_andthen [where R = "\<lambda>_. ?R"], rule works_stmt, erule i,
      rule works_andthen [where R = "\<lambda>_. ?R"], rule works_now, assumption,
      rule works_andthen [where R = "\<lambda>_ d. schema d \<and> events_of d ?v \<noteq> []"])
    show "works ?R (stmt (insert_outbox \<lparr>ob_workflow_id = ?v, ob_seq_no = seq, ob_enqueued_at_millis = now,
         ob_published_at_millis = None\<rparr>)) (\<lambda>_ d. schema d \<and> events_of d ?v \<noteq> [])" for now
      by (rule works_stmt) (simp add: insert_outbox_def events_of_def)
    show "works (\<lambda>d. schema d \<and> events_of d ?v \<noteq> []) (andthen (trim_ring ?v) (\<lambda>_. ret (draft_event draft seq)))
        (\<lambda>_ d. schema d)" for x :: unit
      by (rule works_andthen, rule works_trim_ring, rule works_ret)
  qed
qed

lemma works_append_event:
  "works (\<lambda>d. schema d \<and> ring_ok d (ed_workflow_id draft) \<and> find_workflow d (ed_workflow_id draft) \<noteq> None)
     (append_event draft) (\<lambda>_ d. schema d)"
  unfolding append_event_def
proof (rule works_andthen [where R = "\<lambda>f d. f \<noteq> None \<and> schema d \<and> ring_ok d (ed_workflow_id draft)
      \<and> find_workflow d (ed_workflow_id draft) \<noteq> None"], rule works_get_workflow, simp)
  fix f :: "WorkflowRow option"
  show "works (\<lambda>d. f \<noteq> None \<and> schema d \<and> ring_ok d (ed_workflow_id draft)
      \<and> find_workflow d (ed_workflow_id draft) \<noteq> None)
    (case f of None \<Rightarrow> fail (NotFound (''workflow '' @ ed_workflow_id draft))
     | Some _ \<Rightarrow> transaction Sqlite (append_body draft)) (\<lambda>_ d. schema d)"
    by (rule works_assume [where b = "f \<noteq> None"])
       (auto intro!: works_transaction works_pre [OF works_append_body])
qed

text \<open>
  The trim drops as little as it can: with one event fewer dropped the ring would still break
  one of its two caps.
\<close>

definition over_caps :: "event_row list \<Rightarrow> bool" where
  "over_caps es \<longleftrightarrow> MAX_RING_EVENTS < int (length es) \<or> MAX_RING_BYTES < sum_list (map er_approx_bytes es)"

lemma append_trims_least:
  assumes wf: "wf_db (db w)" and run: "append_event draft w = (Inr ev, w')"
  obtains k es where "es = events_of (db w) (ed_workflow_id draft) @ [draft_row draft (high_water (db w) (ed_workflow_id draft) + 1)]"
    "events_of (db w') (ed_workflow_id draft) = drop k es" "k < length es"
    "\<not> over_caps (drop k es) \<or> k = length es - 1" "\<And>j. j < k \<Longrightarrow> over_caps (drop j es)"
proof -
  let ?v = "ed_workflow_id draft" and ?seq = "high_water (db w) (ed_workflow_id draft) + 1"
  let ?es = "events_of (db w) ?v @ [draft_row draft ?seq]"
  have ok: "ring_ok (db w) ?v" using wf by (simp add: wf_db_def wf_rings_def)
  obtain now where t: "ring_trimmed (with_event draft ?seq now (db w)) ?v
      (excess_drop (with_event draft ?seq now (db w)) ?v) (db w')"
    using append_event_ok [OF run ok] by metis
  let ?m = "with_event draft ?seq now (db w)" let ?k = "excess_drop ?m ?v"
  have es: "events_of ?m ?v = ?es" by simp
  then have ne: "events_of ?m ?v \<noteq> []" by simp
  note ex = excess_drop_bounds [OF ne]
  have cnt: "ring_count ?m ?v = int (length ?es)" unfolding ring_count_def es ..
  have pos: "\<forall>r\<in>set (events_of ?m ?v). 0 \<le> er_approx_bytes r"
    using ring_okD(8) [OF ok] by (fastforce simp: draft_row_def approx_bytes_def opt_len_def split: option.split)
  have "events_of (db w') ?v = drop ?k ?es" using t unfolding ring_trimmed_def es by simp
  moreover have k: "?k < length ?es" using ex(1) unfolding es .
  moreover have "\<not> over_caps (drop ?k ?es) \<or> ?k = length ?es - 1"
    using ex(2) k unfolding es cnt over_caps_def by (fastforce simp: of_nat_diff)
  moreover have "over_caps (drop j ?es)" if "j < ?k" for j
  proof -
    have "j < length ?es" using that k by simp
    then show ?thesis using ex(3) [OF that pos] unfolding es cnt over_caps_def by (auto simp: of_nat_diff)
  qed
  ultimately show ?thesis by (rule that [OF refl])
qed

lemma append_effect:
  assumes "wf_db (db w)" "append_event draft w = (Inr ev, w')"
  shows "ev = draft_event draft (high_water (db w) (ed_workflow_id draft) + 1) \<and>
    high_water (db w') (ed_workflow_id draft) = high_water (db w) (ed_workflow_id draft) + 1 \<and>
    (\<exists>k es. es = events_of (db w) (ed_workflow_id draft)
              @ [draft_row draft (high_water (db w) (ed_workflow_id draft) + 1)] \<and>
       events_of (db w') (ed_workflow_id draft) = drop k es \<and> k < length es \<and>
       cut_of (db w') (ed_workflow_id draft) = cut_of (db w) (ed_workflow_id draft) + int k \<and>
       (\<not> over_caps (drop k es) \<or> k = length es - 1) \<and> (\<forall>j<k. over_caps (drop j es))) \<and>
    (\<exists>now. t_outbox (db w') = t_outbox (db w) @
       [\<lparr>ob_workflow_id = ed_workflow_id draft,
         ob_seq_no = high_water (db w) (ed_workflow_id draft) + 1,
         ob_enqueued_at_millis = now, ob_published_at_millis = None\<rparr>]) \<and>
    (\<forall>v. v \<noteq> ed_workflow_id draft \<longrightarrow> events_of (db w') v = events_of (db w) v) \<and>
    t_workflows (db w') = t_workflows (db w) \<and> t_requests (db w') = t_requests (db w) \<and>
    t_bindings (db w') = t_bindings (db w) \<and> wf_db (db w')"
proof -
  let ?v = "ed_workflow_id draft" and ?hw = "high_water (db w) (ed_workflow_id draft)"
  have ok: "ring_ok (db w) ?v" using assms(1) by (simp add: wf_db_def wf_rings_def)
  obtain now where e: "ev = draft_event draft (?hw + 1)" and f: "find_workflow (db w) ?v \<noteq> None"
    and t: "ring_trimmed (with_event draft (?hw + 1) now (db w)) ?v
      (excess_drop (with_event draft (?hw + 1) now (db w)) ?v) (db w')"
    using append_event_ok [OF assms(2) ok] by metis
  obtain k es where es: "es = events_of (db w) ?v @ [draft_row draft (?hw + 1)]"
    "events_of (db w') ?v = drop k es" "k < length es" "\<not> over_caps (drop k es) \<or> k = length es - 1"
    "\<And>j. j < k \<Longrightarrow> over_caps (drop j es)"
    using append_trims_least [OF assms] by blast
  have hw: "high_water (db w') ?v = ?hw + 1" using ring_trimmed_ok(2) [OF t refl ok] .
  moreover have "cut_of (db w') ?v = cut_of (db w) ?v + int k"
    using hw es(1,3) by (simp add: high_water_def ring_count_def es(2) of_nat_diff)
  moreover have "wf_db (db w')" using append_safe(1) [OF assms(1) refl f t] .
  moreover have "t_outbox (db w') = t_outbox (db w) @ [\<lparr>ob_workflow_id = ?v, ob_seq_no = ?hw + 1,
       ob_enqueued_at_millis = now, ob_published_at_millis = None\<rparr>]"
    using t by (simp add: ring_trimmed_def with_event_def)
  moreover have "v \<noteq> ?v \<longrightarrow> events_of (db w') v = events_of (db w) v" for v
    using t by (simp add: ring_trimmed_def)
  moreover have "t_workflows (db w') = t_workflows (db w)" "t_requests (db w') = t_requests (db w)"
    "t_bindings (db w') = t_bindings (db w)"
    using t by (simp_all add: ring_trimmed_def same_rest_def with_event_def)
  ultimately show ?thesis using e es by blast
qed

text \<open>
  C1. A successful append gives the event the number after the workflow's high-water mark and
  puts it last in the ring; what the ring held before stays, less the shortest prefix whose
  removal meets both caps (5000 events, 10 MiB) or leaves only the new event. One outbox row is
  added for the event, no other row of the file changes, and the file stays well formed.
\<close>

theorem append_event_correct:
  assumes "wf_db (db w)" "append_event draft w = (Inr ev, w')"
  shows "ev = draft_event draft (high_water (db w) (ed_workflow_id draft) + 1) \<and>
    high_water (db w') (ed_workflow_id draft) = high_water (db w) (ed_workflow_id draft) + 1 \<and>
    (\<exists>k es. es = events_of (db w) (ed_workflow_id draft)
              @ [draft_row draft (high_water (db w) (ed_workflow_id draft) + 1)] \<and>
       events_of (db w') (ed_workflow_id draft) = drop k es \<and> k < length es \<and>
       cut_of (db w') (ed_workflow_id draft) = cut_of (db w) (ed_workflow_id draft) + int k \<and>
       (\<not> over_caps (drop k es) \<or> k = length es - 1) \<and> (\<forall>j<k. over_caps (drop j es))) \<and>
    (\<exists>now. t_outbox (db w') = t_outbox (db w) @
       [\<lparr>ob_workflow_id = ed_workflow_id draft,
         ob_seq_no = high_water (db w) (ed_workflow_id draft) + 1,
         ob_enqueued_at_millis = now, ob_published_at_millis = None\<rparr>]) \<and>
    (\<forall>v. v \<noteq> ed_workflow_id draft \<longrightarrow> events_of (db w') v = events_of (db w) v) \<and>
    t_workflows (db w') = t_workflows (db w) \<and> t_requests (db w') = t_requests (db w) \<and>
    t_bindings (db w') = t_bindings (db w) \<and> wf_db (db w')"
  using assms by (rule append_effect)

text \<open>
  C2. Appends are atomic and total: under any fault schedule an append that reports an error has
  not changed the file at all, and when the engine does not fail an append to an existing
  workflow of a well-formed file succeeds.
\<close>

theorem append_event_atomic_total:
  "(\<forall>e w'. append_event draft w = (Inl e, w') \<longrightarrow> db w' = db w) \<and>
   (quiet w \<and> wf_db (db w) \<and> schema (db w) \<and> find_workflow (db w) (ed_workflow_id draft) \<noteq> None \<longrightarrow>
    (\<exists>ev w'. append_event draft w = (Inr ev, w')))"
proof (intro conjI allI impI)
  show "db w' = db w" if "append_event draft w = (Inl e, w')" for e w'
    using that by (rule append_event_error)
  show "\<exists>ev w'. append_event draft w = (Inr ev, w')"
    if "quiet w \<and> wf_db (db w) \<and> schema (db w) \<and> find_workflow (db w) (ed_workflow_id draft) \<noteq> None"
    using that works_returns [OF works_append_event, of w draft] by (auto simp: wf_db_def wf_rings_def)
qed

section \<open>A concrete store\<close>

text \<open>A healthy engine with a clock that ticks once per read, and a file with one workflow.\<close>

definition calm_world :: "'d \<Rightarrow> 'd world" where
  "calm_world d = \<lparr>db = d, stmt_no = 0, stmt_fault = (\<lambda>_. False), clock_no = 0, clock_at = (\<lambda>n. 1000 + int n)\<rparr>"

definition sample_db :: database where
  "sample_db = fresh_db\<lparr>migrations_log := Some [(''0001_init'', 1000)], schema := True,
     t_workflows := [\<lparr>wr_workflow_id = ''w1'', wr_provider = 4, wr_state = 1, wr_title = ''t'',
       wr_provider_session_id = None, wr_created_at_millis = 1001, wr_updated_at_millis = 1001\<rparr>]\<rparr>"

definition sample_draft :: EventDraft where
  "sample_draft = \<lparr>ed_workflow_id = ''w1'', ed_event_id = ''e1'', ed_provider_session_id = None,
     ed_occurred_at_millis = 1002, ed_event_type = CommandStarted, ed_summary = ''s'', ed_detail_pointer = None\<rparr>"

lemma calm_world_simps [simp]:
  "db (calm_world d) = d" "stmt_fault (calm_world d) n = False" "quiet (calm_world d)"
  "clock_at (calm_world d) n = 1000 + int n" "clock_no (calm_world d) = 0" "stmt_no (calm_world d) = 0"
  by (simp_all add: calm_world_def quiet_def)

lemma sample_db_wf [simp]: "wf_db sample_db"
  by (simp add: wf_db_def wf_workflows_def wf_rings_def wf_bindings_def wf_requests_def ring_ok_def
        sample_db_def fresh_db_def events_of_def outbox_of_def cut_of_def dropped_of_def high_water_def
        ring_count_def ring_bytes_def find_truncation_def MAX_RING_EVENTS_def MAX_RING_BYTES_def
        valid_state_def WorkflowState_from_i32_def is_persistable_def Provider_from_i32_def)

lemma sample_db_simps [simp]:
  "schema sample_db" "find_workflow sample_db ''w1'' \<noteq> None" "ed_workflow_id sample_draft = ''w1''"
  "high_water sample_db v = 0" "events_of sample_db v = []" "t_requests sample_db = []"
  by (simp_all add: sample_db_def fresh_db_def find_workflow_def sample_draft_def high_water_def cut_of_def
        find_truncation_def ring_count_def events_of_def)

text \<open>The sample append, obtained from totality.\<close>

lemma sample_append:
  obtains ev w' where "append_event sample_draft (calm_world sample_db) = (Inr ev, w')"
  using works_returns [OF works_append_event, of "calm_world sample_db" sample_draft] sample_db_wf
  by (auto simp: wf_db_def wf_rings_def)

theorem append_event_correct_witness:
  "\<exists>ev w'. append_event sample_draft (calm_world sample_db) = (Inr ev, w') \<and>
     ev = draft_event sample_draft 1 \<and> high_water (db w') ''w1'' = 1 \<and> wf_db (db w')"
proof -
  obtain ev w' where run: "append_event sample_draft (calm_world sample_db) = (Inr ev, w')" by (rule sample_append)
  show ?thesis
    using append_event_correct [of "calm_world sample_db" sample_draft ev w'] run by auto
qed

theorem append_event_atomic_total_witness:
  "\<exists>ev w'. append_event sample_draft (calm_world sample_db) = (Inr ev, w')"
  using append_event_atomic_total [of sample_draft "calm_world sample_db"] by simp

section \<open>Replay\<close>

lemma events_after_okD:
  assumes "events_after wid a n w = (Inr evs, w')"
  shows "db w' = db w" "evs = map map_event (take n (sort_key er_seq_no
    (filter (\<lambda>r. a < er_seq_no r) (events_of (db w) wid))))"
  using assms unfolding events_after_def by (auto elim: query_okE)

lemma window_filter_after:
  assumes "map f xs = [c + 1 .. c + int (length xs)]"
  shows "filter (\<lambda>r. a < f r) xs = drop (nat (a - c)) xs"
proof (cases "c \<le> a")
  case True
  then show ?thesis using window_filter_gt [OF assms, of "nat (a - c)"] by simp
next
  case False
  have "a < f r" if "r \<in> set xs" for r
  proof -
    have "f r \<in> set (map f xs)" using that by simp
    then show ?thesis unfolding assms using False by simp
  qed
  then show ?thesis using False by (simp add: filter_True)
qed

lemma upto_drop: "c \<le> h \<Longrightarrow> drop k [c + 1 .. h] = [c + int k + 1 .. h]"
proof (induction k arbitrary: c)
  case (Suc k)
  show ?case
  proof (cases "c = h")
    case False
    then have "[c + 1 .. h] = (c + 1) # [c + 1 + 1 .. h]" using Suc.prems by (intro upto_rec1) simp
    then show ?thesis using Suc.IH [of "c + 1"] Suc.prems False by (simp add: algebra_simps)
  qed simp
qed simp

lemma map_seq_map_event:
  assumes "\<And>r. r \<in> set rs \<Longrightarrow> 0 \<le> er_seq_no r \<and> er_seq_no r \<le> i64_max"
  shows "map we_seq_no (map map_event rs) = map er_seq_no rs"
  using assms by (induction rs) (auto simp: map_event_def as_u64_id)

text \<open>
  C5. Replay is exact. From a well-formed file \<open>events_after\<close> returns the events that follow
  \<open>after_seq\<close> in the ring, oldest first and at most \<open>limit\<close> of them, without a gap: their numbers
  are consecutive, starting right after \<open>after_seq\<close>, or right after the trim's cut when
  \<open>after_seq\<close> lies before it. Nothing is written.
\<close>

theorem events_after_exact:
  assumes "wf_db (db w)" "events_after wid after_seq limit w = (Inr evs, w')"
    "high_water (db w) wid \<le> i64_max"
  shows "map we_seq_no evs = take limit [max after_seq (cut_of (db w) wid) + 1 .. high_water (db w) wid] \<and>
    evs = map map_event (take limit (drop (nat (after_seq - cut_of (db w) wid)) (events_of (db w) wid))) \<and>
    db w' = db w"
proof -
  let ?es = "events_of (db w) wid" and ?c = "cut_of (db w) wid" and ?h = "high_water (db w) wid"
  let ?k = "nat (after_seq - cut_of (db w) wid)"
  have ok: "ring_ok (db w) wid" using assms(1) by (simp add: wf_db_def wf_rings_def)
  note win = ring_window [OF ok]
  have evs: "evs = map map_event (take limit (drop ?k ?es))"
    using events_after_okD(2) [OF assms(2)] by (simp add: window_filter_after [OF win] window_sorted(2) [OF win])
  have "0 \<le> er_seq_no r \<and> er_seq_no r \<le> i64_max" if "r \<in> set ?es" for r
  proof -
    have "er_seq_no r \<in> set (map er_seq_no ?es)" using that by simp
    then show ?thesis unfolding ring_okD(3) [OF ok] using ring_okD(1) [OF ok] assms(3) by simp
  qed
  then have "map we_seq_no evs = take limit (drop ?k (map er_seq_no ?es))"
    unfolding evs by (subst map_seq_map_event) (auto simp: take_map drop_map dest: in_set_takeD in_set_dropD)
  also have "\<dots> = take limit [?c + int ?k + 1 .. ?h]"
    unfolding ring_okD(3) [OF ok] by (subst upto_drop) (simp_all add: high_water_def ring_count_def)
  also have "?c + int ?k = max after_seq ?c" by simp
  finally show ?thesis using evs events_after_okD(1) [OF assms(2)] by simp
qed

theorem events_after_exact_witness:
  "\<exists>evs w'. events_after ''w1'' 0 10 (calm_world sample_db) = (Inr evs, w') \<and> map we_seq_no evs = []"
proof -
  obtain evs w' where run: "events_after ''w1'' 0 10 (calm_world sample_db) = (Inr evs, w')"
    by (simp add: events_after_def query_def stmt_def io_simps)
  have "cut_of sample_db ''w1'' = 0" by (simp add: cut_of_def find_truncation_def sample_db_def fresh_db_def)
  then show ?thesis using events_after_exact [OF _ run] run by (simp add: i64_max_def)
qed

end
