(* ===== verification/Storage_Contracts.thy ===== *)
theory Storage_Contracts
  imports Storage_Props
begin

text \<open>
  Contracts of calcar-storage that hold along whole runs: what was appended is what is replayed,
  numbers are never reused, finished workflows and answered requests are final, the outbox
  hands every event over, migrations are applied once.
\<close>

section \<open>Replaying what was appended\<close>

lemma map_event_draft: "map_event (draft_row draft seq) = draft_event draft seq"
  by (simp add: map_event_def draft_row_def draft_event_def EventType_decodes)

lemma ring_okI: "wf_db d \<Longrightarrow> ring_ok d wid"
  by (simp add: wf_db_def wf_rings_def)

lemma events_of_seq_unique:
  assumes "wf_db d" "r \<in> set (events_of d wid)" "s \<in> set (events_of d wid)" "er_seq_no r = er_seq_no s"
  shows "r = s"
proof -
  have "distinct (map er_seq_no (events_of d wid))"
    using ring_okD(3) [OF ring_okI [OF assms(1)], of wid] by simp
  then show ?thesis using assms(2-4) distinct_map_eqD by fastforce
qed

lemma append_facts:
  assumes "wf_db (db w)" "append_event draft w = (Inr ev, w1)"
  shows "high_water (db w1) (ed_workflow_id draft) = high_water (db w) (ed_workflow_id draft) + 1"
    "ev = draft_event draft (high_water (db w) (ed_workflow_id draft) + 1)"
    "wf_db (db w1)" "0 \<le> high_water (db w) (ed_workflow_id draft)"
proof -
  have ok: "ring_ok (db w) (ed_workflow_id draft)" using assms(1) by (rule ring_okI)
  show "high_water (db w1) (ed_workflow_id draft) = high_water (db w) (ed_workflow_id draft) + 1"
    "ev = draft_event draft (high_water (db w) (ed_workflow_id draft) + 1)"
    using append_event_ok [OF assms(2) ok] ring_trimmed_ok(2) [OF _ refl ok] by metis+
  show "wf_db (db w1)" using movesD [OF moves_append_event assms(2)] assms(1) by (simp add: safe_def)
  show "0 \<le> high_water (db w) (ed_workflow_id draft)"
    using ring_okD(1) [OF ok] by (simp add: high_water_def ring_count_def)
qed

lemma appended_survives:
  assumes wf: "wf_db (db w)" and app: "append_event draft w = (Inr ev, w1)"
    and run: "storage_run (db w1) d2"
    and kept: "cut_of d2 (ed_workflow_id draft) < high_water (db w1) (ed_workflow_id draft)"
  shows "draft_row draft (high_water (db w1) (ed_workflow_id draft)) \<in> set (events_of d2 (ed_workflow_id draft))"
proof -
  let ?v = "ed_workflow_id draft" let ?h = "high_water (db w1) ?v" let ?r = "draft_row draft ?h"
  obtain k es where es: "es = events_of (db w) ?v @ [draft_row draft (high_water (db w) ?v + 1)]"
    "events_of (db w1) ?v = drop k es" "k < length es"
    using append_trims_least [OF wf app] by blast
  note h = append_facts(1) [OF wf app] and wf1 = append_facts(3) [OF wf app]
  have "?r = last es" using es(1) h by simp
  then have "?r \<in> set (events_of (db w1) ?v)"
    using es(2,3) by (metis drop_eq_Nil2 last_drop last_in_set not_le)
  then have "?r \<in> set (filter (\<lambda>r. cut_of d2 ?v < er_seq_no r \<and> er_seq_no r \<le> ?h) (events_of (db w1) ?v))"
    using kept by simp
  then have "?r \<in> set (filter (\<lambda>r. er_seq_no r \<le> ?h) (events_of d2 ?v))"
    using run_ring [OF run wf1, of ?v] by (simp add: ring_le_def)
  then show ?thesis by simp
qed

text \<open>
  C4. Append and replay round-trip. Whatever other storage calls run in between, under whatever
  faults, asking for the event after \<open>seq - 1\<close> returns exactly the event that the append with
  number \<open>seq\<close> returned, unless the ring has been cut past it.
\<close>

theorem append_replay_roundtrip:
  assumes "wf_db (db w)" "append_event draft w = (Inr ev, w1)" "storage_run (db w1) (db w2)"
    "cut_of (db w2) (ed_workflow_id draft) < we_seq_no ev" "high_water (db w) (ed_workflow_id draft) < i64_max"
    "events_after (ed_workflow_id draft) (we_seq_no ev - 1) 1 w2 = (Inr evs, w3)"
  shows "evs = [ev]"
proof -
  let ?v = "ed_workflow_id draft" and ?h = "high_water (db w1) (ed_workflow_id draft)"
  note h = append_facts(1) [OF assms(1,2)] and wf1 = append_facts(3) [OF assms(1,2)]
  have ev: "ev = draft_event draft ?h" using append_facts(1,2) [OF assms(1,2)] by simp
  have seq: "we_seq_no ev = ?h"
    using h assms(5) append_facts(4) [OF assms(1,2)] by (simp add: ev draft_event_def as_u64_id)
  let ?r = "draft_row draft ?h"
  have wf2: "wf_db (db w2)" using assms(3) wf1 by (rule run_wf)
  have mem: "?r \<in> set (events_of (db w2) ?v)"
    using appended_survives [OF assms(1,2,3)] assms(4) by (simp add: seq)
  let ?c = "cut_of (db w2) ?v" let ?es = "events_of (db w2) ?v" let ?k = "nat (?h - 1 - ?c)"
  note win = ring_window [OF ring_okI [OF wf2], of ?v]
  have evs: "evs = map map_event (take 1 (drop ?k ?es))"
    using events_after_okD(2) [OF assms(6)] by (simp add: seq window_filter_after [OF win] window_sorted(2) [OF win])
  have "?h \<in> set (map er_seq_no ?es)" using mem by force
  then have klen: "?k < length ?es" unfolding win using assms(4) seq by auto
  then have "er_seq_no (?es ! ?k) = ?h"
    using assms(4) seq by (subst nth_map [symmetric], simp) (subst win, subst nth_upto, auto)
  then have "?es ! ?k = ?r"
    using events_of_seq_unique [OF wf2 nth_mem [OF klen] mem] by simp
  then have "take 1 (drop ?k ?es) = [?r]" using klen by (simp add: take_Suc_conv_app_nth hd_drop_conv_nth take_Suc)
  then show ?thesis using evs ev by (simp add: map_event_draft)
qed

theorem append_replay_roundtrip_witness:
  "\<exists>ev w1 evs w3. append_event sample_draft (calm_world sample_db) = (Inr ev, w1) \<and>
     events_after ''w1'' (we_seq_no ev - 1) 1 w1 = (Inr evs, w3) \<and> evs = [ev]"
proof -
  obtain ev w1 where run: "append_event sample_draft (calm_world sample_db) = (Inr ev, w1)" by (rule sample_append)
  have c: "works (\<lambda>d. schema d \<and> ring_ok d (ed_workflow_id sample_draft)
      \<and> find_workflow d (ed_workflow_id sample_draft) \<noteq> None) (append_event sample_draft) (\<lambda>_ d. schema d)"
    by (rule works_append_event)
  have w1: "quiet w1" "schema (db w1)"
    using worksE [OF c, of "calm_world sample_db"] run ring_okI [OF sample_db_wf] by auto
  obtain evs w3 where ev: "events_after ''w1'' (we_seq_no ev - 1) 1 w1 = (Inr evs, w3)"
    using w1 by (auto simp: events_after_def query_def stmt_def map_err_apply sql_quiet)
  have hw: "high_water (db w1) ''w1'' = 1" and e: "ev = draft_event sample_draft 1" and wf1: "wf_db (db w1)"
    using append_facts(1-3) [OF _ run] by simp_all
  have "0 < ring_count (db w1) ''w1''"
    using hw ring_okD(5) [OF ring_okI [OF wf1]] by (fastforce simp: high_water_def ring_count_def)
  then have cut: "cut_of (db w1) ''w1'' < 1" using hw by (simp add: high_water_def)
  have "evs = [ev]"
    using append_replay_roundtrip [of "calm_world sample_db" sample_draft ev w1 w1 evs w3] run ev cut
    by (simp add: e draft_event_def as_u64_def i64_max_def storage_run_def)
  with run ev show ?thesis by blast
qed

text \<open>
  Numbers are never reused: of two successful appends to one workflow, with any run of
  storage calls between them, the later one gets the greater number, trims or not.
\<close>

theorem append_seq_increases:
  assumes "wf_db (db w)" "append_event draft w = (Inr ev, w1)" "storage_run (db w1) (db w2)"
    "append_event draft' w2 = (Inr ev', w3)" "ed_workflow_id draft' = ed_workflow_id draft"
    "high_water (db w2) (ed_workflow_id draft) < i64_max"
  shows "we_seq_no ev < we_seq_no ev'"
proof -
  let ?v = "ed_workflow_id draft"
  note f1 = append_facts [OF assms(1,2)]
  have wf2: "wf_db (db w2)" using assms(3) f1(3) by (rule run_wf)
  have "high_water (db w1) ?v \<le> high_water (db w2) ?v"
    using run_ring [OF assms(3) f1(3), of ?v] by (simp add: ring_le_def)
  then show ?thesis using f1(1,4) assms(5,6)
    by (simp add: f1(2) append_facts(2) [OF wf2 assms(4)] draft_event_def as_u64_id)
qed

lemma sample_append_again:
  obtains ev w1 ev' w2 where "append_event sample_draft (calm_world sample_db) = (Inr ev, w1)"
    "append_event sample_draft w1 = (Inr ev', w2)" "quiet w1" "quiet w2"
proof -
  let ?P = "\<lambda>d. schema d \<and> ring_ok d ''w1'' \<and> find_workflow d ''w1'' \<noteq> None"
  have c: "works ?P (append_event sample_draft) (\<lambda>_ d. schema d)"
    using works_append_event [of sample_draft] by simp
  have P0: "?P (db (calm_world sample_db))" using ring_okI [OF sample_db_wf] by simp
  obtain ev w1 where 1: "append_event sample_draft (calm_world sample_db) = (Inr ev, w1)" "quiet w1" "schema (db w1)"
    by (rule worksE [OF c _ P0]) simp_all
  have "find_workflow (db w1) ''w1'' \<noteq> None"
    using find_workflow_kept [of sample_db "db w1" "''w1''"] movesD [OF moves_append_event 1(1)]
    by (simp add: safe_def db_le_def)
  then have P1: "?P (db w1)" using 1 ring_okI [OF append_facts(3) [OF _ 1(1)]] by simp
  obtain ev' w2 where "append_event sample_draft w1 = (Inr ev', w2)" "quiet w2"
    by (rule worksE [OF c 1(2) P1])
  with 1 show ?thesis by (intro that)
qed

theorem append_seq_increases_witness:
  "\<exists>ev w1 ev' w2. append_event sample_draft (calm_world sample_db) = (Inr ev, w1) \<and>
     append_event sample_draft w1 = (Inr ev', w2) \<and> we_seq_no ev < we_seq_no ev'"
proof -
  obtain ev w1 ev' w2 where r: "append_event sample_draft (calm_world sample_db) = (Inr ev, w1)"
    "append_event sample_draft w1 = (Inr ev', w2)" by (rule sample_append_again)
  have "high_water (db w1) ''w1'' = 1" using append_facts(1) [OF _ r(1)] by simp
  then have "we_seq_no ev < we_seq_no ev'"
    using append_seq_increases [of "calm_world sample_db" sample_draft ev w1 w1 sample_draft ev' w2] r
    by (simp add: storage_run_def i64_max_def)
  with r show ?thesis by blast
qed

section \<open>Finished workflows\<close>

text \<open>A state change that returned normally.\<close>

lemma set_workflow_state_okE:
  assumes "set_workflow_state wid st w = (Inr x, w')"
  obtains now row where "is_persistable st" "schema (db w)" "find_workflow (db w) wid = Some row"
    "wr_state row \<notin> set TERMINAL_STATES"
    "update_workflow_state wid (WorkflowState_i32 st) now (db w) = Inr ((), db w')"
    "find_workflow (db w') wid = Some x"
proof -
  have p: "is_persistable st"
    by (rule ccontr) (use assms in \<open>simp add: set_workflow_state_def fail_def\<close>)
  obtain f w1 where g: "get_workflow wid w = (f, w1)" by fastforce
  obtain row where row: "f = Inr (Some row)" "wr_state row \<notin> set TERMINAL_STATES"
    using assms g p
    by (cases f) (auto simp: set_workflow_state_def andthen_def fail_def split: option.splits if_splits)
  have w1: "db w1 = db w" using g by (rule get_workflow_db)
  have found: "find_workflow (db w) wid = Some row" "schema (db w)"
    using g row(1) by (auto elim: get_workflow_okE)
  obtain now w2 where n: "now_millis w1 = (Inr now :: StorageError + int, w2)" "db w2 = db w1"
    by (auto simp: now_millis_def Let_def)
  obtain u w3 where s: "stmt (update_workflow_state wid (WorkflowState_i32 st) now) w2 = (u, w3)" by fastforce
  have "u \<noteq> Inl e" for e
    using assms g p row n s by (auto simp: set_workflow_state_def andthen_def)
  then obtain y where u: "u = Inr y" by (cases u) auto
  have "update_workflow_state wid (WorkflowState_i32 st) now (db w2) = Inr (y, db w3)"
    using s u by (auto elim: stmt_okE)
  moreover have "andthen (get_workflow wid) (\<lambda>again. case again of
                None \<Rightarrow> fail (NotFound (''workflow '' @ wid)) | Some row \<Rightarrow> ret row) w3 = (Inr x, w')"
    using assms g p row n s u
    by (simp add: set_workflow_state_def andthen_def [of "get_workflow wid"] andthen_def [of now_millis]
         andthen_def [of "stmt f" for f] del: append.simps)
  then obtain again w4 where "get_workflow wid w3 = (Inr again, w4)"
    "(case again of None \<Rightarrow> fail (NotFound (''workflow '' @ wid)) | Some row \<Rightarrow> ret row) w4 = (Inr x, w')"
    by (rule andthen_okE)
  then have "db w' = db w3" "find_workflow (db w3) wid = Some x"
    by (auto simp: fail_def ret_def elim!: get_workflow_okE split: option.splits)
  ultimately show ?thesis using that [of row now] p found row(2) n(2) w1 by simp
qed

text \<open>
  C19. A terminal state (completed, failed, stopped) is final: no run of storage calls, under any
  faults, changes the workflow's row again, and \<open>set_workflow_state\<close> refuses it.
\<close>

theorem terminal_state_final:
  assumes "wf_db d" "storage_run d (db w)" "find_workflow d wid = Some row" "wr_state row \<in> set TERMINAL_STATES"
  shows "find_workflow (db w) wid = Some row \<and> (\<forall>st x w'. set_workflow_state wid st w \<noteq> (Inr x, w'))"
proof -
  obtain r' where r': "find_workflow (db w) wid = Some r'" "workflow_le row r'"
    using assms(2,1,3) by (rule run_workflow)
  then have same: "find_workflow (db w) wid = Some row" using assms(4) by (auto simp: workflow_le_def)
  moreover have "set_workflow_state wid st w \<noteq> (Inr x, w')" for st x w'
    using set_workflow_state_okE [of wid st w x w'] same assms(4) by (metis option.inject)
  ultimately show ?thesis by blast
qed

definition finished_db :: database where
  "finished_db = sample_db\<lparr>t_workflows := map (\<lambda>r. r\<lparr>wr_state := 4\<rparr>) (t_workflows sample_db)\<rparr>"

lemma finished_db_wf [simp]: "wf_db finished_db"
  by (simp add: wf_db_def wf_workflows_def wf_rings_def wf_bindings_def wf_requests_def ring_ok_def finished_db_def
        sample_db_def fresh_db_def events_of_def outbox_of_def cut_of_def dropped_of_def high_water_def
        ring_count_def ring_bytes_def find_truncation_def MAX_RING_EVENTS_def MAX_RING_BYTES_def
        valid_state_def WorkflowState_from_i32_def is_persistable_def Provider_from_i32_def)

theorem terminal_state_final_witness:
  "\<exists>row. find_workflow finished_db ''w1'' = Some row \<and> wr_state row = 4 \<and>
     (\<forall>x w'. set_workflow_state ''w1'' Running (calm_world finished_db) \<noteq> (Inr x, w'))"
proof -
  obtain row where "find_workflow finished_db ''w1'' = Some row" "wr_state row = 4"
    by (simp add: find_workflow_def finished_db_def sample_db_def)
  then show ?thesis
    using terminal_state_final [of finished_db "calm_world finished_db" "''w1''" row]
    by (simp add: storage_run_def TERMINAL_STATES_def)
qed

section \<open>Requests are answered once\<close>

lemma length_filter_one:
  assumes "distinct (map key xs)"
  shows "length (filter (\<lambda>r. key r = k \<and> P r) xs) =
    (case find (\<lambda>r. key r = k) xs of None \<Rightarrow> 0 | Some r \<Rightarrow> if P r then 1 else 0)"
  using assms
proof (induction xs)
  case (Cons x xs)
  have "filter (\<lambda>r. key r = k \<and> P r) xs = []" if "key x = k"
    using Cons.prems that by (intro filter_const_False) (auto simp: image_iff)
  then show ?case using Cons by (auto split: option.splits)
qed simp

lemma find_request_map:
  assumes "\<And>r. pr_request_id (f r) = pr_request_id r"
  shows "find_request (d\<lparr>t_requests := map f (t_requests d)\<rparr>) rid = map_option f (find_request d rid)"
  unfolding find_request_def using assms by (simp add: find_map_same)

lemma find_request_expire_one:
  "expire_one rid now d = Inr (u, d') \<Longrightarrow> find_request d' v = map_option
     (\<lambda>r. if pr_request_id r = rid \<and> overdue now r then r\<lparr>pr_state := 3\<rparr> else r) (find_request d v)"
  unfolding expire_one_def by (auto simp: find_request_map)

lemma find_request_resolve_one:
  "resolve_one rid now payload d = Inr (n, d') \<Longrightarrow> find_request d' v = map_option
     (\<lambda>r. if pr_request_id r = rid \<and> pr_state r = 1
        then r\<lparr>pr_state := 2, pr_resolved_at_millis := Some now, pr_resolve_payload := Some payload\<rparr> else r)
     (find_request d v)"
  unfolding resolve_one_def Let_def by (auto simp: find_request_map)

lemma resolve_one_count:
  assumes "resolve_one rid now payload d = Inr (n, d')" "distinct (map pr_request_id (t_requests d))"
  shows "n = (case find_request d rid of None \<Rightarrow> 0 | Some r \<Rightarrow> if pr_state r = 1 then 1 else 0)"
  using assms by (auto simp: resolve_one_def Let_def length_filter_one find_request_def)

lemma wf_requests_distinct: "wf_db d \<Longrightarrow> distinct (map pr_request_id (t_requests d))"
  by (simp add: wf_db_def wf_requests_def)

lemma expire_one_ids: "expire_one rid now d = Inr (u, d') \<Longrightarrow>
    map pr_request_id (t_requests d') = map pr_request_id (t_requests d)"
  unfolding expire_one_def by auto

lemma find_request_id: "find_request d rid = Some r \<Longrightarrow> pr_request_id r = rid"
  unfolding find_request_def by (auto dest: find_SomeD)

text \<open>A resolve that returned normally.\<close>

lemma resolve_okE:
  assumes "resolve_pending_request rid payload w = (Inr u, w')" "wf_db (db w)"
  obtains r now where "find_request (db w) rid = Some r" "pr_state r = 1" "\<not> overdue now r"
    "fst (now_millis w) = (Inr now :: StorageError + int)"
    "find_request (db w') rid = Some (r\<lparr>pr_state := 2, pr_resolved_at_millis := Some now,
        pr_resolve_payload := Some payload\<rparr>)"
proof -
  obtain now w1 where n: "now_millis w = (Inr now :: StorageError + int, w1)" "db w1 = db w"
    by (auto simp: now_millis_def Let_def)
  have "andthen (stmt (expire_one rid now)) (\<lambda>_.
     andthen (stmt (resolve_one rid now payload)) (\<lambda>updated.
     if updated = 1 then ret ()
     else andthen (query (\<lambda>d. map_option pr_state (find_request d rid))) (\<lambda>state.
       case state of
         Some s \<Rightarrow> if s = 3 then fail (StorageError.Expired rid) else fail (AlreadyResolved rid)
       | None \<Rightarrow> fail (NotFound (''request '' @ rid))))) w1 = (Inr u, w')"
    using assms(1) n unfolding resolve_pending_request_def by (simp add: andthen_def [of now_millis])
  then obtain k x and w2 w3 :: "database world" where e: "expire_one rid now (db w1) = Inr (x, db w2)"
    and s: "resolve_one rid now payload (db w2) = Inr (k, db w3)"
    and t: "(if k = 1 then ret ()
     else andthen (query (\<lambda>d. map_option pr_state (find_request d rid))) (\<lambda>state.
       case state of
         Some s \<Rightarrow> if s = 3 then fail (StorageError.Expired rid) else fail (AlreadyResolved rid)
       | None \<Rightarrow> fail (NotFound (''request '' @ rid)))) w3 = (Inr u, w')"
    by (elim andthen_okE stmt_okE) (rule that; assumption)
  have k: "k = 1"
  proof (rule ccontr)
    assume "k \<noteq> 1"
    then show False using t
      by (auto simp: andthen_def fail_def split: prod.splits sum.splits option.splits if_splits)
  qed
  then have w': "w' = w3" using t by (simp add: ret_def)
  have "distinct (map pr_request_id (t_requests (db w2)))"
    using expire_one_ids [OF e] wf_requests_distinct [OF assms(2)] n(2) by simp
  from resolve_one_count [OF s this] k obtain r2 where r2: "find_request (db w2) rid = Some r2" "pr_state r2 = 1"
    by (auto split: option.splits if_splits)
  with find_request_expire_one [OF e, of rid] n(2) obtain r where r: "find_request (db w) rid = Some r"
    "r2 = (if pr_request_id r = rid \<and> overdue now r then r\<lparr>pr_state := 3\<rparr> else r)"
    by (cases "find_request (db w) rid") simp_all
  have id: "pr_request_id r = rid" using r(1) by (rule find_request_id)
  then have "\<not> overdue now r" "r2 = r" using r(2) r2(2) by (auto split: if_splits)
  then show ?thesis
    using that [of r now] r r2 n(1) find_request_resolve_one [OF s, of rid] id w' by simp
qed

text \<open>
  C6. A pending request is answered at most once and never after its deadline. When
  \<open>resolve_pending_request\<close> succeeds, the request was pending and not overdue at the clock reading
  the call took; from then on, along every run, the stored payload is the one of that call and
  every further resolve of the request fails.
\<close>

theorem request_resolved_once:
  assumes "wf_db (db w)" "resolve_pending_request rid payload w = (Inr (), w1)" "storage_run (db w1) (db w2)"
  shows "(\<exists>r now. find_request (db w) rid = Some r \<and> pr_state r = 1 \<and> \<not> overdue now r \<and>
            fst (now_millis w) = (Inr now :: StorageError + int)) \<and>
    (\<exists>r. find_request (db w2) rid = Some r \<and> pr_state r = 2 \<and> pr_resolve_payload r = Some payload) \<and>
    (\<forall>payload' w3. resolve_pending_request rid payload' w2 \<noteq> (Inr (), w3))"
proof -
  obtain r now where r: "find_request (db w) rid = Some r" "pr_state r = 1" "\<not> overdue now r"
    "fst (now_millis w) = (Inr now :: StorageError + int)"
    "find_request (db w1) rid = Some (r\<lparr>pr_state := 2, pr_resolved_at_millis := Some now,
        pr_resolve_payload := Some payload\<rparr>)"
    using assms(2,1) by (rule resolve_okE)
  have wf1: "wf_db (db w1)" using movesD [OF moves_resolve_pending_request assms(2)] assms(1) by (simp add: safe_def)
  obtain r2 where r2: "find_request (db w2) rid = Some r2"
    "request_le (r\<lparr>pr_state := 2, pr_resolved_at_millis := Some now, pr_resolve_payload := Some payload\<rparr>) r2"
    using assms(3) wf1 r(5) by (rule run_request)
  then have r2': "pr_state r2 = 2" "pr_resolve_payload r2 = Some payload" by (simp_all add: request_le_def)
  have "resolve_pending_request rid payload' w2 \<noteq> (Inr (), w3)" for payload' w3
  proof
    assume "resolve_pending_request rid payload' w2 = (Inr (), w3)"
    then obtain r3 now3 where "find_request (db w2) rid = Some r3" "pr_state r3 = 1"
      using run_wf [OF assms(3) wf1] by (rule resolve_okE)
    then show False using r2(1) r2'(1) by simp
  qed
  then show ?thesis using r r2(1) r2' by blast
qed

definition asking_db :: database where
  "asking_db = sample_db\<lparr>t_requests := [\<lparr>pr_request_id = ''q'', pr_workflow_id = ''w1'', pr_kind = 2, pr_state = 1,
     pr_created_at_millis = 900, pr_expires_at_millis = Some 5000, pr_resolved_at_millis = None,
     pr_resolve_payload = None\<rparr>]\<rparr>"

lemma asking_db_wf [simp]: "wf_db asking_db"
proof -
  have "wf_requests asking_db"
    by (simp add: wf_requests_def asking_db_def wf_request_def RequestKind_from_i32_def frame_simps)
  then show ?thesis using sample_db_wf unfolding asking_db_def wf_db_def by (simp add: wf_other_tables)
qed

lemma asking_resolve:
  "\<exists>w1. resolve_pending_request ''q'' ''yes'' (calm_world asking_db) = (Inr (), w1)"
  by (simp add: resolve_pending_request_def asking_db_def sample_db_def io_simps stmt_def expire_one_def
      resolve_one_def overdue_def as_i64_def Let_def fresh_db_def)

theorem request_resolved_once_witness:
  "\<exists>w1. resolve_pending_request ''q'' ''yes'' (calm_world asking_db) = (Inr (), w1) \<and>
     (\<forall>w3. resolve_pending_request ''q'' ''no'' w1 \<noteq> (Inr (), w3))"
proof -
  obtain w1 where run: "resolve_pending_request ''q'' ''yes'' (calm_world asking_db) = (Inr (), w1)"
    using asking_resolve by blast
  then show ?thesis
    using request_resolved_once [of "calm_world asking_db" "''q''" "''yes''" w1 w1] by (auto simp: storage_run_def)
qed

section \<open>The outbox\<close>

definition entry_of :: "outbox_row \<Rightarrow> OutboxEntry" where
  "entry_of r = \<lparr>oe_workflow_id = ob_workflow_id r, oe_seq_no = ob_seq_no r\<rparr>"

lemma entry_of_eq: "entry_of r = e \<longleftrightarrow> ob_workflow_id r = oe_workflow_id e \<and> ob_seq_no r = oe_seq_no e"
  by (cases e) (simp add: entry_of_def)

lemma mark_one_pending:
  assumes "mark_one entry now d = Inr (n, d')"
  shows "pending_outbox d' = filter (\<lambda>r. entry_of r \<noteq> entry) (pending_outbox d)"
    "n + length (pending_outbox d') = length (pending_outbox d)"
proof -
  let ?hit = "\<lambda>r. ob_workflow_id r = oe_workflow_id entry \<and> ob_seq_no r = oe_seq_no entry
                      \<and> ob_published_at_millis r = None"
  have d': "t_outbox d' = map (\<lambda>r. if ?hit r then r\<lparr>ob_published_at_millis := Some now\<rparr> else r) (t_outbox d)"
    and n: "n = length (filter ?hit (t_outbox d))"
    using assms by (auto simp: mark_one_def Let_def)
  have *: "filter (\<lambda>r. ob_published_at_millis r = None)
        (map (\<lambda>r. if ?hit r then r\<lparr>ob_published_at_millis := Some now\<rparr> else r) xs)
      = filter (\<lambda>r. entry_of r \<noteq> entry) (filter (\<lambda>r. ob_published_at_millis r = None) xs)" for xs
    by (induction xs) (auto simp: entry_of_eq)
  then show p: "pending_outbox d' = filter (\<lambda>r. entry_of r \<noteq> entry) (pending_outbox d)"
    by (simp only: pending_outbox_def d')
  have "filter ?hit (t_outbox d) = filter (\<lambda>r. \<not> entry_of r \<noteq> entry) (pending_outbox d)"
    by (auto simp: pending_outbox_def entry_of_eq intro: filter_cong)
  then show "n + length (pending_outbox d') = length (pending_outbox d)"
    unfolding p n using sum_length_filter_compl [of "\<lambda>r. entry_of r \<noteq> entry" "pending_outbox d"] by simp
qed

lemma mark_loop_pending:
  assumes "mark_loop entries m w = (Inr n, w')"
  shows "pending_outbox (db w') = filter (\<lambda>r. entry_of r \<notin> set entries) (pending_outbox (db w))"
    "n + length (pending_outbox (db w')) = m + length (pending_outbox (db w))"
proof -
  have "pending_outbox (db w') = filter (\<lambda>r. entry_of r \<notin> set entries) (pending_outbox (db w)) \<and>
    n + length (pending_outbox (db w')) = m + length (pending_outbox (db w))"
    using assms
  proof (induction entries arbitrary: m w)
    case Nil
    then show ?case by (simp add: ret_def)
  next
    case (Cons e es)
    obtain now k w1 w2 where k: "mark_one e now (db w) = Inr (k, db w1)" "mark_loop es (m + k) w1 = (Inr n, w')"
    proof -
      obtain now w0 where n: "now_millis w = (Inr now :: StorageError + int, w0)" "db w0 = db w"
        by (auto simp: now_millis_def Let_def)
      have "andthen (stmt (mark_one e now)) (\<lambda>k. mark_loop es (m + k)) w0 = (Inr n, w')"
        using Cons.prems n(1) by (simp add: andthen_def [of now_millis])
      then obtain k w1 where "stmt (mark_one e now) w0 = (Inr k, w1)" "mark_loop es (m + k) w1 = (Inr n, w')"
        by (rule andthen_okE)
      then show ?thesis using that n(2) by (metis stmt_okE)
    qed
    show ?case
      using Cons.IH [OF k(2)] mark_one_pending [OF k(1)]
      by (auto intro: filter_cong)
  qed
  then show "pending_outbox (db w') = filter (\<lambda>r. entry_of r \<notin> set entries) (pending_outbox (db w))"
    "n + length (pending_outbox (db w')) = m + length (pending_outbox (db w))" by auto
qed

text \<open>
  Publishing: a successful \<open>outbox_mark_published\<close> takes exactly the given entries out of the
  pending set and returns how many of them were pending; entries already published or unknown
  count for nothing, so marking twice is harmless.
\<close>

theorem outbox_mark_published_exact:
  assumes "outbox_mark_published entries w = (Inr n, w')"
  shows "pending_outbox (db w') = filter (\<lambda>r. entry_of r \<notin> set entries) (pending_outbox (db w)) \<and>
    n = length (filter (\<lambda>r. entry_of r \<in> set entries) (pending_outbox (db w)))"
  using mark_loop_pending [of entries 0 w n w'] assms
    sum_length_filter_compl [of "\<lambda>r. entry_of r \<in> set entries" "pending_outbox (db w)"]
  by (simp add: outbox_mark_published_def)

theorem outbox_mark_published_exact_witness:
  "\<exists>w'. outbox_mark_published [\<lparr>oe_workflow_id = ''w1'', oe_seq_no = 1\<rparr>] (calm_world
       (sample_db\<lparr>t_outbox := [\<lparr>ob_workflow_id = ''w1'', ob_seq_no = 1, ob_enqueued_at_millis = 7,
          ob_published_at_millis = None\<rparr>]\<rparr>)) = (Inr 1, w') \<and> pending_outbox (db w') = []"
proof -
  let ?w = "calm_world (sample_db\<lparr>t_outbox := [\<lparr>ob_workflow_id = ''w1'', ob_seq_no = 1, ob_enqueued_at_millis = 7,
          ob_published_at_millis = None\<rparr>]\<rparr>)"
  obtain w' where run: "outbox_mark_published [\<lparr>oe_workflow_id = ''w1'', oe_seq_no = 1\<rparr>] ?w = (Inr 1, w')"
    by (simp add: outbox_mark_published_def io_simps stmt_def mark_one_def Let_def sample_db_def fresh_db_def)
  then show ?thesis
    using outbox_mark_published_exact [OF run] by (simp add: pending_outbox_def entry_of_def)
qed

lemma sorted_filter_key: "sorted (map f xs) \<Longrightarrow> sorted (map f (filter P xs))"
  by (rule sorted_filter)

lemma sorted_filter_const: "sorted (map f (filter (\<lambda>r. f r = c) xs))"
  by (induction xs) auto

lemma sorted_pending:
  assumes "wf_db d"
  shows "sorted (map ob_seq_no (filter (\<lambda>r. ob_workflow_id r = wid) (pending_outbox d)))"
proof -
  have "filter (\<lambda>r. ob_workflow_id r = wid) (pending_outbox d) = filter (\<lambda>r. ob_published_at_millis r = None) (outbox_of d wid)"
    by (simp add: pending_outbox_def outbox_of_def filter_filter conj_commute)
  moreover have "sorted (map ob_seq_no (outbox_of d wid))"
    using ring_okD(4) [OF ring_okI [OF assms], of wid] by simp
  ultimately show ?thesis by (simp add: sorted_filter_key)
qed

text \<open>
  When the clock never ran backwards between enqueues, draining hands out every workflow's
  pending events in sequence order: the drained entries of a workflow are, for any limit, the
  pending entries of the workflow in the order of their numbers, from the oldest on.
\<close>

theorem outbox_drain_in_order:
  assumes "wf_db (db w)" "sorted (map ob_enqueued_at_millis (t_outbox (db w)))"
    "outbox_drain limit w = (Inr es, w')"
  shows "(\<exists>k. filter (\<lambda>e. oe_workflow_id e = wid) es = take k (map entry_of
       (filter (\<lambda>r. ob_workflow_id r = wid) (pending_outbox (db w))))) \<and>
    sorted (map oe_seq_no (filter (\<lambda>e. oe_workflow_id e = wid) es)) \<and> db w' = db w \<and>
    length es = min limit (length (pending_outbox (db w)))"
proof -
  let ?p = "pending_outbox (db w)" let ?pw = "filter (\<lambda>r. ob_workflow_id r = wid) (pending_outbox (db w))"
  have es: "es = map entry_of (take limit (drain_order ?p))" and w': "db w' = db w"
    using assms(3) unfolding outbox_drain_def entry_of_def by (auto elim: query_okE)
  have "filter (\<lambda>r. ob_workflow_id r = wid) (drain_order ?p) = ?pw"
  proof -
    have "sort_key ob_seq_no ?pw = ?pw" by (rule sort_key_sorted) (rule sorted_pending [OF assms(1)])
    moreover have "sort_key ob_workflow_id ?pw = ?pw"
      by (rule sort_key_sorted) (rule sorted_filter_const)
    moreover have "sort_key ob_enqueued_at_millis ?pw = ?pw"
      using assms(2) by (intro sort_key_sorted) (simp add: pending_outbox_def sorted_filter_key)
    ultimately show ?thesis by (simp add: drain_order_def filter_sort)
  qed
  moreover obtain k where "filter (\<lambda>r. ob_workflow_id r = wid) (take limit (drain_order ?p))
      = take k (filter (\<lambda>r. ob_workflow_id r = wid) (drain_order ?p))"
  proof -
    have "filter P xs = filter P (take n xs) @ filter P (drop n xs)" for P n and xs :: "outbox_row list"
      by (simp flip: filter_append)
    then show ?thesis using that by (metis append_eq_conv_conj)
  qed
  ultimately have f: "filter (\<lambda>r. ob_workflow_id r = wid) (take limit (drain_order ?p)) = take k ?pw" by simp
  have e: "filter (\<lambda>e. oe_workflow_id e = wid) es = map entry_of (take k ?pw)"
    unfolding es by (simp add: filter_map o_def entry_of_def flip: f)
  moreover have "sorted (map oe_seq_no (map entry_of (take k ?pw)))"
    using sorted_pending [OF assms(1), of wid] by (simp add: o_def entry_of_def sorted_wrt_take flip: take_map)
  moreover have "length es = min limit (length ?p)" by (simp add: es drain_order_def)
  ultimately show ?thesis using w' by (auto simp: take_map)
qed

definition outbox_sample :: "int \<Rightarrow> int \<Rightarrow> database" where
  "outbox_sample t1 t2 = sample_db\<lparr>
     t_events := [\<lparr>er_workflow_id = ''w1'', er_seq_no = 1, er_event_id = ''a'', er_provider_session_id = None,
         er_type = 2, er_occurred_at_millis = t1, er_summary = [], er_detail_pointer = None, er_approx_bytes = 65\<rparr>,
       \<lparr>er_workflow_id = ''w1'', er_seq_no = 2, er_event_id = ''b'', er_provider_session_id = None,
         er_type = 2, er_occurred_at_millis = t2, er_summary = [], er_detail_pointer = None, er_approx_bytes = 65\<rparr>],
     t_outbox := [\<lparr>ob_workflow_id = ''w1'', ob_seq_no = 1, ob_enqueued_at_millis = t1, ob_published_at_millis = None\<rparr>,
       \<lparr>ob_workflow_id = ''w1'', ob_seq_no = 2, ob_enqueued_at_millis = t2, ob_published_at_millis = None\<rparr>]\<rparr>"

lemma outbox_sample_wf [simp]: "wf_db (outbox_sample t1 t2)"
proof -
  have two: "[1..2::int] = [1, 2]" by (simp add: upto.simps)
  have "ring_ok (outbox_sample t1 t2) v" for v
    by (simp add: ring_ok_def outbox_sample_def sample_db_def fresh_db_def events_of_def outbox_of_def cut_of_def
        dropped_of_def high_water_def ring_count_def ring_bytes_def find_truncation_def MAX_RING_EVENTS_def
        MAX_RING_BYTES_def two)
  then have "wf_rings (outbox_sample t1 t2)"
    by (simp add: wf_rings_def) (simp add: outbox_sample_def EventType_from_i32_def find_workflow_def sample_db_def)
  moreover have "wf_workflows (outbox_sample t1 t2)" "wf_bindings (outbox_sample t1 t2)" "wf_requests (outbox_sample t1 t2)"
    using sample_db_wf by (simp_all add: wf_db_def outbox_sample_def wf_workflows_def wf_bindings_def wf_requests_def
        wf_request_def sample_db_def fresh_db_def)
  ultimately show ?thesis by (simp add: wf_db_def)
qed

theorem outbox_drain_in_order_witness:
  "\<exists>es w'. outbox_drain 5 (calm_world (outbox_sample 10 20)) = (Inr es, w') \<and> length es = 2 \<and>
     sorted (map oe_seq_no (filter (\<lambda>e. oe_workflow_id e = ''w1'') es))"
proof -
  obtain es w' where run: "outbox_drain 5 (calm_world (outbox_sample 10 20)) = (Inr es, w')"
    by (simp add: outbox_drain_def query_def stmt_def io_simps outbox_sample_def)
  then show ?thesis
    using outbox_drain_in_order [OF _ _ run, of "''w1''"]
    by (simp add: outbox_sample_def [of 10 20, THEN arg_cong, of t_outbox] outbox_sample_def [of 10 20, THEN arg_cong, of pending_outbox]
        pending_outbox_def)
qed

text \<open>
  The drain orders by the wall clock, not by sequence: when the clock steps back between two
  appends of one workflow, the drain hands out event 2 before event 1. (The migration's comment
  promises sequence order per workflow.)
\<close>

theorem outbox_drain_clock_skew:
  "\<exists>es w'. outbox_drain 5 (calm_world (outbox_sample 20 10)) = (Inr es, w') \<and> map oe_seq_no es = [2, 1]"
  by (simp add: outbox_drain_def query_def stmt_def io_simps outbox_sample_def pending_outbox_def drain_order_def
      sample_db_def fresh_db_def)

section \<open>Migrations\<close>

text \<open>The log of applied migrations agrees with the tables that exist.\<close>

definition log_ok :: "database \<Rightarrow> bool" where
  "log_ok d \<longleftrightarrow> (case migrations_log d of None \<Rightarrow> \<not> schema d
     | Some log \<Rightarrow> schema d \<longleftrightarrow> ''0001_init'' \<in> set (map fst log))"

definition logged_db :: "database \<Rightarrow> database" where
  "logged_db d = (case migrations_log d of None \<Rightarrow> d\<lparr>migrations_log := Some []\<rparr> | Some _ \<Rightarrow> d)"

definition migrated_db :: "int \<Rightarrow> database \<Rightarrow> database" where
  "migrated_db now d = d\<lparr>schema := True,
     migrations_log := Some (the (migrations_log d) @ [(''0001_init'', now)])\<rparr>"

lemma logged_db_log: "log_ok d \<Longrightarrow> \<exists>l. migrations_log (logged_db d) = Some l \<and> (schema d \<longleftrightarrow> ''0001_init'' \<in> set (map fst l))"
  by (auto simp: log_ok_def logged_db_def split: option.splits)

lemma triple_migration_body:
  assumes "migrations_log d0 = Some l" "''0001_init'' \<notin> set (map fst l)"
  shows "triple (\<lambda>d. d = d0)
     (andthen (run_migration_sql ''0001_init'' init_sql) (\<lambda>_. andthen now_millis (\<lambda>now. log_migration ''0001_init'' now)))
     (\<lambda>_ d. \<exists>now. d = migrated_db now d0) (\<lambda>_ _. True)"
proof (rule triple_andthen [where R = "\<lambda>_ d. d = init_sql d0"])
  show "triple (\<lambda>d. d = d0) (run_migration_sql ''0001_init'' init_sql) (\<lambda>_ d. d = init_sql d0) (\<lambda>_ _. True)"
    unfolding run_migration_sql_def by (rule triple_map_err, rule triple_sql) auto
  have "triple (\<lambda>d. d = init_sql d0) (log_migration ''0001_init'' now) (\<lambda>_ d. \<exists>now. d = migrated_db now d0) (\<lambda>_ _. True)" for now
    unfolding log_migration_def
    by (rule triple_map_err, rule triple_sql) (use assms in \<open>auto simp: init_sql_def migrated_db_def\<close>)
  then show "triple (\<lambda>d. d = init_sql d0) (andthen now_millis (\<lambda>now. log_migration ''0001_init'' now))
      (\<lambda>_ d. \<exists>now. d = migrated_db now d0) (\<lambda>_ _. True)" for x :: unit
    by (rule triple_andthen [where R = "\<lambda>_ d. d = init_sql d0", rotated]) (rule triple_now_millis)
qed

lemma triple_migrate:
  assumes ok: "log_ok d0"
  shows "triple (\<lambda>d. d = d0) migrate
    (\<lambda>names d. if schema d0 then names = [] \<and> d = logged_db d0
               else names = [''0001_init''] \<and> (\<exists>now. d = migrated_db now (logged_db d0)))
    (\<lambda>_ d. d = d0 \<or> d = logged_db d0)"
proof -
  obtain l where l: "migrations_log (logged_db d0) = Some l" "schema d0 \<longleftrightarrow> ''0001_init'' \<in> set (map fst l)"
    using logged_db_log [OF ok] by blast
  let ?Q = "\<lambda>names d. if schema d0 then names = [] \<and> d = logged_db d0
               else names = [''0001_init''] \<and> (\<exists>now. d = migrated_db now (logged_db d0))"
  let ?E = "\<lambda>(_::StorageError) d. d = d0 \<or> d = logged_db d0"
  have 1: "triple (\<lambda>d. d = d0) create_migrations_log (\<lambda>_ d. d = logged_db d0) ?E"
    unfolding create_migrations_log_def
    by (rule triple_map_err, rule triple_sql) (auto simp: logged_db_def split: option.splits)
  have 2: "triple (\<lambda>d. d = logged_db d0) applied_names (\<lambda>al d. al = map fst l \<and> d = logged_db d0) ?E"
    unfolding applied_names_def by (rule triple_map_err, rule triple_sql) (use l(1) in auto)
  have 3: "triple (\<lambda>d. d = logged_db d0) (transaction Sqlite
     (andthen (run_migration_sql ''0001_init'' init_sql) (\<lambda>_. andthen now_millis (\<lambda>now. log_migration ''0001_init'' now))))
     (\<lambda>_ d. \<exists>now. d = migrated_db now (logged_db d0)) ?E" if "\<not> schema d0"
    by (rule triple_transaction) (use triple_migration_body [OF l(1)] that l(2) in auto)
  have 4: "triple (\<lambda>d. al = map fst l \<and> d = logged_db d0) (apply_migrations al MIGRATIONS []) ?Q ?E" for al
  proof (cases "al = map fst l")
    case al: True
    show ?thesis
    proof (cases "schema d0")
      case True
      then show ?thesis using al l(2) by (auto simp: MIGRATIONS_def intro!: triple_ret)
    next
      case False
      then have "''0001_init'' \<notin> set al" using al l(2) by simp
      then have e: "apply_migrations al MIGRATIONS [] = andthen (transaction Sqlite
          (andthen (run_migration_sql ''0001_init'' init_sql) (\<lambda>_. andthen now_millis (\<lambda>now. log_migration ''0001_init'' now))))
          (\<lambda>_. ret [''0001_init''])"
        by (simp add: MIGRATIONS_def)
      show ?thesis unfolding e
        by (rule triple_weaken [OF triple_andthen [OF 3 [OF False] triple_ret [of _ ?Q]]]) (use False in auto)
    qed
  qed (simp add: triple_def)
  show ?thesis unfolding migrate_def by (rule triple_andthen [OF 1], rule triple_andthen [OF 2], rule 4)
qed



section \<open>The invariant of the file\<close>

text \<open>
  C3. Every file the storage engine can produce is well formed: starting from a new file, after
  any sequence of calls, under any faults and any clock, keys are unique, states and kinds are
  valid, every event, binding and request belongs to a workflow, every workflow's ring is a gapless
  window of at most 5000 events and 10 MiB (or one event) ending at the high-water mark, the
  truncation mark counts exactly the dropped events, and the outbox has a row for every number.
\<close>

theorem storage_reachable_wf: "storage_step\<^sup>*\<^sup>* fresh_db d \<Longrightarrow> wf_db d"
  by (rule wf_reachable)

theorem storage_reachable_wf_witness:
  "\<exists>w'. migrate (calm_world fresh_db) = (Inr [''0001_init''], w') \<and> wf_db (db w')"
proof -
  obtain w' where run: "migrate (calm_world fresh_db) = (Inr [''0001_init''], w')"
    by (simp add: migrate_def io_simps create_migrations_log_def applied_names_def MIGRATIONS_def
        run_migration_sql_def log_migration_def fresh_db_def init_sql_def)
  then have "storage_step fresh_db (db w')" using step_migrate [OF run] by simp
  then show ?thesis using storage_reachable_wf run by blast
qed

end
