(* ===== verification/Requests.thy ===== *)
theory Requests
  imports Storage_Contracts
begin

text \<open>
  The interface that the input router and the permission manager rely on: a store of single-use
  requests. Whatever is resolved once is settled for good, and a settled request cannot be
  resolved. The storage engine provides it.
\<close>

section \<open>Single-use requests\<close>

locale once_store =
  fixes run :: "'d \<Rightarrow> 'd \<Rightarrow> bool"
    and ok :: "'d \<Rightarrow> bool"
    and settled :: "'d \<Rightarrow> string \<Rightarrow> bool"
    and resolve :: "string \<Rightarrow> string \<Rightarrow> ('d, 'e, unit) io"
  assumes run_ok: "run d d' \<Longrightarrow> ok d \<Longrightarrow> ok d'"
    and settled_stays: "run d d' \<Longrightarrow> ok d \<Longrightarrow> settled d k \<Longrightarrow> settled d' k"
    and resolve_runs: "moves run (resolve k p)"
    and resolve_settles: "ok (db w) \<Longrightarrow> resolve k p w = (Inr u, w') \<Longrightarrow> settled (db w') k"
    and settled_refuses: "ok (db w) \<Longrightarrow> settled (db w) k \<Longrightarrow> resolve k p w \<noteq> (Inr u, w')"
begin

lemma resolved_once:
  assumes "ok (db w)" "resolve k p w = (Inr u, w1)" "run (db w1) (db w2)"
  shows "resolve k q w2 \<noteq> (Inr v, w3)"
proof -
  have ok1: "ok (db w1)" using assms(1) movesD [OF resolve_runs assms(2)] by (rule run_ok [rotated])
  then have "settled (db w2) k" using assms settled_stays resolve_settles by blast
  then show ?thesis using run_ok [OF assms(3) ok1] by (intro settled_refuses)
qed

end

definition settled :: "database \<Rightarrow> string \<Rightarrow> bool" where
  "settled d rid \<longleftrightarrow> (case find_request d rid of None \<Rightarrow> False | Some r \<Rightarrow> pr_state r \<noteq> 1)"

lemma settled_run:
  assumes "storage_run d d'" "wf_db d" "settled d k"
  shows "settled d' k"
proof -
  obtain r where r: "find_request d k = Some r" "pr_state r \<noteq> 1"
    using assms(3) by (auto simp: settled_def split: option.splits)
  obtain r' where "find_request d' k = Some r'" "request_le r r'" using assms(1,2) r(1) by (rule run_request)
  then show ?thesis using r(2) by (auto simp: settled_def request_le_def)
qed

lemma resolve_settled:
  assumes "wf_db (db w)" "resolve_pending_request k p w = (Inr u, w')"
  shows "settled (db w') k" "\<not> settled (db w) k"
  using resolve_okE [OF assms(2,1)] by (fastforce simp: settled_def)+

interpretation requests: once_store storage_run wf_db settled resolve_pending_request
proof
  show "storage_run d d' \<Longrightarrow> wf_db d \<Longrightarrow> wf_db d'" for d d' by (rule run_wf)
  show "storage_run d d' \<Longrightarrow> wf_db d \<Longrightarrow> settled d k \<Longrightarrow> settled d' k" for d d' k by (rule settled_run)
  show "moves storage_run (resolve_pending_request k p)" for k p by (rule runs_storage)
  show "wf_db (db w) \<Longrightarrow> resolve_pending_request k p w = (Inr u, w') \<Longrightarrow> settled (db w') k"
    for w :: "database world" and k p u w' by (rule resolve_settled)
  show "wf_db (db w) \<Longrightarrow> settled (db w) k \<Longrightarrow> resolve_pending_request k p w \<noteq> (Inr u, w')"
    for w :: "database world" and k p u w' using resolve_settled(2) by blast
qed

section \<open>The calls in a healthy engine\<close>

lemma stmt_quiet:
  "quiet w \<Longrightarrow> schema (db w) \<Longrightarrow> stmt f w = (case f (db w) of
      Inl e \<Rightarrow> (Inl (Sqlite e), w\<lparr>stmt_no := stmt_no w + 1\<rparr>)
    | Inr (x, d) \<Rightarrow> (Inr x, w\<lparr>stmt_no := stmt_no w + 1, db := d\<rparr>))"
  by (simp add: stmt_def io_simps split: sum.splits prod.splits)

text \<open>What a resolve answers, by the row it finds and the clock it reads.\<close>

definition resolve_answer :: "database \<Rightarrow> int \<Rightarrow> string \<Rightarrow> StorageError + unit" where
  "resolve_answer d now rid = (case find_request d rid of
       None \<Rightarrow> Inl (NotFound (''request '' @ rid))
     | Some r \<Rightarrow> if pr_state r = 1 then (if overdue now r then Inl (StorageError.Expired rid) else Inr ())
                else if pr_state r = 3 then Inl (StorageError.Expired rid) else Inl (AlreadyResolved rid))"

definition world_now :: "'d world \<Rightarrow> int" where
  "world_now w = (if clock_at w (clock_no w) < 0 then 0 else as_i64 (clock_at w (clock_no w)))"

lemma now_millis_world: "now_millis w = (Inr (world_now w), w\<lparr>clock_no := clock_no w + 1\<rparr>)"
  by (simp add: world_now_def now_millis_apply)

lemma resolve_quiet:
  assumes "quiet w" "schema (db w)" "wf_db (db w)"
  shows "\<exists>w'. resolve_pending_request rid payload w = (resolve_answer (db w) (world_now w) rid, w') \<and> quiet w' \<and> schema (db w')"
proof -
  let ?now = "world_now w"
  obtain d1 where d1: "expire_one rid ?now (db w) = Inr ((), d1)" by (simp add: expire_one_def)
  obtain n d2 where d2: "resolve_one rid ?now payload d1 = Inr (n, d2)" by (simp add: resolve_one_def Let_def)
  have sch: "schema d1" "schema d2" using d1 d2 assms(2) by (auto simp: expire_one_def resolve_one_def Let_def)
  have "distinct (map pr_request_id (t_requests d1))"
    using expire_one_ids [OF d1] wf_requests_distinct [OF assms(3)] by simp
  note n = resolve_one_count [OF d2 this]
  note f1 = find_request_expire_one [OF d1, of rid] and f2 = find_request_resolve_one [OF d2, of rid]
  show ?thesis
    unfolding resolve_pending_request_def andthen_apply [of now_millis] now_millis_world
    using assms(1,2) sch n f1 f2 find_request_id [of "db w" rid]
    by (cases "find_request (db w) rid")
       (auto simp: andthen_apply stmt_quiet query_def d1 d2 resolve_answer_def ret_apply fail_apply overdue_def
          split: if_splits)
qed

lemma create_request_quiet:
  assumes "quiet w" "schema (db w)" "find_workflow (db w) wid \<noteq> None"
  shows "\<exists>w'. create_pending_request rid wid k x w =
      (if find_request (db w) rid = None then Inr () else Inl (Sqlite ConstraintViolation), w') \<and> quiet w' \<and> schema (db w') \<and>
      (find_request (db w) rid \<noteq> None \<longrightarrow> db w' = db w) \<and>
      (find_request (db w) rid = None \<longrightarrow> find_request (db w') rid =
         Some \<lparr>pr_request_id = rid, pr_workflow_id = wid, pr_kind = RequestKind_i32 k, pr_state = 1,
          pr_created_at_millis = world_now w, pr_expires_at_millis = x, pr_resolved_at_millis = None,
          pr_resolve_payload = None\<rparr>)"
proof -
  have k: "RequestKind_i32 k \<in> {1, 2}" by (cases k) auto
  show ?thesis using assms k
    unfolding create_pending_request_def
    by (auto simp: andthen_apply get_workflow_def query_def stmt_quiet now_millis_world insert_request_def find_request_def
        world_now_def split: option.splits)
qed

lemma insert_request_InrD: "insert_request r d = Inr (u, d') \<Longrightarrow> d' = d\<lparr>t_requests := t_requests d @ [r]\<rparr>"
  by (auto simp: insert_request_def split: if_splits)

text \<open>A create that succeeded found no row under the key.\<close>

lemma create_request_okD:
  assumes "create_pending_request rid wid k x w = (Inr u, w')"
  shows "find_request (db w) rid = None" "find_workflow (db w) wid \<noteq> None" "schema (db w)"
    "\<exists>now. find_request (db w') rid = Some \<lparr>pr_request_id = rid, pr_workflow_id = wid, pr_kind = RequestKind_i32 k,
       pr_state = 1, pr_created_at_millis = now, pr_expires_at_millis = x, pr_resolved_at_millis = None,
       pr_resolve_payload = None\<rparr>"
proof -
  obtain f w1 where f: "get_workflow wid w = (Inr f, w1)" "(case f of
       None \<Rightarrow> fail (NotFound (''workflow '' @ wid))
     | Some _ \<Rightarrow>
       andthen now_millis (\<lambda>now.
       stmt (insert_request
         \<lparr>pr_request_id = rid, pr_workflow_id = wid, pr_kind = RequestKind_i32 k,
          pr_state = 1, pr_created_at_millis = now, pr_expires_at_millis = x,
          pr_resolved_at_millis = None, pr_resolve_payload = None\<rparr>))) w1 = (Inr u, w')"
    using assms unfolding create_pending_request_def by (rule andthen_okE)
  have w1: "db w1 = db w" "f = find_workflow (db w) wid" "schema (db w)"
    using f(1) by (auto elim: get_workflow_okE)
  obtain r where r: "f = Some r"
  proof (cases f)
    case None
    then show ?thesis using f(2) by (simp add: fail_def)
  qed (rule that)
  obtain now where i: "insert_request \<lparr>pr_request_id = rid, pr_workflow_id = wid, pr_kind = RequestKind_i32 k,
          pr_state = 1, pr_created_at_millis = now, pr_expires_at_millis = x,
          pr_resolved_at_millis = None, pr_resolve_payload = None\<rparr> (db w) = Inr (u, db w')"
  proof -
    have "stmt (insert_request \<lparr>pr_request_id = rid, pr_workflow_id = wid, pr_kind = RequestKind_i32 k,
          pr_state = 1, pr_created_at_millis = world_now w1, pr_expires_at_millis = x,
          pr_resolved_at_millis = None, pr_resolve_payload = None\<rparr>) (w1\<lparr>clock_no := clock_no w1 + 1\<rparr>) = (Inr u, w')"
      using f(2) r by (simp add: andthen_apply now_millis_world)
    then show ?thesis using that w1(1) by (elim stmt_okE) simp
  qed
  show "find_request (db w) rid = None" "find_workflow (db w) wid \<noteq> None" "schema (db w)"
    using i w1 by (auto simp: insert_request_def split: if_splits)
  have "t_requests (db w') = t_requests (db w) @ [\<lparr>pr_request_id = rid, pr_workflow_id = wid, pr_kind = RequestKind_i32 k,
          pr_state = 1, pr_created_at_millis = now, pr_expires_at_millis = x,
          pr_resolved_at_millis = None, pr_resolve_payload = None\<rparr>]"
    using insert_request_InrD [OF i] by simp
  then show "\<exists>now. find_request (db w') rid = Some \<lparr>pr_request_id = rid, pr_workflow_id = wid, pr_kind = RequestKind_i32 k,
       pr_state = 1, pr_created_at_millis = now, pr_expires_at_millis = x, pr_resolved_at_millis = None,
       pr_resolve_payload = None\<rparr>"
    using \<open>find_request (db w) rid = None\<close> by (simp add: find_request_def)
qed

end
