(* ===== verification/Permission.thy ===== *)
theory Permission
  imports Requests "HOL-Library.AList"
begin

text \<open>
  calcar-adapters/src/permission.rs: the approval permission manager. The map behind its mutex is
  an association list with one entry per key; the mutex is never poisoned, because no code
  panics while it is held. The durable state is the pending requests of the storage engine.
\<close>

section \<open>Verdicts\<close>

datatype ApprovalDecision = Allow | Reject

datatype ApprovalOutcome = Applied | Duplicate | Expired | Unknown

section \<open>The manager\<close>

record PendingEntry =
  pe_workflow_id :: string
  pe_request_id :: string
  pe_device_id :: string
  pe_summary :: string
  pe_expires_at_millis :: int
  pe_resolved :: bool

type_synonym permission_map = "(string \<times> PendingEntry) list"

definition permission_new :: permission_map where
  "permission_new = []"

definition namespaced_key :: "string \<Rightarrow> string \<Rightarrow> string" where
  "namespaced_key workflow_id request_id = workflow_id @ '':'' @ request_id"

fun decision_word :: "ApprovalDecision \<Rightarrow> string" where
  "decision_word Allow = ''allow''"
| "decision_word Reject = ''reject''"

text \<open>\<open>ttl\<close> is the duration's millisecond count, a \<open>u128\<close>.\<close>

definition permission_request ::
  "permission_map \<Rightarrow> string \<Rightarrow> string \<Rightarrow> string \<Rightarrow> string \<Rightarrow> int \<Rightarrow> permission_map store_io" where
  "permission_request pending workflow_id request_id device_id summary ttl =
     (if workflow_id = [] \<or> request_id = [] \<or> device_id = [] then
        fail (InvalidState ''workflow_id, request_id, and device_id must be non-empty'')
      else
        let ttl_millis = min ttl i64_max in
        andthen now_millis (\<lambda>now.
        let expires_at_millis = saturating_add_i64 now ttl_millis;
            key = namespaced_key workflow_id request_id in
        andthen (create_pending_request key workflow_id Approval (Some expires_at_millis)) (\<lambda>_.
        ret (AList.update key
          \<lparr>pe_workflow_id = workflow_id, pe_request_id = request_id, pe_device_id = device_id,
           pe_summary = summary, pe_expires_at_millis = expires_at_millis, pe_resolved = False\<rparr> pending))))"

text \<open>The namespaced key itself, or the key of the only tracked request with that bare id.\<close>

definition tracked_key :: "permission_map \<Rightarrow> string \<Rightarrow> string option" where
  "tracked_key pending request_id =
     (if map_of pending request_id \<noteq> None then Some request_id
      else case filter (\<lambda>(key, entry). pe_request_id entry = request_id) pending of
             [(key, entry)] \<Rightarrow> Some key
           | _ \<Rightarrow> None)"

definition mark_resolved :: "string \<Rightarrow> permission_map \<Rightarrow> permission_map" where
  "mark_resolved key pending = (case map_of pending key of
       None \<Rightarrow> pending | Some entry \<Rightarrow> AList.update key (entry\<lparr>pe_resolved := True\<rparr>) pending)"

definition verdict_payload :: "ApprovalDecision \<Rightarrow> PendingEntry \<Rightarrow> string" where
  "verdict_payload decision entry = decision_word decision @ '':'' @ pe_summary entry"

text \<open>The \<open>match\<close> on what storage answered.\<close>

definition apply_verdict ::
  "permission_map \<Rightarrow> string \<Rightarrow> string \<Rightarrow> (ApprovalOutcome \<times> permission_map) store_io" where
  "apply_verdict pending key payload =
     attempt (resolve_pending_request key payload) (\<lambda>answer. case answer of
       Inr _ \<Rightarrow> ret (Applied, mark_resolved key pending)
     | Inl error \<Rightarrow>
         (case error of
            AlreadyResolved _ \<Rightarrow> ret (Duplicate, mark_resolved key pending)
          | StorageError.Expired _ \<Rightarrow> ret (ApprovalOutcome.Expired, pending)
          | NotFound _ \<Rightarrow> ret (Unknown, pending)
          | other \<Rightarrow> fail other))"

definition permission_resolve ::
  "permission_map \<Rightarrow> string \<Rightarrow> string \<Rightarrow> ApprovalDecision \<Rightarrow> (ApprovalOutcome \<times> permission_map) store_io" where
  "permission_resolve pending request_id device_id decision =
     (case tracked_key pending request_id of
        None \<Rightarrow> ret (Unknown, pending)
      | Some key \<Rightarrow>
          (case map_of pending key of
             None \<Rightarrow> fail (InvalidState ''permission map changed mid-resolve'')
           | Some entry \<Rightarrow>
               if pe_device_id entry \<noteq> device_id then ret (Unknown, pending)
               else if pe_resolved entry then ret (Duplicate, pending)
               else apply_verdict pending key (verdict_payload decision entry)))"

definition sweep_expired :: "int store_io" where
  "sweep_expired = andthen expire_pending_requests (\<lambda>flipped. ret (max flipped 0))"

definition pending_for :: "permission_map \<Rightarrow> string \<Rightarrow> string list store_io" where
  "pending_for pending workflow_id =
     andthen now_millis (\<lambda>now.
     ret (sort (map (\<lambda>(key, entry). pe_request_id entry)
       (filter (\<lambda>(key, entry). pe_workflow_id entry = workflow_id \<and> \<not> pe_resolved entry
                  \<and> pe_expires_at_millis entry > now) pending))))"

section \<open>What a resolve did\<close>

lemma runs_apply_verdict [moves_intros]: "moves storage_run (apply_verdict pending key payload)"
  unfolding apply_verdict_def
proof (rule moves_attempt [OF transp_run runs_storage(8)])
  fix r :: "StorageError + unit"
  show "moves storage_run (case r of
       Inr _ \<Rightarrow> ret (Applied, mark_resolved key pending)
     | Inl error \<Rightarrow>
         (case error of
            AlreadyResolved _ \<Rightarrow> ret (Duplicate, mark_resolved key pending)
          | StorageError.Expired _ \<Rightarrow> ret (ApprovalOutcome.Expired, pending)
          | NotFound _ \<Rightarrow> ret (Unknown, pending)
          | other \<Rightarrow> fail other))"
    by (auto split: sum.split StorageError.split intro: moves_ret moves_fail)
qed

lemma runs_permission [moves_intros]:
  "moves storage_run (permission_request pending wid rid dev summary ttl)"
  "moves storage_run (permission_resolve pending rid dev decision)"
  "moves storage_run sweep_expired"
  unfolding permission_request_def permission_resolve_def sweep_expired_def Let_def
  by (intro moves_intros reflp_run transp_run)+

lemma apply_verdict_Applied:
  assumes "apply_verdict pending key payload w = (Inr (Applied, pending'), w')"
  shows "resolve_pending_request key payload w = (Inr (), w')" "pending' = mark_resolved key pending"
proof -
  obtain r w1 where r: "resolve_pending_request key payload w = (r, w1)" by fastforce
  have "r = Inr () \<and> w1 = w' \<and> pending' = mark_resolved key pending"
  proof (cases r)
    case (Inr u)
    then show ?thesis using assms r by (auto simp: apply_verdict_def attempt_apply ret_apply)
  next
    case (Inl e)
    then show ?thesis using assms r by (cases e) (auto simp: apply_verdict_def attempt_apply ret_apply fail_apply)
  qed
  then show "resolve_pending_request key payload w = (Inr (), w')" "pending' = mark_resolved key pending"
    using r by auto
qed

lemma permission_AppliedE:
  assumes "permission_resolve pending rid dev decision w = (Inr (Applied, pending'), w')"
  obtains key entry where "tracked_key pending rid = Some key" "map_of pending key = Some entry"
    "pe_device_id entry = dev" "\<not> pe_resolved entry" "pending' = mark_resolved key pending"
    "resolve_pending_request key (verdict_payload decision entry) w = (Inr (), w')"
  using assms apply_verdict_Applied
  by (auto simp: permission_resolve_def ret_apply fail_apply split: option.splits if_splits)

text \<open>
  A verdict of a device that does not own the request changes nothing: unless the id names a
  tracked request bound to the calling device, the answer is \<open>Unknown\<close> and neither the file nor
  the manager's map changes, so the owner can still decide.
\<close>

theorem permission_bound_to_device:
  assumes "\<forall>key entry. tracked_key pending rid = Some key \<longrightarrow> map_of pending key = Some entry \<longrightarrow> pe_device_id entry \<noteq> dev"
    "\<forall>key. tracked_key pending rid = Some key \<longrightarrow> map_of pending key \<noteq> None"
  shows "permission_resolve pending rid dev decision w = (Inr (Unknown, pending), w)"
  using assms by (auto simp: permission_resolve_def ret_apply split: option.splits)

theorem permission_bound_to_device_witness:
  "permission_resolve [(''w1:q'', \<lparr>pe_workflow_id = ''w1'', pe_request_id = ''q'', pe_device_id = ''phone'', pe_summary = ''s'',
      pe_expires_at_millis = 5000, pe_resolved = False\<rparr>)] ''q'' ''other'' Allow (calm_world sample_db)
   = (Inr (Unknown, [(''w1:q'', \<lparr>pe_workflow_id = ''w1'', pe_request_id = ''q'', pe_device_id = ''phone'', pe_summary = ''s'',
      pe_expires_at_millis = 5000, pe_resolved = False\<rparr>)]), calm_world sample_db)"
  by (rule permission_bound_to_device) (simp_all add: tracked_key_def)

text \<open>
  C20. One verdict per request, for good. When a verdict is applied, the calling device owned the
  request, the stored answer is that verdict with the request's summary, and no later verdict on
  the same key is applied, whatever ran in between and whatever manager asks.
\<close>

theorem permission_single_verdict:
  assumes "wf_db (db w)" "permission_resolve pending rid dev decision w = (Inr (Applied, pending'), w1)"
    "storage_run (db w1) (db w2)"
  shows "\<exists>key entry. tracked_key pending rid = Some key \<and> map_of pending key = Some entry \<and> pe_device_id entry = dev \<and>
    (\<exists>r. find_request (db w2) key = Some r \<and> pr_resolve_payload r = Some (verdict_payload decision entry)) \<and>
    (\<forall>pending2 rid2 dev2 decision2 pending3 w3. tracked_key pending2 rid2 = Some key \<longrightarrow>
       permission_resolve pending2 rid2 dev2 decision2 w2 \<noteq> (Inr (Applied, pending3), w3))"
proof -
  obtain key entry where k: "tracked_key pending rid = Some key" "map_of pending key = Some entry" "pe_device_id entry = dev"
    "resolve_pending_request key (verdict_payload decision entry) w = (Inr (), w1)"
    using assms(2) by (rule permission_AppliedE)
  obtain r now where r: "find_request (db w1) key = Some (r\<lparr>pr_state := 2, pr_resolved_at_millis := Some now,
        pr_resolve_payload := Some (verdict_payload decision entry)\<rparr>)"
    using k(4) assms(1) by (rule resolve_okE)
  have wf1: "wf_db (db w1)" using run_wf [OF movesD [OF runs_storage(8) k(4)] assms(1)] .
  obtain r2 where "find_request (db w2) key = Some r2" "request_le (r\<lparr>pr_state := 2, pr_resolved_at_millis := Some now,
        pr_resolve_payload := Some (verdict_payload decision entry)\<rparr>) r2"
    using assms(3) wf1 r by (rule run_request)
  then have stored: "\<exists>r. find_request (db w2) key = Some r \<and> pr_resolve_payload r = Some (verdict_payload decision entry)"
    by (auto simp: request_le_def)
  have "permission_resolve pending2 rid2 dev2 decision2 w2 \<noteq> (Inr (Applied, pending3), w3)"
    if "tracked_key pending2 rid2 = Some key" for pending2 rid2 dev2 decision2 pending3 w3
    using permission_AppliedE [of pending2 rid2 dev2 decision2 w2 pending3 w3] that
      requests.resolved_once [OF assms(1) k(4) assms(3)] by (metis option.inject)
  then show ?thesis using k(1-3) stored by blast
qed

definition phone_map :: permission_map where
  "phone_map = [(''q'', \<lparr>pe_workflow_id = ''w1'', pe_request_id = ''q'', pe_device_id = ''phone'', pe_summary = ''s'',
      pe_expires_at_millis = 5000, pe_resolved = False\<rparr>)]"

lemma phone_applied:
  obtains pending' w1 where "permission_resolve phone_map ''q'' ''phone'' Allow (calm_world asking_db) = (Inr (Applied, pending'), w1)"
proof -
  have "resolve_answer asking_db (world_now (calm_world asking_db)) ''q'' = Inr ()"
    by (simp add: resolve_answer_def find_request_def asking_db_def overdue_def world_now_def as_i64_def)
  moreover have "schema asking_db" by (simp add: asking_db_def)
  ultimately obtain w1 where "resolve_pending_request ''q'' ''allow:s'' (calm_world asking_db) = (Inr (), w1)"
    using resolve_quiet [of "calm_world asking_db" "''q''" "''allow:s''"] by auto
  then show ?thesis using that
    by (simp add: permission_resolve_def tracked_key_def phone_map_def apply_verdict_def verdict_payload_def
        attempt_apply ret_apply)
qed

theorem permission_single_verdict_witness:
  "\<exists>pending' w1. permission_resolve phone_map ''q'' ''phone'' Allow (calm_world asking_db) = (Inr (Applied, pending'), w1) \<and>
     (\<forall>pending3 w3. permission_resolve phone_map ''q'' ''phone'' Reject w1 \<noteq> (Inr (Applied, pending3), w3))"
proof -
  obtain pending' w1 where a: "permission_resolve phone_map ''q'' ''phone'' Allow (calm_world asking_db) = (Inr (Applied, pending'), w1)"
    by (rule phone_applied)
  have t: "tracked_key phone_map ''q'' = Some ''q''" by (simp add: tracked_key_def phone_map_def)
  show ?thesis
    using permission_single_verdict [OF _ a, of w1] a t by (auto simp: storage_run_def)
qed

section \<open>The map and the file agree\<close>

definition entry_ok :: "database \<Rightarrow> string \<Rightarrow> PendingEntry \<Rightarrow> bool" where
  "entry_ok d key entry \<longleftrightarrow> key = namespaced_key (pe_workflow_id entry) (pe_request_id entry) \<and>
     (case find_request d key of None \<Rightarrow> False
      | Some r \<Rightarrow> pr_workflow_id r = pe_workflow_id entry \<and> pr_kind r = 2 \<and>
          pr_expires_at_millis r = Some (pe_expires_at_millis entry) \<and> (pe_resolved entry \<longrightarrow> pr_state r \<noteq> 1))"

definition map_ok :: "permission_map \<Rightarrow> database \<Rightarrow> bool" where
  "map_ok pending d \<longleftrightarrow> distinct (map fst pending) \<and> (\<forall>key entry. map_of pending key = Some entry \<longrightarrow> entry_ok d key entry)"

text \<open>The manager in its environment: its own calls, other storage calls, and restarts.\<close>

inductive permission_step :: "permission_map \<times> database \<Rightarrow> permission_map \<times> database \<Rightarrow> bool" where
  ask: "permission_request p wid rid dev summary ttl w = (Inr p', w') \<Longrightarrow> permission_step (p, db w) (p', db w')"
| ask_fails: "permission_request p wid rid dev summary ttl w = (Inl e, w') \<Longrightarrow> permission_step (p, db w) (p, db w')"
| decide: "permission_resolve p rid dev decision w = (Inr (outcome, p'), w') \<Longrightarrow> permission_step (p, db w) (p', db w')"
| decide_fails: "permission_resolve p rid dev decision w = (Inl e, w') \<Longrightarrow> permission_step (p, db w) (p, db w')"
| elsewhere: "storage_run d d' \<Longrightarrow> permission_step (p, d) (p, d')"
| restart: "permission_step (p, d) (permission_new, d)"

fun permission_inv :: "permission_map \<times> database \<Rightarrow> bool" where
  "permission_inv (p, d) \<longleftrightarrow> wf_db d \<and> map_ok p d"

lemma entry_ok_run:
  assumes "storage_run d d'" "wf_db d" "entry_ok d key entry"
  shows "entry_ok d' key entry"
proof -
  obtain r where r: "find_request d key = Some r" using assms(3) by (auto simp: entry_ok_def split: option.splits)
  obtain r' where "find_request d' key = Some r'" "request_le r r'" using assms(1,2) r by (rule run_request)
  then show ?thesis using assms(3) r by (auto simp: entry_ok_def request_le_def)
qed

lemma map_ok_run: "storage_run d d' \<Longrightarrow> wf_db d \<Longrightarrow> map_ok p d \<Longrightarrow> map_ok p d'"
  using entry_ok_run by (auto simp: map_ok_def)

lemma map_ok_update:
  assumes "map_ok p d" "entry_ok d key entry"
  shows "map_ok (AList.update key entry p) d"
  using assms by (auto simp: map_ok_def update_conv' distinct_update split: if_splits)

lemma request_okE:
  assumes "permission_request p wid rid dev summary ttl w = (Inr p', w')"
  obtains now where "entry_ok (db w') (namespaced_key wid rid)
      \<lparr>pe_workflow_id = wid, pe_request_id = rid, pe_device_id = dev, pe_summary = summary,
       pe_expires_at_millis = saturating_add_i64 now (min ttl i64_max), pe_resolved = False\<rparr>"
    "p' = AList.update (namespaced_key wid rid) \<lparr>pe_workflow_id = wid, pe_request_id = rid, pe_device_id = dev,
       pe_summary = summary, pe_expires_at_millis = saturating_add_i64 now (min ttl i64_max), pe_resolved = False\<rparr> p"
proof -
  let ?k = "namespaced_key wid rid" and ?x = "\<lambda>now. saturating_add_i64 now (min ttl i64_max)"
  have "\<not> (wid = [] \<or> rid = [] \<or> dev = [])" using assms by (auto simp: permission_request_def fail_def)
  then have "andthen (create_pending_request ?k wid Approval (Some (?x (world_now w)))) (\<lambda>_.
        ret (AList.update ?k \<lparr>pe_workflow_id = wid, pe_request_id = rid, pe_device_id = dev,
           pe_summary = summary, pe_expires_at_millis = ?x (world_now w), pe_resolved = False\<rparr> p))
       (w\<lparr>clock_no := clock_no w + 1\<rparr>) = (Inr p', w')"
    using assms by (simp add: permission_request_def Let_def andthen_apply [of now_millis] now_millis_world)
  then obtain u w1 where c: "create_pending_request ?k wid Approval (Some (?x (world_now w))) (w\<lparr>clock_no := clock_no w + 1\<rparr>) = (Inr u, w1)"
    and p: "w1 = w'" "p' = AList.update ?k \<lparr>pe_workflow_id = wid, pe_request_id = rid, pe_device_id = dev,
           pe_summary = summary, pe_expires_at_millis = ?x (world_now w), pe_resolved = False\<rparr> p"
    by (elim andthen_okE) (simp add: ret_apply)
  show ?thesis using that [of "world_now w"] create_request_okD(4) [OF c] p by (auto simp: entry_ok_def)
qed

lemma triple_stmt:
  assumes "\<And>d x d'. P d \<Longrightarrow> f d = Inr (x, d') \<Longrightarrow> Q x d'" "\<And>d e. P d \<Longrightarrow> E (Sqlite e) d"
  shows "triple P (stmt f) Q E"
  unfolding stmt_def by (intro triple_map_err triple_sql) (use assms in \<open>auto split: if_splits\<close>)

definition not_pending :: "database \<Rightarrow> string \<Rightarrow> bool" where
  "not_pending d key \<longleftrightarrow> (\<forall>r. find_request d key = Some r \<longrightarrow> pr_state r \<noteq> 1)"

lemma resolve_one_not_pending: "resolve_one key now payload d = Inr (n, d') \<Longrightarrow> not_pending d' key"
proof -
  assume res: "resolve_one key now payload d = Inr (n, d')"
  show ?thesis
  proof (cases "find_request d key")
    case None
    then show ?thesis using find_request_resolve_one [OF res, of key] by (simp add: not_pending_def)
  next
    case (Some z)
    then show ?thesis using find_request_resolve_one [OF res, of key] find_request_id [OF Some]
      by (simp add: not_pending_def)
  qed
qed

lemma triple_AlreadyResolved:
  "triple (\<lambda>_. True) (resolve_pending_request key payload) (\<lambda>_ _. True) (\<lambda>e d. (\<exists>x. e = AlreadyResolved x) \<longrightarrow> settled d key)"
  (is "triple _ _ ?T ?E")
  unfolding resolve_pending_request_def
proof (rule triple_andthen [where R = "\<lambda>_ _. True"], rule triple_now_millis, simp,
    rule triple_andthen [where R = "\<lambda>_ _. True"], rule triple_stmt, simp, simp,
    rule triple_andthen [where R = "\<lambda>_ d. not_pending d key"], rule triple_stmt, erule resolve_one_not_pending, simp)
  fix n :: nat
  have "triple (\<lambda>d. not_pending d key) (query (\<lambda>d. map_option pr_state (find_request d key)))
      (\<lambda>st d. not_pending d key \<and> st = map_option pr_state (find_request d key)) ?E"
    unfolding query_def by (rule triple_stmt) auto
  moreover have "triple (\<lambda>d. not_pending d key \<and> st = map_option pr_state (find_request d key)) (case st of
         Some s \<Rightarrow> if s = 3 then fail (StorageError.Expired key) else fail (AlreadyResolved key)
       | None \<Rightarrow> fail (NotFound (''request '' @ key))) ?T ?E" for st :: "int option"
    by (cases st) (auto intro!: triple_fail simp: settled_def not_pending_def split: option.split)
  ultimately have "triple (\<lambda>d. not_pending d key) (andthen (query (\<lambda>d. map_option pr_state (find_request d key))) (\<lambda>state.
       case state of
         Some s \<Rightarrow> if s = 3 then fail (StorageError.Expired key) else fail (AlreadyResolved key)
       | None \<Rightarrow> fail (NotFound (''request '' @ key)))) ?T ?E"
    by (rule triple_andthen)
  then show "triple (\<lambda>d. not_pending d key) (if n = 1 then ret ()
     else andthen (query (\<lambda>d. map_option pr_state (find_request d key))) (\<lambda>state.
       case state of
         Some s \<Rightarrow> if s = 3 then fail (StorageError.Expired key) else fail (AlreadyResolved key)
       | None \<Rightarrow> fail (NotFound (''request '' @ key)))) ?T ?E"
    by (cases "n = 1") (simp_all only: if_P if_not_P triple_ret simp_thms)
qed

lemma resolve_AlreadyResolvedD:
  assumes "resolve_pending_request key payload w = (Inl (AlreadyResolved x), w')"
  shows "settled (db w') key"
proof -
  have "case resolve_pending_request key payload w of (Inl e, w') \<Rightarrow> (\<exists>x. e = AlreadyResolved x) \<longrightarrow> settled (db w') key
      | (Inr _, w') \<Rightarrow> True"
    using triple_AlreadyResolved [of key payload] by (simp add: triple_def)
  then show ?thesis using assms by simp
qed

lemma entry_ok_resolved: "entry_ok d key entry \<Longrightarrow> settled d key \<Longrightarrow> entry_ok d key (entry\<lparr>pe_resolved := True\<rparr>)"
  by (auto simp: entry_ok_def settled_def split: option.splits)

lemma map_ok_mark: "map_ok p d \<Longrightarrow> settled d key \<Longrightarrow> map_ok (mark_resolved key p) d"
  by (auto simp: mark_resolved_def split: option.splits intro!: map_ok_update entry_ok_resolved)
     (auto simp: map_ok_def)

lemma resolve_map_ok:
  assumes "wf_db (db w)" "map_ok p (db w)" "permission_resolve p rid dev decision w = (Inr (outcome, p'), w')"
  shows "map_ok p' (db w')"
proof -
  have run: "map_ok p (db w')" using map_ok_run [OF movesD [OF runs_permission(2) assms(3)] assms(1,2)] .
  show ?thesis
  proof (cases "p' = p")
    case False
    then obtain key payload where a: "apply_verdict p key payload w = (Inr (outcome, p'), w')"
      using assms(3) by (auto simp: permission_resolve_def ret_apply fail_apply split: option.splits if_splits)
    obtain r w1 where r: "resolve_pending_request key payload w = (r, w1)" by fastforce
    have "p' = mark_resolved key p \<and> settled (db w') key"
    proof (cases r)
      case (Inr u)
      then show ?thesis using a r resolve_settled(1) [OF assms(1)] by (auto simp: apply_verdict_def attempt_apply ret_apply)
    next
      case (Inl e)
      then show ?thesis using a r False resolve_AlreadyResolvedD
        by (cases e) (auto simp: apply_verdict_def attempt_apply ret_apply fail_apply)
    qed
    then show ?thesis using run map_ok_mark by blast
  qed (use run in simp)
qed

interpretation permits: invariant_system permission_step permission_inv
proof
  fix s t
  assume "permission_step s t" "permission_inv s"
  then show "permission_inv t"
  proof (induction rule: permission_step.induct)
    case (ask p wid rid dev summary ttl w p' w')
    have run: "storage_run (db w) (db w')" using runs_permission(1) ask(1) by (rule movesD)
    then have "map_ok p (db w')" using ask(2) map_ok_run by auto
    then show ?case using request_okE [OF ask(1)] map_ok_update run_wf [OF run] ask(2) by (metis permission_inv.simps)
  next
    case (ask_fails p wid rid dev summary ttl w e w')
    have "storage_run (db w) (db w')" using runs_permission(1) ask_fails(1) by (rule movesD)
    then show ?case using ask_fails(2) map_ok_run run_wf by auto
  next
    case (decide p rid dev decision w outcome p' w')
    have "storage_run (db w) (db w')" using runs_permission(2) decide(1) by (rule movesD)
    then show ?case using decide resolve_map_ok run_wf by auto
  next
    case (decide_fails p rid dev decision w e w')
    have "storage_run (db w) (db w')" using runs_permission(2) decide_fails(1) by (rule movesD)
    then show ?case using decide_fails(2) map_ok_run run_wf by auto
  next
    case (elsewhere d d' p)
    then show ?case using map_ok_run run_wf by auto
  next
    case (restart p d)
    then show ?case by (simp add: permission_new_def map_ok_def)
  qed
qed

text \<open>
  C21. An approval never counts after its deadline: in every state the manager can reach from an
  empty map on a well-formed file (requests, verdicts and other storage calls interleaved in any
  order, failures and restarts included), a verdict that is applied was given before the expiry
  time the manager holds for the request, and the stored row carries that same expiry.
\<close>

theorem permission_before_deadline:
  assumes "permission_step\<^sup>*\<^sup>* (permission_new, d) (pending, db w)" "wf_db d"
    "permission_resolve pending rid dev decision w = (Inr (Applied, pending'), w')"
  shows "\<exists>key entry r. tracked_key pending rid = Some key \<and> map_of pending key = Some entry \<and>
    find_request (db w) key = Some r \<and> pr_expires_at_millis r = Some (pe_expires_at_millis entry) \<and>
    world_now w < pe_expires_at_millis entry"
proof -
  have "permission_inv (permission_new, d)" using assms(2) by (simp add: permission_new_def map_ok_def)
  with assms(1) have inv: "permission_inv (pending, db w)" by (rule permits.run_inv)
  obtain key entry where k: "tracked_key pending rid = Some key" "map_of pending key = Some entry"
    "resolve_pending_request key (verdict_payload decision entry) w = (Inr (), w')"
    using assms(3) by (rule permission_AppliedE)
  have wf: "wf_db (db w)" and e: "entry_ok (db w) key entry" using inv k(2) by (auto simp: map_ok_def)
  obtain r now where r: "find_request (db w) key = Some r" "pr_state r = 1" "\<not> overdue now r"
    "fst (now_millis w) = (Inr now :: StorageError + int)"
    using k(3) wf by (rule resolve_okE)
  have "now = world_now w" using r(4) by (simp add: now_millis_world)
  then show ?thesis using k(1,2) e r by (auto simp: entry_ok_def overdue_def)
qed

lemma phone_flow:
  "\<exists>p w1 p2 w2. permission_request permission_new ''w1'' ''q'' ''phone'' ''s'' 5000 (calm_world sample_db) = (Inr p, w1) \<and>
     permission_resolve p ''q'' ''phone'' Allow w1 = (Inr (Applied, p2), w2)"
  by (simp add: permission_request_def permission_resolve_def permission_new_def namespaced_key_def Let_def io_simps
      create_pending_request_def get_workflow_def query_def stmt_def find_workflow_def sample_db_def fresh_db_def
      insert_request_def find_request_def tracked_key_def apply_verdict_def verdict_payload_def
      resolve_pending_request_def expire_one_def resolve_one_def overdue_def saturating_add_i64_def as_i64_def
      i64_max_def i64_min_def)

theorem permission_before_deadline_witness:
  "\<exists>p w1 p2 w2 key entry. permission_request permission_new ''w1'' ''q'' ''phone'' ''s'' 5000 (calm_world sample_db) = (Inr p, w1) \<and>
     permission_resolve p ''q'' ''phone'' Allow w1 = (Inr (Applied, p2), w2) \<and>
     map_of p key = Some entry \<and> world_now w1 < pe_expires_at_millis entry"
proof -
  obtain p w1 p2 w2 where r: "permission_request permission_new ''w1'' ''q'' ''phone'' ''s'' 5000 (calm_world sample_db) = (Inr p, w1)"
    "permission_resolve p ''q'' ''phone'' Allow w1 = (Inr (Applied, p2), w2)" using phone_flow by blast
  have "permission_step\<^sup>*\<^sup>* (permission_new, sample_db) (p, db w1)"
    using permission_step.ask [OF r(1)] by simp
  from permission_before_deadline [OF this sample_db_wf r(2)] r show ?thesis by blast
qed

end
