(* ===== verification/Rust_Text.thy ===== *)
theory Rust_Text
  imports Rust_Str
begin

text \<open>
  Rust's text operations on byte strings: decoding of UTF-8 with replacement
  (\<open>String::from_utf8_lossy\<close>), Unicode white space, prefixes, splitting at a byte and into lines.
\<close>

section \<open>Bytes\<close>

definition byte :: "char \<Rightarrow> nat" where
  "byte c = of_char c"

definition newline :: char where "newline = char_of (10::nat)"

definition carriage :: char where "carriage = char_of (13::nat)"

definition backslash :: char where "backslash = CHR 0x5C"

definition dquote :: char where "dquote = CHR 0x22"

definition space :: char where "space = CHR 0x20"

definition tab :: char where "tab = CHR 0x09"

lemma special_chars [simp]:
  "backslash \<noteq> dquote" "dquote \<noteq> backslash" "backslash \<noteq> space" "space \<noteq> backslash" "backslash \<noteq> tab" "tab \<noteq> backslash"
  "dquote \<noteq> space" "space \<noteq> dquote" "dquote \<noteq> tab" "tab \<noteq> dquote" "space \<noteq> tab" "tab \<noteq> space"
  by (simp_all add: backslash_def dquote_def space_def tab_def)

lemma byte_newline [simp]: "byte newline = 10"
  and byte_carriage [simp]: "byte carriage = 13"
  by (simp_all add: byte_def newline_def carriage_def)

lemma newline_ne_carriage [simp]: "newline \<noteq> carriage" "carriage \<noteq> newline"
  by (simp_all add: newline_def carriage_def)

section \<open>UTF-8\<close>

definition cont :: "nat \<Rightarrow> bool" where
  "cont b \<longleftrightarrow> 128 \<le> b \<and> b \<le> 191"

text \<open>The second bytes a three- or four-byte sequence may have after its first byte.\<close>

definition second_ok :: "nat \<Rightarrow> nat \<Rightarrow> bool" where
  "second_ok b0 b1 \<longleftrightarrow>
     (if b0 = 224 then 160 \<le> b1 \<and> b1 \<le> 191
      else if b0 = 237 then 128 \<le> b1 \<and> b1 \<le> 159
      else if b0 = 240 then 144 \<le> b1 \<and> b1 \<le> 191
      else if b0 = 244 then 128 \<le> b1 \<and> b1 \<le> 143
      else cont b1)"

definition seq_width :: "nat \<Rightarrow> nat" where
  "seq_width b0 = (if b0 < 128 then 1 else if 194 \<le> b0 \<and> b0 \<le> 223 then 2
     else if 224 \<le> b0 \<and> b0 \<le> 239 then 3 else if 240 \<le> b0 \<and> b0 \<le> 244 then 4 else 0)"

text \<open>
  One step of the decoder: whether a well-formed sequence starts here, and how many bytes it or
  the maximal ill-formed subpart has.
\<close>

fun utf8_step :: "string \<Rightarrow> bool \<times> nat" where
  "utf8_step [] = (True, 0)"
| "utf8_step (c0 # cs) =
     (let b0 = byte c0; w = seq_width b0 in
      if w = 1 then (True, 1)
      else if w = 2 then
        (case cs of c1 # _ \<Rightarrow> if cont (byte c1) then (True, 2) else (False, 1) | _ \<Rightarrow> (False, 1))
      else if w = 3 then
        (case cs of
           c1 # cs1 \<Rightarrow>
             if second_ok b0 (byte c1) then
               (case cs1 of c2 # _ \<Rightarrow> if cont (byte c2) then (True, 3) else (False, 2) | _ \<Rightarrow> (False, 2))
             else (False, 1)
         | _ \<Rightarrow> (False, 1))
      else if w = 4 then
        (case cs of
           c1 # cs1 \<Rightarrow>
             if second_ok b0 (byte c1) then
               (case cs1 of
                  c2 # cs2 \<Rightarrow>
                    if cont (byte c2) then
                      (case cs2 of c3 # _ \<Rightarrow> if cont (byte c3) then (True, 4) else (False, 3) | _ \<Rightarrow> (False, 3))
                    else (False, 2)
                | _ \<Rightarrow> (False, 2))
             else (False, 1)
         | _ \<Rightarrow> (False, 1))
      else (False, 1))"

lemma utf8_step_pos: "0 < snd (utf8_step (c # cs))"
  by (auto simp: Let_def split: list.splits)

definition replacement :: string where
  "replacement = [char_of (239::nat), char_of (191::nat), char_of (189::nat)]"

function utf8_lossy :: "string \<Rightarrow> string" where
  "utf8_lossy [] = []"
| "utf8_lossy (c # cs) = (let (ok, n) = utf8_step (c # cs) in
     (if ok then take n (c # cs) else replacement) @ utf8_lossy (drop n (c # cs)))"
  by pat_completeness auto

termination
proof (relation "measure length")
  show "((drop n (c # cs)), c # cs) \<in> measure length" if "x = utf8_step (c # cs)" "(ok, n) = x" for c cs x ok n
  proof -
    have "0 < n" using that utf8_step_pos [of c cs] by (metis snd_conv)
    then show ?thesis by simp
  qed
qed simp

function valid_utf8 :: "string \<Rightarrow> bool" where
  "valid_utf8 [] = True"
| "valid_utf8 (c # cs) = (let (ok, n) = utf8_step (c # cs) in ok \<and> valid_utf8 (drop n (c # cs)))"
  by pat_completeness auto

termination
proof (relation "measure length")
  show "((drop n (c # cs)), c # cs) \<in> measure length" if "x = utf8_step (c # cs)" "(ok, n) = x" for c cs x ok n
  proof -
    have "0 < n" using that utf8_step_pos [of c cs] by (metis snd_conv)
    then show ?thesis by simp
  qed
qed simp

declare utf8_step.simps(2) [simp del] utf8_lossy.simps(2) [simp del] valid_utf8.simps(2) [simp del]

text \<open>Well-formed text is left alone.\<close>

lemma utf8_lossy_valid: "valid_utf8 s \<Longrightarrow> utf8_lossy s = s"
proof (induction s rule: valid_utf8.induct)
  case (2 c cs)
  obtain ok n where s: "utf8_step (c # cs) = (ok, n)" by fastforce
  have "ok" "valid_utf8 (drop n (c # cs))" using 2(2) s by (auto simp: valid_utf8.simps(2))
  then show ?case using 2(1) s by (simp add: utf8_lossy.simps(2))
qed simp

text \<open>ASCII bytes are decoded on their own: a decoder never looks past one.\<close>

lemma ascii_step: "byte c < 128 \<Longrightarrow> utf8_step (c # cs) = (True, 1)"
  by (simp add: utf8_step.simps(2) seq_width_def Let_def)

lemma ascii_not_cont: "byte c < 128 \<Longrightarrow> \<not> cont (byte c) \<and> \<not> second_ok b (byte c)"
  by (auto simp: cont_def second_ok_def)

lemma utf8_step_append:
  assumes "byte c < 128"
  shows "utf8_step (a # as @ c # bs) = utf8_step (a # as)" "snd (utf8_step (a # as)) \<le> length (a # as)"
proof -
  note nc = ascii_not_cont [OF assms]
  show "utf8_step (a # as @ c # bs) = utf8_step (a # as)"
    using nc
    by (cases as; cases "tl as"; cases "tl (tl as)") (auto simp: utf8_step.simps(2) Let_def split: list.splits)
  show "snd (utf8_step (a # as)) \<le> length (a # as)"
    by (auto simp: utf8_step.simps(2) Let_def split: list.splits)
qed

lemma utf8_lossy_ascii:
  assumes "byte c < 128"
  shows "utf8_lossy (as @ c # bs) = utf8_lossy as @ c # utf8_lossy bs"
proof (induction as rule: utf8_lossy.induct)
  case 1
  show ?case using ascii_step [OF assms] by (simp add: utf8_lossy.simps(2))
next
  case (2 a as)
  obtain ok n where s: "utf8_step (a # as) = (ok, n)" by fastforce
  have s': "utf8_step (a # as @ c # bs) = (ok, n)" using utf8_step_append(1) [OF assms] s by simp
  have n: "n \<le> length (a # as)" using utf8_step_append(2) [OF assms, of a as] s by simp
  have "utf8_lossy (drop n (a # as) @ c # bs) = utf8_lossy (drop n (a # as)) @ c # utf8_lossy bs"
    using 2 s by simp
  moreover have "drop n (a # as @ c # bs) = drop n (a # as) @ c # bs"
    "take n (a # as @ c # bs) = take n (a # as)"
    using n drop_append [of n "a # as" "c # bs"] take_append [of n "a # as" "c # bs"] by simp_all
  ultimately show ?case
    by (simp only: append_Cons utf8_lossy.simps(2) s s' Let_def prod.case append_assoc)
qed

lemma utf8_lossy_ascii_free:
  assumes "c \<notin> set s" "byte c < 128"
  shows "c \<notin> set (utf8_lossy s)"
  using assms(1)
proof (induction s rule: utf8_lossy.induct)
  case (2 a as)
  obtain ok n where s: "utf8_step (a # as) = (ok, n)" by fastforce
  have "c \<notin> set (drop n (a # as))" "c \<notin> set (take n (a # as))"
    using 2(2) by (auto dest: in_set_dropD in_set_takeD simp del: set_simps)
  moreover have "c \<notin> set replacement"
    using assms(2) by (auto simp: replacement_def byte_def)
  ultimately show ?case using 2(1) s by (simp add: utf8_lossy.simps(2))
qed simp

section \<open>Splitting at newlines\<close>

text \<open>The complete lines of a buffer, without their newlines, and the unterminated rest.\<close>

fun split_newlines :: "string \<Rightarrow> string list \<times> string" where
  "split_newlines [] = ([], [])"
| "split_newlines (c # cs) = (let (ls, rest) = split_newlines cs in
     if c = newline then ([] # ls, rest)
     else case ls of [] \<Rightarrow> ([], c # rest) | l # ls' \<Rightarrow> ((c # l) # ls', rest))"

definition full_lines :: "string \<Rightarrow> string list" where
  "full_lines s = fst (split_newlines s)"

definition fragment :: "string \<Rightarrow> string" where
  "fragment s = snd (split_newlines s)"

lemma fragment_no_newline: "newline \<notin> set (fragment s)"
  by (induction s) (auto simp: fragment_def Let_def split: prod.splits list.splits)

lemma split_no_newline: "newline \<notin> set s \<Longrightarrow> split_newlines s = ([], s)"
  by (induction s) auto

lemma full_lines_no_newline: "l \<in> set (full_lines s) \<Longrightarrow> newline \<notin> set l"
  by (induction s arbitrary: l) (auto simp: full_lines_def Let_def split: prod.splits list.splits if_splits)

lemma split_line: "newline \<notin> set l \<Longrightarrow> split_newlines (l @ newline # s) = (l # full_lines s, fragment s)"
  by (induction l) (auto simp: full_lines_def fragment_def Let_def split: prod.splits)

lemma split_newlines_unsplit: "concat (map (\<lambda>l. l @ [newline]) (full_lines s)) @ fragment s = s"
  by (induction s) (auto simp: full_lines_def fragment_def Let_def split: prod.splits list.splits)

lemma split_lines_append:
  "\<forall>l\<in>set ls. newline \<notin> set l \<Longrightarrow>
   split_newlines (concat (map (\<lambda>l. l @ [newline]) ls) @ s) = (ls @ full_lines s, fragment s)"
proof (induction ls)
  case Nil
  show ?case by (simp add: full_lines_def fragment_def)
next
  case (Cons l ls)
  then have "full_lines (concat (map (\<lambda>l. l @ [newline]) ls) @ s) = ls @ full_lines s"
    "fragment (concat (map (\<lambda>l. l @ [newline]) ls) @ s) = fragment s"
    by (simp_all add: full_lines_def [of "_ @ _"] fragment_def [of "_ @ _"])
  then show ?case using Cons.prems by (simp add: split_line)
qed

text \<open>Feeding a buffer in two parts: what is held back is joined with what comes next.\<close>

lemma split_append:
  "full_lines (s @ t) = full_lines s @ full_lines (fragment s @ t)"
  "fragment (s @ t) = fragment (fragment s @ t)"
proof -
  have "split_newlines (s @ t) = split_newlines (concat (map (\<lambda>l. l @ [newline]) (full_lines s)) @ fragment s @ t)"
    using split_newlines_unsplit [of s] by (metis append_assoc)
  also have "\<dots> = (full_lines s @ full_lines (fragment s @ t), fragment (fragment s @ t))"
    by (rule split_lines_append) (auto dest: full_lines_no_newline)
  finally show "full_lines (s @ t) = full_lines s @ full_lines (fragment s @ t)"
    "fragment (s @ t) = fragment (fragment s @ t)"
    by (simp_all add: full_lines_def [of "s @ t"] fragment_def [of "s @ t"])
qed

text \<open>\<open>str::lines\<close>: a final newline does not start a line, one carriage return before a newline is dropped.\<close>

definition strip_cr :: "string \<Rightarrow> string" where
  "strip_cr l = (if l \<noteq> [] \<and> last l = carriage then butlast l else l)"

definition lines :: "string \<Rightarrow> string list" where
  "lines s = map strip_cr (full_lines s) @ (if fragment s = [] then [] else [fragment s])"

text \<open>\<open>trim_end_matches\<close> of a carriage return: every one at the end.\<close>

definition trim_end_cr :: "string \<Rightarrow> string" where
  "trim_end_cr l = rev (dropWhile (\<lambda>c. c = carriage) (rev l))"

section \<open>Prefixes and separators\<close>

definition strip_prefix :: "string \<Rightarrow> string \<Rightarrow> string option" where
  "strip_prefix p s = (if take (length p) s = p then Some (drop (length p) s) else None)"

lemma strip_prefix_append [simp]: "strip_prefix p (p @ s) = Some s"
  by (simp add: strip_prefix_def)

lemma strip_prefix_Some: "strip_prefix p s = Some r \<longleftrightarrow> s = p @ r"
  by (auto simp: strip_prefix_def) (metis append_take_drop_id)

text \<open>\<open>s.find(c)\<close> with the two slices around the hit.\<close>

definition split_once :: "char \<Rightarrow> string \<Rightarrow> (string \<times> string) option" where
  "split_once c s = (if c \<in> set s then Some (takeWhile (\<lambda>x. x \<noteq> c) s, tl (dropWhile (\<lambda>x. x \<noteq> c) s)) else None)"

lemma split_once_Some: "split_once c s = Some (a, b) \<longleftrightarrow> s = a @ c # b \<and> c \<notin> set a"
proof
  assume "split_once c s = Some (a, b)"
  then have c: "c \<in> set s" "a = takeWhile (\<lambda>x. x \<noteq> c) s" "b = tl (dropWhile (\<lambda>x. x \<noteq> c) s)"
    by (auto simp: split_once_def split: if_splits)
  then have "dropWhile (\<lambda>x. x \<noteq> c) s \<noteq> []" "hd (dropWhile (\<lambda>x. x \<noteq> c) s) = c"
    using hd_dropWhile [of "\<lambda>x. x \<noteq> c" s] by (auto simp: dropWhile_eq_Nil_conv)
  then have "dropWhile (\<lambda>x. x \<noteq> c) s = c # b" using c(3) by (metis list.collapse)
  then show "s = a @ c # b \<and> c \<notin> set a" using c(2) by (metis set_takeWhileD takeWhile_dropWhile_id)
next
  assume "s = a @ c # b \<and> c \<notin> set a"
  then have s: "s = a @ c # b" and a: "\<forall>x\<in>set a. x \<noteq> c" by auto
  have "takeWhile (\<lambda>x. x \<noteq> c) s = a" "dropWhile (\<lambda>x. x \<noteq> c) s = c # b"
    unfolding s using a by (simp_all add: takeWhile_append2 dropWhile_append2)
  then show "split_once c s = Some (a, b)" using s by (simp add: split_once_def)
qed

lemma split_once_None: "split_once c s = None \<longleftrightarrow> c \<notin> set s"
  by (simp add: split_once_def)

section \<open>White space\<close>

text \<open>
  The length in bytes of the white-space character a string starts with (Unicode \<open>White_Space\<close>
  in UTF-8), 0 when it starts with another character.
\<close>

definition ws3 :: "nat \<Rightarrow> nat \<Rightarrow> nat \<Rightarrow> bool" where
  "ws3 a b c \<longleftrightarrow> (a = 225 \<and> b = 154 \<and> c = 128) \<or>
     (a = 226 \<and> b = 128 \<and> (128 \<le> c \<and> c \<le> 138 \<or> c = 168 \<or> c = 169 \<or> c = 175)) \<or>
     (a = 226 \<and> b = 129 \<and> c = 159) \<or> (a = 227 \<and> b = 128 \<and> c = 128)"

definition ws1 :: "nat \<Rightarrow> bool" where
  "ws1 a \<longleftrightarrow> 9 \<le> a \<and> a \<le> 13 \<or> a = 32"

definition ws2 :: "nat \<Rightarrow> nat \<Rightarrow> bool" where
  "ws2 a b \<longleftrightarrow> a = 194 \<and> (b = 133 \<or> b = 160)"

fun ws_len :: "string \<Rightarrow> nat" where
  "ws_len (a # b # c # cs) = (if ws1 (byte a) then 1 else if ws2 (byte a) (byte b) then 2
     else if ws3 (byte a) (byte b) (byte c) then 3 else 0)"
| "ws_len [a, b] = (if ws1 (byte a) then 1 else if ws2 (byte a) (byte b) then 2 else 0)"
| "ws_len [a] = (if ws1 (byte a) then 1 else 0)"
| "ws_len [] = 0"

text \<open>The same at the end, on the reversed string.\<close>

fun ws_len_rev :: "string \<Rightarrow> nat" where
  "ws_len_rev (c # b # a # cs) = (if ws1 (byte c) then 1 else if ws2 (byte b) (byte c) then 2
     else if ws3 (byte a) (byte b) (byte c) then 3 else 0)"
| "ws_len_rev [b, a] = (if ws1 (byte b) then 1 else if ws2 (byte a) (byte b) then 2 else 0)"
| "ws_len_rev [a] = (if ws1 (byte a) then 1 else 0)"
| "ws_len_rev [] = 0"

function trim_start :: "string \<Rightarrow> string" where
  "trim_start s = (if ws_len s = 0 then s else trim_start (drop (ws_len s) s))"
  by pat_completeness auto

termination
proof (relation "measure length")
  show "(drop (ws_len s) s, s) \<in> measure length" if "ws_len s \<noteq> 0" for s
    using that by (cases s) simp_all
qed simp

function trim_rev :: "string \<Rightarrow> string" where
  "trim_rev s = (if ws_len_rev s = 0 then s else trim_rev (drop (ws_len_rev s) s))"
  by pat_completeness auto

termination
proof (relation "measure length")
  show "(drop (ws_len_rev s) s, s) \<in> measure length" if "ws_len_rev s \<noteq> 0" for s
    using that by (cases s) simp_all
qed simp

declare trim_start.simps [simp del] trim_rev.simps [simp del]

definition trim_end :: "string \<Rightarrow> string" where
  "trim_end s = rev (trim_rev (rev s))"

definition trim :: "string \<Rightarrow> string" where
  "trim s = trim_end (trim_start s)"

text \<open>\<open>split_whitespace().next()\<close>.\<close>

fun until_ws :: "string \<Rightarrow> string" where
  "until_ws [] = []"
| "until_ws (c # cs) = (if ws_len (c # cs) = 0 then c # until_ws cs else [])"

definition first_word :: "string \<Rightarrow> string option" where
  "first_word s = (case trim_start s of [] \<Rightarrow> None | c # cs \<Rightarrow> Some (until_ws (c # cs)))"

lemma ws_len_0: "\<not> ws1 (byte c) \<Longrightarrow> byte c < 128 \<Longrightarrow> ws_len (c # cs) = 0"
  by (cases "c # cs" rule: ws_len.cases) (auto simp: ws2_def ws3_def)

lemma trim_start_id: "ws_len s = 0 \<Longrightarrow> trim_start s = s"
  by (simp add: trim_start.simps)

end
