(* ===== verification/Plain.thy ===== *)
theory Plain
  imports Rust_Text
begin

text \<open>
  calcar-pty: the plain-pipe executor (plain.rs) and the parts it shares with the ConPTY path
  (lib.rs). What Windows answers to a call is an argument of the model: the state of the process at
  a poll (\<open>wait_result\<close>) and the chunks the pump threads read. Handles and the creation of
  processes and pipes are in the theory of handles.
\<close>

section \<open>Errors and configuration\<close>

datatype PtyError =
    Windows string string
  | Io string
  | InvalidConfig string
  | Closed

text \<open>\<open>Display for PtyError\<close>.\<close>

fun PtyError_text :: "PtyError \<Rightarrow> string" where
  "PtyError_text (Windows call message) = ''windows call '' @ call @ '' failed: '' @ message"
| "PtyError_text (PtyError.Io e) = ''io error: '' @ e"
| "PtyError_text (InvalidConfig m) = ''invalid spawn config: '' @ m"
| "PtyError_text Closed = ''pty is closed''"

definition DEFAULT_PLAIN_OUTPUT_CAP_BYTES :: nat where
  "DEFAULT_PLAIN_OUTPUT_CAP_BYTES = 1024 * 1024"

definition MAX_PLAIN_OUTPUT_CAP_BYTES :: nat where
  "MAX_PLAIN_OUTPUT_CAP_BYTES = 64 * 1024 * 1024"

record PlainConfig =
  pg_argv :: "string list"
  pg_working_dir :: "string option"
  pg_env :: "(string \<times> string) list"
  pg_input :: "string option"
  pg_output_cap_bytes :: nat

definition plain_config_new :: "string list \<Rightarrow> PlainConfig" where
  "plain_config_new argv = \<lparr>pg_argv = argv, pg_working_dir = None, pg_env = [], pg_input = None,
     pg_output_cap_bytes = DEFAULT_PLAIN_OUTPUT_CAP_BYTES\<rparr>"

record PlainOutput =
  po_stdout :: string
  po_stderr :: string
  po_exit_code :: "int option"
  po_truncated :: bool

section \<open>Command lines\<close>

text \<open>The loop of \<open>quote_arg\<close> with its counter of backslashes, up to the closing quote.\<close>

fun quote_loop :: "nat \<Rightarrow> string \<Rightarrow> string" where
  "quote_loop backslashes [] = replicate backslashes backslash @ [dquote]"
| "quote_loop backslashes (ch # chs) =
     (if ch = backslash then ch # quote_loop (backslashes + 1) chs
      else if ch = dquote then replicate backslashes backslash @ [backslash, dquote] @ quote_loop 0 chs
      else ch # quote_loop 0 chs)"

definition needs_quotes :: "string \<Rightarrow> bool" where
  "needs_quotes arg \<longleftrightarrow> arg = [] \<or> space \<in> set arg \<or> tab \<in> set arg \<or> dquote \<in> set arg"

definition quote_arg :: "string \<Rightarrow> string" where
  "quote_arg arg = (if \<not> needs_quotes arg then arg else dquote # quote_loop 0 arg)"

definition join_spaces :: "string list \<Rightarrow> string" where
  "join_spaces parts = concat (case parts of [] \<Rightarrow> [] | p # ps \<Rightarrow> p # map (\<lambda>q. space # q) ps)"

definition command_line :: "string list \<Rightarrow> PtyError + string" where
  "command_line argv =
     (if argv = [] then Inl (InvalidConfig ''argv is empty'') else Inr (join_spaces (map quote_arg argv)))"

text \<open>
  The convention a Windows program splits its arguments by: outside quotes spaces and tabs
  separate; \<open>2n\<close> backslashes and a quote are \<open>n\<close> backslashes and a delimiter, \<open>2n + 1\<close> backslashes
  and a quote are \<open>n\<close> backslashes and a literal quote; other backslashes are literal.
\<close>

fun scan_arg :: "bool \<Rightarrow> nat \<Rightarrow> string \<Rightarrow> string \<Rightarrow> string \<times> string" where
  "scan_arg quoted n acc [] = (acc @ replicate n backslash, [])"
| "scan_arg quoted n acc (c # cs) =
     (if c = backslash then scan_arg quoted (n + 1) acc cs
      else if c = dquote then
        (if even n then scan_arg (\<not> quoted) 0 (acc @ replicate (n div 2) backslash) cs
         else scan_arg quoted 0 (acc @ replicate (n div 2) backslash @ [dquote]) cs)
      else if (c = space \<or> c = tab) \<and> \<not> quoted then (acc @ replicate n backslash, cs)
      else scan_arg quoted 0 (acc @ replicate n backslash @ [c]) cs)"

lemma scan_arg_rest: "length (snd (scan_arg q n acc s)) \<le> length s"
  by (induction q n acc s rule: scan_arg.induct) auto

definition skip_separators :: "string \<Rightarrow> string" where
  "skip_separators s = dropWhile (\<lambda>c. c = space \<or> c = tab) s"

lemma scan_arg_consumes:
  assumes "c \<noteq> space" "c \<noteq> tab"
  shows "length (snd (scan_arg False 0 [] (c # cs))) < length (c # cs)"
  using assms scan_arg_rest by (auto simp: le_imp_less_Suc)

function split_args :: "string \<Rightarrow> string list" where
  "split_args s = (case skip_separators s of
       [] \<Rightarrow> []
     | c # cs \<Rightarrow> (let (arg, rest) = scan_arg False 0 [] (c # cs) in arg # split_args rest))"
  by pat_completeness auto

termination
proof (relation "measure length")
  fix s :: string and c cs x arg rest
  assume h: "skip_separators s = c # cs" "x = scan_arg False 0 [] (c # cs)" "(arg, rest) = x"
  have "dropWhile (\<lambda>c. c = space \<or> c = tab) s = c # cs" using h(1) by (simp add: skip_separators_def)
  then have "c \<noteq> space" "c \<noteq> tab" using hd_dropWhile [of "\<lambda>c. c = space \<or> c = tab" s] by auto
  then have "length rest < length (c # cs)" using scan_arg_consumes h(2,3) by (metis snd_conv)
  moreover have "length (c # cs) \<le> length s"
    using h(1) length_dropWhile_le [of "\<lambda>c. c = space \<or> c = tab" s] by (simp add: skip_separators_def)
  ultimately show "(rest, s) \<in> measure length" by simp
qed simp

declare split_args.simps [simp del]

lemma scan_backslashes: "scan_arg q n acc (replicate k backslash @ s) = scan_arg q (n + k) acc s"
  by (induction k arbitrary: n) simp_all

lemma scan_quote_loop:
  "scan_arg True n acc (quote_loop n arg @ rest) = scan_arg False 0 (acc @ replicate n backslash @ arg) rest"
proof (induction n arg arbitrary: acc rule: quote_loop.induct)
  case (1 n)
  show ?case by (simp add: scan_backslashes)
next
  case (2 n ch chs)
  note IH = 2
  consider "ch = backslash" | "ch = dquote" | "ch \<noteq> backslash" "ch \<noteq> dquote" by blast
  then show ?case
  proof cases
    case 1
    then show ?thesis using IH(1) by (simp add: replicate_app_Cons_same)
  next
    case 2
    then show ?thesis using IH(2) by (simp add: scan_backslashes)
  next
    case 3
    then show ?thesis using IH(3) by simp
  qed
qed

lemma scan_plain:
  assumes "space \<notin> set arg" "tab \<notin> set arg" "dquote \<notin> set arg" "rest = [] \<or> (\<exists>r. rest = space # r)"
  shows "scan_arg False n acc (arg @ rest) = (acc @ replicate n backslash @ arg, tl rest)"
  using assms
proof (induction arg arbitrary: n acc)
  case Nil
  then show ?case by auto
next
  case (Cons c cs)
  then have "c \<noteq> space" "c \<noteq> tab" "c \<noteq> dquote" by auto
  then show ?case using Cons by (simp add: replicate_app_Cons_same)
qed

lemma scan_quoted_arg:
  assumes "rest = [] \<or> (\<exists>r. rest = space # r)"
  shows "scan_arg False 0 [] (quote_arg arg @ rest) = (arg, tl rest)"
proof (cases "needs_quotes arg")
  case False
  then show ?thesis using scan_plain [OF _ _ _ assms, of arg 0 "[]"] by (simp add: quote_arg_def needs_quotes_def)
next
  case True
  have "scan_arg False 0 [] (quote_arg arg @ rest) = scan_arg False 0 arg rest"
    using True scan_quote_loop [of 0 "[]" arg rest] by (simp add: quote_arg_def)
  then show ?thesis using assms by auto
qed

lemma quote_arg_starts:
  obtains c cs where "quote_arg arg = c # cs" "c \<noteq> space" "c \<noteq> tab"
proof (cases "needs_quotes arg")
  case True
  then show ?thesis using that by (simp add: quote_arg_def)
next
  case False
  then show ?thesis using that by (cases arg) (auto simp: quote_arg_def needs_quotes_def)
qed

lemma join_spaces_Cons: "join_spaces (p # ps) = p @ (if ps = [] then [] else space # join_spaces ps)"
  by (cases ps) (simp_all add: join_spaces_def)

text \<open>
  Quoting is faithful: splitting the command line built from an argument list by the Windows
  convention gives back exactly that list, for every argument, empty ones and ones with spaces, tabs,
  quotes and runs of backslashes included. An empty list is refused.
\<close>

lemma command_line_roundtrip:
  "(case command_line argv of Inr line \<Rightarrow> argv \<noteq> [] \<and> split_args line = argv
    | Inl e \<Rightarrow> argv = [] \<and> e = InvalidConfig ''argv is empty'')"
proof -
  have "split_args (join_spaces (map quote_arg argv)) = argv"
  proof (induction argv)
    case Nil
    show ?case by (simp add: join_spaces_def split_args.simps skip_separators_def)
  next
    case (Cons a as)
    let ?rest = "if map quote_arg as = [] then [] else space # join_spaces (map quote_arg as)"
    obtain c cs where c: "quote_arg a = c # cs" "c \<noteq> space" "c \<noteq> tab" by (rule quote_arg_starts)
    have "scan_arg False 0 [] (quote_arg a @ ?rest) = (a, tl ?rest)" by (rule scan_quoted_arg) simp
    moreover have "split_args (tl ?rest) = as"
      using Cons.IH by (cases as) (simp_all add: split_args.simps [of "[]"] skip_separators_def)
    moreover have "skip_separators (quote_arg a @ ?rest) = quote_arg a @ ?rest"
      using c by (simp add: skip_separators_def)
    ultimately show ?case
      using c(1) by (simp add: join_spaces_Cons split_args.simps [of "c # cs @ _"])
  qed
  then show ?thesis by (simp add: command_line_def)
qed

section \<open>Output sinks\<close>

record CappedSink =
  cs_buf :: string
  cs_cap :: nat
  cs_truncated :: bool

definition sink_new :: "nat \<Rightarrow> CappedSink" where
  "sink_new cap = \<lparr>cs_buf = [], cs_cap = cap, cs_truncated = False\<rparr>"

definition push :: "CappedSink \<Rightarrow> string \<Rightarrow> CappedSink" where
  "push sink chunk =
     (let room = cs_cap sink - length (cs_buf sink);
          keep = min room (length chunk) in
      sink\<lparr>cs_buf := cs_buf sink @ take keep chunk,
           cs_truncated := cs_truncated sink \<or> keep < length chunk\<rparr>)"

text \<open>\<open>pump_stream\<close>: every chunk the pipe delivers until end of file or an error.\<close>

fun pump_stream :: "CappedSink \<Rightarrow> string list \<Rightarrow> CappedSink" where
  "pump_stream sink [] = sink"
| "pump_stream sink (chunk # chunks) = pump_stream (push sink chunk) chunks"

lemma push_take:
  assumes "cs_buf sink = take (cs_cap sink) all" "cs_truncated sink \<longleftrightarrow> cs_cap sink < length all"
  shows "cs_buf (push sink chunk) = take (cs_cap sink) (all @ chunk)"
    "cs_truncated (push sink chunk) \<longleftrightarrow> cs_cap sink < length (all @ chunk)"
    "cs_cap (push sink chunk) = cs_cap sink"
  using assms by (auto simp: push_def Let_def min_def)

lemma pump_streams: "cs_buf (pump_stream (sink_new cap) chunks) = take cap (concat chunks)"
  "cs_truncated (pump_stream (sink_new cap) chunks) \<longleftrightarrow> cap < length (concat chunks)"
proof -
  have "cs_buf (pump_stream sink chunks) = take (cs_cap sink) (all @ concat chunks) \<and>
     (cs_truncated (pump_stream sink chunks) \<longleftrightarrow> cs_cap sink < length (all @ concat chunks))"
    if "cs_buf sink = take (cs_cap sink) all" "cs_truncated sink \<longleftrightarrow> cs_cap sink < length all" for sink all
    using that
  proof (induction chunks arbitrary: sink all)
    case (Cons chunk chunks)
    note p = push_take [OF Cons.prems, of chunk]
    show ?case using Cons.IH [of "push sink chunk" "all @ chunk"] p by simp
  qed simp
  from this [of "sink_new cap" "[]"] show "cs_buf (pump_stream (sink_new cap) chunks) = take cap (concat chunks)"
    "cs_truncated (pump_stream (sink_new cap) chunks) \<longleftrightarrow> cap < length (concat chunks)"
    by (simp_all add: sink_new_def)
qed

text \<open>
  A pump stores exactly the first \<open>cap\<close> bytes of its stream, whatever the chunks it arrives in,
  and reports truncation exactly when the stream is longer; memory stays within the cap.
\<close>

theorem pump_stream_capped:
  "cs_buf (pump_stream (sink_new cap) chunks) = take cap (concat chunks) \<and>
   (cs_truncated (pump_stream (sink_new cap) chunks) \<longleftrightarrow> cap < length (concat chunks)) \<and>
   length (cs_buf (pump_stream (sink_new cap) chunks)) \<le> cap"
  by (simp add: pump_streams)

section \<open>The child\<close>

text \<open>
  What the system says about the process when it is polled. A failure names the call that failed,
  \<open>WaitForSingleObject\<close> or \<open>GetExitCodeProcess\<close>.
\<close>

datatype wait_result = Timeout | Exited int | WaitFailed string string

record PlainChild =
  ch_stdout :: CappedSink
  ch_stderr :: CappedSink
  ch_exit_code :: int
  ch_exited :: bool

text \<open>The child right after a successful \<open>spawn\<close>: empty sinks with the clamped cap.\<close>

definition clamp_cap :: "nat \<Rightarrow> nat" where
  "clamp_cap n = max 1 (min n MAX_PLAIN_OUTPUT_CAP_BYTES)"

definition child_new :: "PlainConfig \<Rightarrow> PlainChild" where
  "child_new config = (let cap = clamp_cap (pg_output_cap_bytes config) in
     \<lparr>ch_stdout = sink_new cap, ch_stderr = sink_new cap, ch_exit_code = 0, ch_exited = False\<rparr>)"

text \<open>The milliseconds handed to \<open>WaitForSingleObject\<close>; \<open>u32::MAX\<close> is \<open>INFINITE\<close>.\<close>

definition wait_millis :: "nat option \<Rightarrow> int" where
  "wait_millis timeout = (case timeout of None \<Rightarrow> u32_max | Some ms \<Rightarrow> min (int ms) u32_max)"

definition child_wait :: "wait_result \<Rightarrow> PlainChild \<Rightarrow> (PtyError + int option) \<times> PlainChild" where
  "child_wait os child =
     (if ch_exited child then (Inr (Some (ch_exit_code child)), child)
      else case os of
        Timeout \<Rightarrow> (Inr None, child)
      | WaitFailed call message \<Rightarrow> (Inl (Windows call message), child)
      | Exited code \<Rightarrow> (Inr (Some code), child\<lparr>ch_exit_code := code, ch_exited := True\<rparr>))"

definition child_exit_code :: "PlainChild \<Rightarrow> int option" where
  "child_exit_code child = (if ch_exited child then Some (ch_exit_code child) else None)"

definition child_truncated :: "PlainChild \<Rightarrow> bool" where
  "child_truncated child \<longleftrightarrow> cs_truncated (ch_stdout child) \<or> cs_truncated (ch_stderr child)"

definition child_snapshot :: "PlainChild \<Rightarrow> PlainOutput" where
  "child_snapshot child =
     \<lparr>po_stdout = cs_buf (ch_stdout child), po_stderr = cs_buf (ch_stderr child),
      po_exit_code = child_exit_code child, po_truncated = child_truncated child\<rparr>"

text \<open>
  A finite timeout of \<open>2 ^ 32 - 1\<close> milliseconds or more is handed to the system as the value
  that means no timeout at all; every shorter one is handed over exactly.
\<close>

theorem wait_millis_infinite:
  "wait_millis (Some ms) = u32_max \<longleftrightarrow> 4294967295 \<le> ms"
  by (simp add: wait_millis_def u32_max_def min_def)

end
