(* ===== verification/Adapters.thy ===== *)
theory Adapters
  imports Plain Events Permission
begin

text \<open>
  calcar-adapters: the adapter contract (traitdef.rs), the generic adapter (generic.rs), the three
  adapters with a marker grammar (claude.rs, codex.rs, opencode.rs, which differ in their line
  prefix, name and provider only) and the registry (registry.rs).

  A call that polls the child takes what the system answers as an argument; \<open>spawn\<close> takes the
  result of \<open>PlainChild::spawn\<close> as a function of its configuration. The bytes the pump threads
  collected are in the child's sinks.
\<close>

section \<open>The contract\<close>

record Capabilities =
  cap_streaming :: bool
  cap_interactive_input :: bool
  cap_approvals :: bool
  cap_file_events :: bool
  cap_resume :: bool
  cap_stop :: bool
  cap_diagnostics :: bool

record ProviderEvent =
  pv_event_type :: EventType
  pv_summary :: string
  pv_detail_pointer :: "string option"

definition provider_event :: "EventType \<Rightarrow> string \<Rightarrow> ProviderEvent" where
  "provider_event event_type summary =
     \<lparr>pv_event_type = event_type, pv_summary = summary, pv_detail_pointer = None\<rparr>"

datatype AdapterError =
    SpawnFailed string
  | NotRunning
  | Unsupported
  | ParseError string
  | Io string

record SpawnRequest =
  sq_argv :: "string list"
  sq_working_dir :: "string option"
  sq_env :: "(string \<times> string) list"
  sq_interactive :: bool
  sq_output_cap_bytes :: nat

definition spawn_request_new :: "string list \<Rightarrow> SpawnRequest" where
  "spawn_request_new argv = \<lparr>sq_argv = argv, sq_working_dir = None, sq_env = [], sq_interactive = False,
     sq_output_cap_bytes = 1024 * 1024\<rparr>"

record AdapterSnapshot =
  as_running :: bool
  as_exit_code :: "int option"
  as_provider_session_id :: "string option"
  as_resume_pointer :: "string option"

type_synonym launcher = "PlainConfig \<Rightarrow> PtyError + PlainChild"

section \<open>The marker grammar\<close>

text \<open>\<open>find(' ')\<close> with the text after it trimmed; without a space the whole text and nothing.\<close>

definition verb_and_payload :: "string \<Rightarrow> string \<times> string" where
  "verb_and_payload rest = (case split_once space rest of
       Some (verb, after) \<Rightarrow> (verb, trim_start after)
     | None \<Rightarrow> (rest, []))"

definition parse_line ::
  "string \<Rightarrow> string \<Rightarrow> ProviderEvent list \<times> string option \<Rightarrow> ProviderEvent list \<times> string option" where
  "parse_line prefix line = (\<lambda>(events, session).
     case strip_prefix prefix line of
       None \<Rightarrow> (events, session)
     | Some rest \<Rightarrow>
         (let (verb, payload) = verb_and_payload rest in
          if verb = ''START'' then (events @ [provider_event AgentStarted payload], session)
          else if verb = ''STEP'' then (events @ [provider_event CommandStarted payload], session)
          else if verb = ''DONE'' then (events @ [provider_event CommandCompleted payload], session)
          else if verb = ''FILE'' then
            (events @ [(provider_event FileChanged payload)\<lparr>pv_detail_pointer := first_word payload\<rparr>], session)
          else if verb = ''APPROVAL'' then
            (let (ident, summary) = verb_and_payload payload;
                 event = provider_event ApprovalRequired summary in
             (events @ [if ident \<noteq> [] then event\<lparr>pv_detail_pointer := Some ident\<rparr> else event], session))
          else if verb = ''INPUT'' then (events @ [provider_event InputRequired payload], session)
          else if verb = ''ERROR'' then (events @ [provider_event ErrorOccurred payload], session)
          else if verb = ''EXIT'' then
            (let (status, summary) = verb_and_payload payload in
             if status = ''ok'' then (events @ [provider_event WorkflowCompleted summary], session)
             else if status = ''fail'' then (events @ [provider_event ErrorOccurred summary], session)
             else (events, session))
          else if verb = ''SESSION'' then
            (let ident = trim payload in
             if ident \<noteq> [] then (events, Some ident) else (events, session))
          else (events, session)))"

text \<open>The lines one call of \<open>consume\<close> parses, and what it keeps for the next.\<close>

definition take_lines :: "string \<Rightarrow> bool \<Rightarrow> string list \<times> string" where
  "take_lines tail finished =
     (if finished
      then (full_lines tail @ (if fragment tail = [] then [] else [fragment tail]), [])
      else (full_lines tail, fragment tail))"

definition parse_lines ::
  "string \<Rightarrow> string list \<Rightarrow> ProviderEvent list \<times> string option \<Rightarrow> ProviderEvent list \<times> string option" where
  "parse_lines prefix ls = fold (\<lambda>line. parse_line prefix (trim_end_cr (utf8_lossy line))) ls"

definition consume ::
  "string \<Rightarrow> string \<Rightarrow> nat \<Rightarrow> string \<Rightarrow> bool \<Rightarrow> ProviderEvent list \<times> string option \<Rightarrow>
   nat \<times> string \<times> ProviderEvent list \<times> string option" where
  "consume prefix bytes cursor tail finished out =
     (let start = min cursor (length bytes);
          tail1 = tail @ drop start bytes;
          (ls, tail2) = take_lines tail1 finished in
      (length bytes, tail2, parse_lines prefix ls out))"

section \<open>Adapters with a marker grammar\<close>

record MarkerAdapter =
  ma_child :: "PlainChild option"
  ma_stdout_cursor :: nat
  ma_stderr_cursor :: nat
  ma_stdout_tail :: string
  ma_stderr_tail :: string
  ma_provider_session_id :: "string option"
  ma_stop_requested :: bool
  ma_terminal_emitted :: bool

definition marker_new :: MarkerAdapter where
  "marker_new = \<lparr>ma_child = None, ma_stdout_cursor = 0, ma_stderr_cursor = 0, ma_stdout_tail = [],
     ma_stderr_tail = [], ma_provider_session_id = None, ma_stop_requested = False, ma_terminal_emitted = False\<rparr>"

definition marker_reset :: "MarkerAdapter \<Rightarrow> MarkerAdapter" where
  "marker_reset a = a\<lparr>ma_child := None, ma_stdout_cursor := 0, ma_stderr_cursor := 0, ma_stdout_tail := [],
     ma_stderr_tail := [], ma_provider_session_id := None, ma_stop_requested := False, ma_terminal_emitted := False\<rparr>"

text \<open>\<open>child.wait(Some(EXIT_POLL))\<close> with its result ignored.\<close>

definition marker_poll :: "wait_result \<Rightarrow> MarkerAdapter \<Rightarrow> MarkerAdapter" where
  "marker_poll os a = a\<lparr>ma_child := map_option (\<lambda>child. snd (child_wait os child)) (ma_child a)\<rparr>"

definition marker_is_running :: "MarkerAdapter \<Rightarrow> bool" where
  "marker_is_running a = (case ma_child a of None \<Rightarrow> False | Some child \<Rightarrow> child_exit_code child = None)"

definition marker_capabilities :: Capabilities where
  "marker_capabilities = \<lparr>cap_streaming = True, cap_interactive_input = False, cap_approvals = False,
     cap_file_events = True, cap_resume = True, cap_stop = True, cap_diagnostics = True\<rparr>"

definition marker_spawn ::
  "launcher \<Rightarrow> wait_result \<Rightarrow> SpawnRequest \<Rightarrow> MarkerAdapter \<Rightarrow> (AdapterError + unit) \<times> MarkerAdapter" where
  "marker_spawn launch os req a =
     (if sq_interactive req then (Inl Unsupported, a)
      else if sq_argv req = [] then (Inl (SpawnFailed ''argv is empty''), a)
      else
        let a1 = marker_poll os a in
        if marker_is_running a1 then (Inl (SpawnFailed ''already running''), a1)
        else
          let a2 = marker_reset a1;
              config = \<lparr>pg_argv = sq_argv req, pg_working_dir = sq_working_dir req, pg_env = sq_env req,
                        pg_input = None, pg_output_cap_bytes = sq_output_cap_bytes req\<rparr> in
          case launch config of
            Inr child \<Rightarrow> (Inr (), a2\<lparr>ma_child := Some child\<rparr>)
          | Inl err \<Rightarrow> (Inl (SpawnFailed (PtyError_text err)), a2))"

definition marker_inject :: "string \<Rightarrow> MarkerAdapter \<Rightarrow> (AdapterError + unit) \<times> MarkerAdapter" where
  "marker_inject input a = (if ma_child a = None then (Inl NotRunning, a) else (Inl Unsupported, a))"

definition marker_respond_approval ::
  "string \<Rightarrow> ApprovalDecision \<Rightarrow> MarkerAdapter \<Rightarrow> (AdapterError + ApprovalOutcome) \<times> MarkerAdapter" where
  "marker_respond_approval request_id decision a = (Inl Unsupported, a)"

text \<open>\<open>PlainChild::kill\<close> returns \<open>Ok\<close> whatever \<open>TerminateJobObject\<close> says.\<close>

definition marker_stop :: "MarkerAdapter \<Rightarrow> (AdapterError + unit) \<times> MarkerAdapter" where
  "marker_stop a = (case ma_child a of
       None \<Rightarrow> (Inl NotRunning, a)
     | Some child \<Rightarrow> (Inr (), a\<lparr>ma_stop_requested := True\<rparr>))"

definition terminal_event :: "MarkerAdapter \<Rightarrow> PlainChild \<Rightarrow> ProviderEvent list" where
  "terminal_event a child =
     (if ma_stop_requested a then [provider_event WorkflowStopped ''stopped'']
      else case child_exit_code child of
        Some code \<Rightarrow>
          if code = 0 then [provider_event WorkflowCompleted ''exit 0'']
          else [provider_event ErrorOccurred (''exit '' @ show_int code)]
      | None \<Rightarrow> [])"

definition marker_drain ::
  "string \<Rightarrow> wait_result \<Rightarrow> MarkerAdapter \<Rightarrow> ProviderEvent list \<times> MarkerAdapter" where
  "marker_drain prefix os a = (case ma_child a of
       None \<Rightarrow> ([], a)
     | Some child0 \<Rightarrow>
         let child = snd (child_wait os child0);
             finished = (child_exit_code child \<noteq> None);
             snap = child_snapshot child;
             (cursor1, tail1, events1, session1) =
               consume prefix (po_stdout snap) (ma_stdout_cursor a) (ma_stdout_tail a) finished
                 ([], ma_provider_session_id a);
             (cursor2, tail2, events2, session2) =
               consume prefix (po_stderr snap) (ma_stderr_cursor a) (ma_stderr_tail a) finished
                 (events1, session1);
             a1 = a\<lparr>ma_child := Some child, ma_stdout_cursor := cursor1, ma_stdout_tail := tail1,
                    ma_stderr_cursor := cursor2, ma_stderr_tail := tail2, ma_provider_session_id := session2\<rparr> in
         if finished \<and> \<not> ma_terminal_emitted a
         then (events2 @ terminal_event a1 child, a1\<lparr>ma_terminal_emitted := True\<rparr>)
         else (events2, a1))"

definition marker_snapshot :: "wait_result \<Rightarrow> MarkerAdapter \<Rightarrow> AdapterSnapshot \<times> MarkerAdapter" where
  "marker_snapshot os a0 =
     (let a = marker_poll os a0;
          exit_code = (case ma_child a of None \<Rightarrow> None | Some child \<Rightarrow> child_exit_code child) in
      (\<lparr>as_running = (ma_child a \<noteq> None \<and> exit_code = None), as_exit_code = exit_code,
        as_provider_session_id = ma_provider_session_id a, as_resume_pointer = ma_provider_session_id a\<rparr>, a))"

subsection \<open>claude.rs\<close>

definition CLAUDE_PREFIX :: string where "CLAUDE_PREFIX = ''CLAUDE_''"
definition claude_parse_line where "claude_parse_line = parse_line CLAUDE_PREFIX"
definition claude_consume where "claude_consume = consume CLAUDE_PREFIX"
definition claude_drain where "claude_drain = marker_drain CLAUDE_PREFIX"

subsection \<open>codex.rs\<close>

type_synonym CodexAdapter = MarkerAdapter

definition CODEX_PREFIX :: string where "CODEX_PREFIX = ''CODEX_''"
definition codex_parse_line where "codex_parse_line = parse_line CODEX_PREFIX"
definition codex_consume where "codex_consume = consume CODEX_PREFIX"
definition codex_new :: MarkerAdapter where "codex_new = marker_new"
definition codex_reset where "codex_reset = marker_reset"
definition codex_is_running where "codex_is_running = marker_is_running"
definition codex_capabilities where "codex_capabilities = marker_capabilities"
definition codex_spawn where "codex_spawn = marker_spawn"
definition codex_inject where "codex_inject = marker_inject"
definition codex_respond_approval where "codex_respond_approval = marker_respond_approval"
definition codex_stop where "codex_stop = marker_stop"
definition codex_drain where "codex_drain = marker_drain CODEX_PREFIX"
definition codex_snapshot where "codex_snapshot = marker_snapshot"

subsection \<open>opencode.rs\<close>

type_synonym OpencodeAdapter = MarkerAdapter

definition OPENCODE_PREFIX :: string where "OPENCODE_PREFIX = ''OPENCODE_''"
definition opencode_parse_line where "opencode_parse_line = parse_line OPENCODE_PREFIX"
definition opencode_consume where "opencode_consume = consume OPENCODE_PREFIX"
definition opencode_new :: MarkerAdapter where "opencode_new = marker_new"
definition opencode_reset where "opencode_reset = marker_reset"
definition opencode_is_running where "opencode_is_running = marker_is_running"
definition opencode_capabilities where "opencode_capabilities = marker_capabilities"
definition opencode_spawn where "opencode_spawn = marker_spawn"
definition opencode_inject where "opencode_inject = marker_inject"
definition opencode_respond_approval where "opencode_respond_approval = marker_respond_approval"
definition opencode_stop where "opencode_stop = marker_stop"
definition opencode_drain where "opencode_drain = marker_drain OPENCODE_PREFIX"
definition opencode_snapshot where "opencode_snapshot = marker_snapshot"

section \<open>The generic adapter\<close>

record GenericAdapter =
  ga_child :: "PlainChild option"
  ga_pending_started :: "ProviderEvent option"
  ga_emitted_lines :: nat
  ga_completed :: bool

definition generic_new :: GenericAdapter where
  "generic_new = \<lparr>ga_child = None, ga_pending_started = None, ga_emitted_lines = 0, ga_completed = False\<rparr>"

text \<open>A cached exit code, or a poll whose error counts as no answer.\<close>

definition generic_exit_code :: "wait_result \<Rightarrow> PlainChild \<Rightarrow> int option \<Rightarrow> int option \<times> PlainChild" where
  "generic_exit_code os child cached = (case cached of
       Some code \<Rightarrow> (Some code, child)
     | None \<Rightarrow> (case child_wait os child of
                  (Inr code, child') \<Rightarrow> (code, child')
                | (Inl _, child') \<Rightarrow> (None, child')))"

definition generic_capabilities :: Capabilities where
  "generic_capabilities = \<lparr>cap_streaming = True, cap_interactive_input = False, cap_approvals = False,
     cap_file_events = False, cap_resume = False, cap_stop = True, cap_diagnostics = False\<rparr>"

definition map_spawn_error :: "PtyError \<Rightarrow> AdapterError" where
  "map_spawn_error error = (case error of
       PtyError.Io io \<Rightarrow> AdapterError.Io io
     | other \<Rightarrow> SpawnFailed (PtyError_text other))"

definition generic_spawn ::
  "launcher \<Rightarrow> SpawnRequest \<Rightarrow> GenericAdapter \<Rightarrow> (AdapterError + unit) \<times> GenericAdapter" where
  "generic_spawn launch req a =
     (if sq_interactive req then (Inl Unsupported, a)
      else
        let summary = ''started: '' @ join_spaces (sq_argv req);
            config = (plain_config_new (sq_argv req))\<lparr>pg_working_dir := sq_working_dir req, pg_env := sq_env req,
                       pg_output_cap_bytes := sq_output_cap_bytes req\<rparr> in
        case launch config of
          Inr child \<Rightarrow> (Inr (), \<lparr>ga_child = Some child,
             ga_pending_started = Some (provider_event CommandStarted summary), ga_emitted_lines = 0,
             ga_completed = False\<rparr>)
        | Inl error \<Rightarrow> (Inl (map_spawn_error error), a))"

definition generic_inject :: "string \<Rightarrow> GenericAdapter \<Rightarrow> (AdapterError + unit) \<times> GenericAdapter" where
  "generic_inject input a = (if ga_child a = None then (Inl NotRunning, a) else (Inl Unsupported, a))"

definition generic_respond_approval ::
  "string \<Rightarrow> ApprovalDecision \<Rightarrow> GenericAdapter \<Rightarrow> (AdapterError + ApprovalOutcome) \<times> GenericAdapter" where
  "generic_respond_approval request_id decision a = (Inl Unsupported, a)"

definition generic_stop :: "GenericAdapter \<Rightarrow> (AdapterError + unit) \<times> GenericAdapter" where
  "generic_stop a = (Inr (), a)"

text \<open>The line events of a poll: from \<open>emitted\<close> up to the last line that is complete, or all after the exit.\<close>

definition generic_lines :: "string \<Rightarrow> int option \<Rightarrow> nat \<Rightarrow> string list \<times> nat" where
  "generic_lines stdout exit_code emitted =
     (let text = utf8_lossy stdout; ls = lines text; total = length ls;
          emit_up_to = (if exit_code = None \<and> \<not> (text \<noteq> [] \<and> last text = newline) \<and> total > emitted
                        then total - 1 else total);
          from = min emitted emit_up_to in
      (drop from (take emit_up_to ls), emit_up_to))"

definition completion_events :: "string \<Rightarrow> int \<Rightarrow> ProviderEvent list" where
  "completion_events stderr code =
     (if stderr = [] then [] else [provider_event ErrorOccurred (utf8_lossy stderr)])
     @ [provider_event CommandCompleted (''completed with exit code '' @ show_int code)]"

definition generic_drain :: "wait_result \<Rightarrow> GenericAdapter \<Rightarrow> ProviderEvent list \<times> GenericAdapter" where
  "generic_drain os a0 =
     (let out = (case ga_pending_started a0 of None \<Rightarrow> [] | Some started \<Rightarrow> [started]);
          a = a0\<lparr>ga_pending_started := None\<rparr> in
      if ga_completed a then (out, a)
      else case ga_child a of
        None \<Rightarrow> (out, a)
      | Some child0 \<Rightarrow>
          let snap = child_snapshot child0;
              (exit_code, child) = generic_exit_code os child0 (po_exit_code snap);
              (ls, emitted) = generic_lines (po_stdout snap) exit_code (ga_emitted_lines a);
              events = out @ map (provider_event EventType.Unspecified) ls;
              a1 = a\<lparr>ga_child := Some child, ga_emitted_lines := emitted\<rparr> in
          case exit_code of
            None \<Rightarrow> (events, a1)
          | Some code \<Rightarrow> (events @ completion_events (po_stderr snap) code, a1\<lparr>ga_completed := True\<rparr>))"

definition generic_snapshot :: "wait_result \<Rightarrow> GenericAdapter \<Rightarrow> AdapterSnapshot \<times> GenericAdapter" where
  "generic_snapshot os a = (case ga_child a of
       None \<Rightarrow> (\<lparr>as_running = False, as_exit_code = None, as_provider_session_id = None, as_resume_pointer = None\<rparr>, a)
     | Some child0 \<Rightarrow>
         let (exit_code, child) = generic_exit_code os child0 (child_exit_code child0) in
         (\<lparr>as_running = (exit_code = None), as_exit_code = exit_code, as_provider_session_id = None,
           as_resume_pointer = None\<rparr>, a\<lparr>ga_child := Some child\<rparr>))"

section \<open>The registry\<close>

datatype Adapter =
    GenericA GenericAdapter
  | OpencodeA MarkerAdapter
  | ClaudeA MarkerAdapter
  | CodexA MarkerAdapter

definition for_provider :: "Provider \<Rightarrow> AdapterError + Adapter" where
  "for_provider provider = (case provider of
       Generic \<Rightarrow> Inr (GenericA generic_new)
     | Opencode \<Rightarrow> Inr (OpencodeA opencode_new)
     | Claude \<Rightarrow> Inr (ClaudeA marker_new)
     | Codex \<Rightarrow> Inr (CodexA codex_new)
     | Provider.Unspecified \<Rightarrow> Inl Unsupported)"

fun adapter_name :: "Adapter \<Rightarrow> string" where
  "adapter_name (GenericA _) = ''generic''"
| "adapter_name (OpencodeA _) = ''opencode''"
| "adapter_name (ClaudeA _) = ''claude''"
| "adapter_name (CodexA _) = ''codex''"

fun adapter_provider :: "Adapter \<Rightarrow> Provider" where
  "adapter_provider (GenericA _) = Generic"
| "adapter_provider (OpencodeA _) = Opencode"
| "adapter_provider (ClaudeA _) = Claude"
| "adapter_provider (CodexA _) = Codex"

fun adapter_capabilities :: "Adapter \<Rightarrow> Capabilities" where
  "adapter_capabilities (GenericA _) = generic_capabilities"
| "adapter_capabilities (OpencodeA _) = opencode_capabilities"
| "adapter_capabilities (ClaudeA _) = marker_capabilities"
| "adapter_capabilities (CodexA _) = codex_capabilities"

definition rewrap :: "('a \<Rightarrow> Adapter) \<Rightarrow> 'r \<times> 'a \<Rightarrow> 'r \<times> Adapter" where
  "rewrap f = (\<lambda>(r, a). (r, f a))"

fun adapter_spawn :: "launcher \<Rightarrow> wait_result \<Rightarrow> SpawnRequest \<Rightarrow> Adapter \<Rightarrow> (AdapterError + unit) \<times> Adapter" where
  "adapter_spawn launch os req (GenericA a) = rewrap GenericA (generic_spawn launch req a)"
| "adapter_spawn launch os req (OpencodeA a) = rewrap OpencodeA (opencode_spawn launch os req a)"
| "adapter_spawn launch os req (ClaudeA a) = rewrap ClaudeA (marker_spawn launch os req a)"
| "adapter_spawn launch os req (CodexA a) = rewrap CodexA (codex_spawn launch os req a)"

fun adapter_inject :: "string \<Rightarrow> Adapter \<Rightarrow> (AdapterError + unit) \<times> Adapter" where
  "adapter_inject input (GenericA a) = rewrap GenericA (generic_inject input a)"
| "adapter_inject input (OpencodeA a) = rewrap OpencodeA (opencode_inject input a)"
| "adapter_inject input (ClaudeA a) = rewrap ClaudeA (marker_inject input a)"
| "adapter_inject input (CodexA a) = rewrap CodexA (codex_inject input a)"

fun adapter_respond_approval ::
  "string \<Rightarrow> ApprovalDecision \<Rightarrow> Adapter \<Rightarrow> (AdapterError + ApprovalOutcome) \<times> Adapter" where
  "adapter_respond_approval rid d (GenericA a) = rewrap GenericA (generic_respond_approval rid d a)"
| "adapter_respond_approval rid d (OpencodeA a) = rewrap OpencodeA (opencode_respond_approval rid d a)"
| "adapter_respond_approval rid d (ClaudeA a) = rewrap ClaudeA (marker_respond_approval rid d a)"
| "adapter_respond_approval rid d (CodexA a) = rewrap CodexA (codex_respond_approval rid d a)"

fun adapter_stop :: "Adapter \<Rightarrow> (AdapterError + unit) \<times> Adapter" where
  "adapter_stop (GenericA a) = rewrap GenericA (generic_stop a)"
| "adapter_stop (OpencodeA a) = rewrap OpencodeA (opencode_stop a)"
| "adapter_stop (ClaudeA a) = rewrap ClaudeA (marker_stop a)"
| "adapter_stop (CodexA a) = rewrap CodexA (codex_stop a)"

fun adapter_drain :: "wait_result \<Rightarrow> Adapter \<Rightarrow> ProviderEvent list \<times> Adapter" where
  "adapter_drain os (GenericA a) = rewrap GenericA (generic_drain os a)"
| "adapter_drain os (OpencodeA a) = rewrap OpencodeA (opencode_drain os a)"
| "adapter_drain os (ClaudeA a) = rewrap ClaudeA (claude_drain os a)"
| "adapter_drain os (CodexA a) = rewrap CodexA (codex_drain os a)"

fun adapter_snapshot :: "wait_result \<Rightarrow> Adapter \<Rightarrow> AdapterSnapshot \<times> Adapter" where
  "adapter_snapshot os (GenericA a) = rewrap GenericA (generic_snapshot os a)"
| "adapter_snapshot os (OpencodeA a) = rewrap OpencodeA (opencode_snapshot os a)"
| "adapter_snapshot os (ClaudeA a) = rewrap ClaudeA (marker_snapshot os a)"
| "adapter_snapshot os (CodexA a) = rewrap CodexA (codex_snapshot os a)"

end
