(* ===== verification/Adapter_Props.thy ===== *)
theory Adapter_Props
  imports Adapters
begin

text \<open>
  What the provider adapters guarantee: events depend on what the child printed and not on how the
  output was cut into chunks or when it was polled; one terminal event; honest capability flags;
  disjoint marker namespaces. And what they do not: output that arrives after the exit was
  observed.
\<close>

section \<open>Events of a line\<close>

definition line_events :: "string \<Rightarrow> string \<Rightarrow> ProviderEvent list" where
  "line_events prefix line = fst (parse_line prefix (trim_end_cr (utf8_lossy line)) ([], None))"

lemma parse_line_events: "fst (parse_line prefix line (events, session)) = events @ fst (parse_line prefix line ([], session'))"
  by (simp add: parse_line_def Let_def split: option.split prod.split)

lemma parse_lines_events: "fst (parse_lines prefix ls (events, session)) = events @ concat (map (line_events prefix) ls)"
proof (induction ls arbitrary: events session)
  case Nil
  show ?case by (simp add: parse_lines_def)
next
  case (Cons l ls)
  obtain ev ss where p: "parse_line prefix (trim_end_cr (utf8_lossy l)) (events, session) = (ev, ss)" by fastforce
  have "ev = events @ line_events prefix l"
    using parse_line_events [of prefix "trim_end_cr (utf8_lossy l)" events session None] p by (simp add: line_events_def)
  then show ?case using Cons [of ev ss] p by (simp add: parse_lines_def)
qed

definition stream_events :: "string \<Rightarrow> string list \<Rightarrow> ProviderEvent list" where
  "stream_events prefix ls = concat (map (line_events prefix) ls)"

text \<open>What a line does to the session, and the session after some lines: the last one that was named.\<close>

definition line_session :: "string \<Rightarrow> string \<Rightarrow> string option \<Rightarrow> string option" where
  "line_session prefix line session = snd (parse_line prefix (trim_end_cr (utf8_lossy line)) ([], session))"

definition names_session :: "string \<Rightarrow> string \<Rightarrow> bool" where
  "names_session prefix line \<longleftrightarrow> line_session prefix line None \<noteq> None"

definition last_session :: "string \<Rightarrow> string list \<Rightarrow> string option \<Rightarrow> string option" where
  "last_session prefix ls = fold (line_session prefix) ls"

lemma last_session_append [simp]: "last_session p (ls @ ms) s = last_session p ms (last_session p ls s)"
  by (simp add: last_session_def)

lemma line_session_silent: "\<not> names_session p l \<Longrightarrow> line_session p l s = s"
  by (auto simp: names_session_def line_session_def parse_line_def Let_def split: option.splits prod.splits if_splits)

lemma last_session_silent: "list_all (\<lambda>l. \<not> names_session p l) ls \<Longrightarrow> last_session p ls s = s"
  by (induction ls arbitrary: s) (simp_all add: last_session_def line_session_silent)

lemma parse_lines_session: "snd (parse_lines prefix ls (events, session)) = last_session prefix ls session"
proof (induction ls arbitrary: events session)
  case Nil
  show ?case by (simp add: parse_lines_def last_session_def)
next
  case (Cons l ls)
  obtain ev ss where p: "parse_line prefix (trim_end_cr (utf8_lossy l)) (events, session) = (ev, ss)" by fastforce
  have "snd (parse_line prefix t (events, session)) = snd (parse_line prefix t ([], session))" for t
    by (simp add: parse_line_def Let_def split: option.split prod.split)
  then have "ss = line_session prefix l session" using p by (metis line_session_def snd_conv)
  then show ?case using Cons [of ev ss] p by (simp add: parse_lines_def last_session_def)
qed

text \<open>All lines of a finished stream, an unterminated last one included.\<close>

definition all_lines :: "string \<Rightarrow> string list" where
  "all_lines s = full_lines s @ (if fragment s = [] then [] else [fragment s])"

lemma stream_events_append [simp]: "stream_events p (ls @ ms) = stream_events p ls @ stream_events p ms"
  by (simp add: stream_events_def)

section \<open>Interleavings\<close>

lemma shuffles_append:
  "xs \<in> shuffles a b \<Longrightarrow> ys \<in> shuffles c d \<Longrightarrow> xs @ ys \<in> shuffles (a @ c) (b @ d)"
proof (induction a b arbitrary: xs rule: shuffles.induct)
  case (1 b)
  then show ?case
  proof (induction b arbitrary: xs)
    case (Cons z zs)
    then show ?case by (cases "c") (auto simp: Cons_in_shuffles_rightI)
  qed simp
next
  case (2 a)
  then show ?case
  proof (induction a arbitrary: xs)
    case (Cons z zs)
    then show ?case by (auto simp: Cons_in_shuffles_leftI)
  qed simp
next
  case (3 x xs' y ys')
  then show ?case by (auto simp: Cons_in_shuffles_leftI Cons_in_shuffles_rightI)
qed

lemma concat_in_shuffles: "a @ b \<in> shuffles a b"
  using shuffles_append [of a a "[]" b "[]" b] by simp

section \<open>Feeding a stream\<close>

text \<open>A stream whose parser has seen the prefix \<open>seen\<close>: the cursor is past it and its unterminated end is held back.\<close>

definition in_step :: "string \<Rightarrow> nat \<Rightarrow> string \<Rightarrow> string \<Rightarrow> bool" where
  "in_step seen cursor tail bytes \<longleftrightarrow> cursor = length seen \<and> tail = fragment seen \<and> take (length seen) bytes = seen"

lemma consume_in_step:
  assumes "in_step seen cursor tail bytes"
  shows "consume prefix bytes cursor tail False out =
      (length bytes, fragment bytes, parse_lines prefix (full_lines (tail @ drop cursor bytes)) out)"
    "full_lines bytes = full_lines seen @ full_lines (tail @ drop cursor bytes)"
    "in_step bytes (length bytes) (fragment bytes) bytes"
proof -
  have len: "length seen \<le> length bytes" using assms by (metis in_step_def length_take min.cobounded1)
  have b: "bytes = seen @ drop (length seen) bytes" using assms by (metis append_take_drop_id in_step_def)
  have f: "full_lines bytes = full_lines seen @ full_lines (tail @ drop cursor bytes)"
    "fragment bytes = fragment (tail @ drop cursor bytes)"
    using split_append [of seen "drop (length seen) bytes"] b assms by (auto simp: in_step_def)
  then show "full_lines bytes = full_lines seen @ full_lines (tail @ drop cursor bytes)" by simp
  show "consume prefix bytes cursor tail False out =
      (length bytes, fragment bytes, parse_lines prefix (full_lines (tail @ drop cursor bytes)) out)"
    using len assms f by (simp add: consume_def take_lines_def in_step_def Let_def min_def)
  show "in_step bytes (length bytes) (fragment bytes) bytes" by (simp add: in_step_def)
qed

lemma consume_finished:
  assumes "in_step seen cursor tail bytes"
  shows "\<exists>ls. (\<forall>out. consume prefix bytes cursor tail True out = (length bytes, [], parse_lines prefix ls out)) \<and>
    all_lines bytes = full_lines seen @ ls"
proof -
  have len: "length seen \<le> length bytes" using assms by (metis in_step_def length_take min.cobounded1)
  have b: "bytes = seen @ drop (length seen) bytes" using assms by (metis append_take_drop_id in_step_def)
  have f: "full_lines bytes = full_lines seen @ full_lines (tail @ drop cursor bytes)"
    "fragment bytes = fragment (tail @ drop cursor bytes)"
    using split_append [of seen "drop (length seen) bytes"] b assms by (auto simp: in_step_def)
  show ?thesis using len assms f
    by (auto simp: consume_def take_lines_def in_step_def Let_def min_def all_lines_def)
qed

section \<open>A running child\<close>

text \<open>What happens to an adapter while its child runs: chunks arrive on either stream, core polls.\<close>

datatype stream_input = OutChunk string | ErrChunk string | Drain wait_result

definition on_child :: "(PlainChild \<Rightarrow> PlainChild) \<Rightarrow> MarkerAdapter \<Rightarrow> MarkerAdapter" where
  "on_child f a = a\<lparr>ma_child := map_option f (ma_child a)\<rparr>"

fun marker_input :: "string \<Rightarrow> stream_input \<Rightarrow> ProviderEvent list \<times> MarkerAdapter \<Rightarrow> ProviderEvent list \<times> MarkerAdapter" where
  "marker_input prefix (OutChunk c) (evs, a) = (evs, on_child (\<lambda>ch. ch\<lparr>ch_stdout := push (ch_stdout ch) c\<rparr>) a)"
| "marker_input prefix (ErrChunk c) (evs, a) = (evs, on_child (\<lambda>ch. ch\<lparr>ch_stderr := push (ch_stderr ch) c\<rparr>) a)"
| "marker_input prefix (Drain os) (evs, a) = (let (new, a') = marker_drain prefix os a in (evs @ new, a'))"

definition marker_run :: "string \<Rightarrow> stream_input list \<Rightarrow> ProviderEvent list \<times> MarkerAdapter \<Rightarrow> ProviderEvent list \<times> MarkerAdapter" where
  "marker_run prefix inputs = fold (marker_input prefix) inputs"

fun still_runs :: "stream_input \<Rightarrow> bool" where
  "still_runs (Drain (Exited code)) = False"
| "still_runs _ = True"

fun out_bytes :: "stream_input list \<Rightarrow> string" where
  "out_bytes [] = []"
| "out_bytes (OutChunk c # is) = c @ out_bytes is"
| "out_bytes (_ # is) = out_bytes is"

fun err_bytes :: "stream_input list \<Rightarrow> string" where
  "err_bytes [] = []"
| "err_bytes (ErrChunk c # is) = c @ err_bytes is"
| "err_bytes (_ # is) = err_bytes is"

definition sink_holds :: "CappedSink \<Rightarrow> nat \<Rightarrow> string \<Rightarrow> bool" where
  "sink_holds s cap all \<longleftrightarrow> cs_cap s = cap \<and> cs_buf s = take cap all"

definition running_ok ::
  "string \<Rightarrow> nat \<Rightarrow> string \<Rightarrow> string \<Rightarrow> ProviderEvent list \<times> MarkerAdapter \<Rightarrow> bool" where
  "running_ok prefix cap out err s \<longleftrightarrow> (\<exists>ch so se. ma_child (snd s) = Some ch \<and> \<not> ch_exited ch \<and>
     \<not> ma_terminal_emitted (snd s) \<and> \<not> ma_stop_requested (snd s) \<and>
     sink_holds (ch_stdout ch) cap out \<and> sink_holds (ch_stderr ch) cap err \<and>
     in_step so (ma_stdout_cursor (snd s)) (ma_stdout_tail (snd s)) (cs_buf (ch_stdout ch)) \<and>
     in_step se (ma_stderr_cursor (snd s)) (ma_stderr_tail (snd s)) (cs_buf (ch_stderr ch)) \<and>
     fst s \<in> shuffles (stream_events prefix (full_lines so)) (stream_events prefix (full_lines se)) \<and>
     (list_all (\<lambda>l. \<not> names_session prefix l) (full_lines se) \<longrightarrow>
       ma_provider_session_id (snd s) = last_session prefix (full_lines so) None))"

lemma push_holds:
  assumes "sink_holds s cap all"
  shows "sink_holds (push s c) cap (all @ c)"
    "in_step seen cursor tail (cs_buf s) \<Longrightarrow> in_step seen cursor tail (cs_buf (push s c))"
proof -
  show "sink_holds (push s c) cap (all @ c)"
    using assms by (auto simp: sink_holds_def push_def Let_def min_def)
  show "in_step seen cursor tail (cs_buf (push s c))" if "in_step seen cursor tail (cs_buf s)"
  proof -
    have "length seen \<le> length (cs_buf s)" using that by (metis in_step_def length_take min.cobounded1)
    then show ?thesis using that by (simp add: in_step_def push_def Let_def)
  qed
qed

text \<open>The lines a drain parses on each stream, given where the parsers are.\<close>

lemma marker_drain_running:
  assumes "ma_child a = Some ch" "\<not> ch_exited ch" "\<And>code. os \<noteq> Exited code"
    "in_step so (ma_stdout_cursor a) (ma_stdout_tail a) (cs_buf (ch_stdout ch))"
    "in_step se (ma_stderr_cursor a) (ma_stderr_tail a) (cs_buf (ch_stderr ch))"
  shows "\<exists>lo le a'. marker_drain prefix os a = (stream_events prefix lo @ stream_events prefix le, a') \<and>
    full_lines (cs_buf (ch_stdout ch)) = full_lines so @ lo \<and> full_lines (cs_buf (ch_stderr ch)) = full_lines se @ le \<and>
    ma_child a' = Some ch \<and> ma_terminal_emitted a' = ma_terminal_emitted a \<and> ma_stop_requested a' = ma_stop_requested a \<and>
    in_step (cs_buf (ch_stdout ch)) (ma_stdout_cursor a') (ma_stdout_tail a') (cs_buf (ch_stdout ch)) \<and>
    in_step (cs_buf (ch_stderr ch)) (ma_stderr_cursor a') (ma_stderr_tail a') (cs_buf (ch_stderr ch)) \<and>
    ma_provider_session_id a' = last_session prefix le (last_session prefix lo (ma_provider_session_id a))"
proof -
  have w: "snd (child_wait os ch) = ch" using assms(2,3) by (cases os) (auto simp: child_wait_def)
  have x: "child_exit_code ch = None" using assms(2) by (simp add: child_exit_code_def)
  let ?o = "cs_buf (ch_stdout ch)" and ?e = "cs_buf (ch_stderr ch)"
  let ?lo = "full_lines (ma_stdout_tail a @ drop (ma_stdout_cursor a) ?o)"
  let ?le = "full_lines (ma_stderr_tail a @ drop (ma_stderr_cursor a) ?e)"
  obtain e1 s1 where p1: "parse_lines prefix ?lo ([], ma_provider_session_id a) = (e1, s1)" by fastforce
  obtain e2 s2 where p2: "parse_lines prefix ?le (e1, s1) = (e2, s2)" by fastforce
  have s2: "s2 = last_session prefix ?le (last_session prefix ?lo (ma_provider_session_id a))"
    using parse_lines_session p1 p2 by (metis snd_conv)
  have "e1 = stream_events prefix ?lo" using parse_lines_events [of prefix ?lo "[]" "ma_provider_session_id a"] p1
    by (simp add: stream_events_def)
  then have e2: "e2 = stream_events prefix ?lo @ stream_events prefix ?le"
    using parse_lines_events [of prefix ?le e1 s1] p2 by (simp add: stream_events_def)
  have "marker_drain prefix os a = (e2, a\<lparr>ma_child := Some ch, ma_stdout_cursor := length ?o, ma_stdout_tail := fragment ?o,
       ma_stderr_cursor := length ?e, ma_stderr_tail := fragment ?e, ma_provider_session_id := s2\<rparr>)"
    using assms(1) w x p1 p2
    by (simp add: marker_drain_def child_snapshot_def consume_in_step(1) [OF assms(4)] consume_in_step(1) [OF assms(5)] Let_def)
  then show ?thesis
    using e2 s2 consume_in_step(2,3) [OF assms(4)] consume_in_step(2,3) [OF assms(5)] assms(1) by auto
qed

lemma running_ok_input:
  assumes "running_ok prefix cap out err s" "still_runs i"
  shows "running_ok prefix cap (out @ out_bytes [i]) (err @ err_bytes [i]) (marker_input prefix i s)"
proof -
  obtain evs a where s: "s = (evs, a)" by fastforce
  obtain ch so se where r: "ma_child a = Some ch" "\<not> ch_exited ch" "\<not> ma_terminal_emitted a" "\<not> ma_stop_requested a"
    "sink_holds (ch_stdout ch) cap out" "sink_holds (ch_stderr ch) cap err"
    "in_step so (ma_stdout_cursor a) (ma_stdout_tail a) (cs_buf (ch_stdout ch))"
    "in_step se (ma_stderr_cursor a) (ma_stderr_tail a) (cs_buf (ch_stderr ch))"
    "evs \<in> shuffles (stream_events prefix (full_lines so)) (stream_events prefix (full_lines se))"
    "list_all (\<lambda>l. \<not> names_session prefix l) (full_lines se) \<longrightarrow> ma_provider_session_id a = last_session prefix (full_lines so) None"
    using assms(1) by (auto simp: running_ok_def s)
  show ?thesis
  proof (cases i)
    case (OutChunk c)
    then show ?thesis using r push_holds(1) [OF r(5), of c] push_holds(2) [OF r(5) r(7), of c]
      by (simp add: s running_ok_def on_child_def) blast
  next
    case (ErrChunk c)
    then show ?thesis using r push_holds(1) [OF r(6), of c] push_holds(2) [OF r(6) r(8), of c]
      by (simp add: s running_ok_def on_child_def) blast
  next
    case (Drain os)
    then have os: "\<And>code. os \<noteq> Exited code" using assms(2) by auto
    obtain lo le a' where d: "marker_drain prefix os a = (stream_events prefix lo @ stream_events prefix le, a')"
      "full_lines (cs_buf (ch_stdout ch)) = full_lines so @ lo" "full_lines (cs_buf (ch_stderr ch)) = full_lines se @ le"
      "ma_child a' = Some ch" "ma_terminal_emitted a' = ma_terminal_emitted a" "ma_stop_requested a' = ma_stop_requested a"
      "in_step (cs_buf (ch_stdout ch)) (ma_stdout_cursor a') (ma_stdout_tail a') (cs_buf (ch_stdout ch))"
      "in_step (cs_buf (ch_stderr ch)) (ma_stderr_cursor a') (ma_stderr_tail a') (cs_buf (ch_stderr ch))"
      "ma_provider_session_id a' = last_session prefix le (last_session prefix lo (ma_provider_session_id a))"
      using marker_drain_running [OF r(1,2) os r(7,8)] by blast
    have "evs @ (stream_events prefix lo @ stream_events prefix le) \<in>
        shuffles (stream_events prefix (full_lines so @ lo)) (stream_events prefix (full_lines se @ le))"
      using shuffles_append [OF r(9) concat_in_shuffles] by simp
    then show ?thesis using Drain d(1,4-9) r unfolding s running_ok_def
      by (intro exI [of _ ch] exI [of _ "cs_buf (ch_stdout ch)"] exI [of _ "cs_buf (ch_stderr ch)"])
         (simp add: d(2,3) last_session_silent)
  qed
qed

lemma out_err_append: "out_bytes (is @ js) = out_bytes is @ out_bytes js" "err_bytes (is @ js) = err_bytes is @ err_bytes js"
  by (induction "is" rule: out_bytes.induct) auto

lemma running_ok_run:
  assumes "running_ok prefix cap [] [] s" "\<forall>i\<in>set inputs. still_runs i"
  shows "running_ok prefix cap (out_bytes inputs) (err_bytes inputs) (marker_run prefix inputs s)"
  using assms(2)
proof (induction inputs rule: rev_induct)
  case Nil
  then show ?case using assms(1) by (simp add: marker_run_def)
next
  case (snoc i inputs)
  then show ?case using running_ok_input [of prefix cap "out_bytes inputs" "err_bytes inputs" _ i]
    by (simp add: marker_run_def out_err_append)
qed

text \<open>The adapter right after a successful spawn.\<close>

definition spawned :: "PlainConfig \<Rightarrow> MarkerAdapter" where
  "spawned config = marker_new\<lparr>ma_child := Some (child_new config)\<rparr>"

definition stream_cap :: "PlainConfig \<Rightarrow> nat" where
  "stream_cap config = clamp_cap (pg_output_cap_bytes config)"

lemma running_ok_spawned: "running_ok prefix (stream_cap config) [] [] ([], spawned config)"
  by (auto simp: running_ok_def spawned_def child_new_def marker_new_def stream_cap_def sink_holds_def sink_new_def Let_def
      in_step_def fragment_def full_lines_def stream_events_def last_session_def)

lemma marker_drain_exit:
  assumes "ma_child a = Some ch" "\<not> ch_exited ch" "\<not> ma_terminal_emitted a"
    "in_step so (ma_stdout_cursor a) (ma_stdout_tail a) (cs_buf (ch_stdout ch))"
    "in_step se (ma_stderr_cursor a) (ma_stderr_tail a) (cs_buf (ch_stderr ch))"
  shows "\<exists>lo le a'. marker_drain prefix (Exited code) a = (stream_events prefix lo @ stream_events prefix le @
      terminal_event a (ch\<lparr>ch_exit_code := code, ch_exited := True\<rparr>), a') \<and> ma_terminal_emitted a' \<and>
    all_lines (cs_buf (ch_stdout ch)) = full_lines so @ lo \<and> all_lines (cs_buf (ch_stderr ch)) = full_lines se @ le \<and>
    ma_child a' = Some (ch\<lparr>ch_exit_code := code, ch_exited := True\<rparr>) \<and>
    ma_provider_session_id a' = last_session prefix le (last_session prefix lo (ma_provider_session_id a))"
proof -
  let ?ch = "ch\<lparr>ch_exit_code := code, ch_exited := True\<rparr>"
  have w: "snd (child_wait (Exited code) ch) = ?ch" using assms(2) by (simp add: child_wait_def)
  let ?o = "cs_buf (ch_stdout ch)" and ?e = "cs_buf (ch_stderr ch)"
  obtain lo where lo: "\<And>out. consume prefix ?o (ma_stdout_cursor a) (ma_stdout_tail a) True out = (length ?o, [], parse_lines prefix lo out)"
    "all_lines ?o = full_lines so @ lo"
    using consume_finished [OF assms(4)] by blast
  obtain le where le: "\<And>out. consume prefix ?e (ma_stderr_cursor a) (ma_stderr_tail a) True out = (length ?e, [], parse_lines prefix le out)"
    "all_lines ?e = full_lines se @ le"
    using consume_finished [OF assms(5)] by blast
  obtain e1 s1 where p1: "parse_lines prefix lo ([], ma_provider_session_id a) = (e1, s1)" by fastforce
  obtain e2 s2 where p2: "parse_lines prefix le (e1, s1) = (e2, s2)" by fastforce
  have s2: "s2 = last_session prefix le (last_session prefix lo (ma_provider_session_id a))"
    using parse_lines_session p1 p2 by (metis snd_conv)
  have "e1 = stream_events prefix lo" using parse_lines_events [of prefix lo "[]" "ma_provider_session_id a"] p1
    by (simp add: stream_events_def)
  then have "e2 = stream_events prefix lo @ stream_events prefix le"
    using parse_lines_events [of prefix le e1 s1] p2 by (simp add: stream_events_def)
  then show ?thesis using assms(1,3) w lo le p1 p2 s2
    by (simp add: marker_drain_def child_snapshot_def child_exit_code_def terminal_event_def Let_def)
qed

text \<open>
  C28. The events of an adapter do not depend on how the child's output was cut into chunks or when
  core polled: with any chunks on the two streams and any polls while the child runs, followed by
  the drain that sees the exit, the events are an interleaving of the events of the lines of the
  two (capped) streams, each line parsed once and in its stream's order, and after them the one
  terminal event of the exit code. The resume pointer a snapshot then shows is the last session that
  the standard output named, in every such run in which the error output names none.
\<close>

theorem marker_stream_exact:
  assumes "\<forall>i\<in>set inputs. still_runs i"
  shows "\<exists>evs a. marker_run prefix (inputs @ [Drain (Exited code)]) ([], spawned config) = (evs @
      [if code = 0 then provider_event WorkflowCompleted ''exit 0''
       else provider_event ErrorOccurred (''exit '' @ show_int code)], a) \<and> ma_terminal_emitted a \<and>
    evs \<in> shuffles
      (stream_events prefix (all_lines (take (stream_cap config) (out_bytes inputs))))
      (stream_events prefix (all_lines (take (stream_cap config) (err_bytes inputs)))) \<and>
    (list_all (\<lambda>l. \<not> names_session prefix l) (all_lines (take (stream_cap config) (err_bytes inputs))) \<longrightarrow>
      as_resume_pointer (fst (marker_snapshot poll a)) =
        last_session prefix (all_lines (take (stream_cap config) (out_bytes inputs))) None)"
proof -
  obtain evs a where run: "marker_run prefix inputs ([], spawned config) = (evs, a)" by fastforce
  have "running_ok prefix (stream_cap config) (out_bytes inputs) (err_bytes inputs) (evs, a)"
    using running_ok_run [OF running_ok_spawned assms] run by metis
  then obtain ch so se where r: "ma_child a = Some ch" "\<not> ch_exited ch" "\<not> ma_terminal_emitted a" "\<not> ma_stop_requested a"
    "sink_holds (ch_stdout ch) (stream_cap config) (out_bytes inputs)" "sink_holds (ch_stderr ch) (stream_cap config) (err_bytes inputs)"
    "in_step so (ma_stdout_cursor a) (ma_stdout_tail a) (cs_buf (ch_stdout ch))"
    "in_step se (ma_stderr_cursor a) (ma_stderr_tail a) (cs_buf (ch_stderr ch))"
    "evs \<in> shuffles (stream_events prefix (full_lines so)) (stream_events prefix (full_lines se))"
    "list_all (\<lambda>l. \<not> names_session prefix l) (full_lines se) \<longrightarrow> ma_provider_session_id a = last_session prefix (full_lines so) None"
    by (auto simp: running_ok_def)
  obtain lo le a' where d: "marker_drain prefix (Exited code) a = (stream_events prefix lo @ stream_events prefix le @
      terminal_event a (ch\<lparr>ch_exit_code := code, ch_exited := True\<rparr>), a')" "ma_terminal_emitted a'"
    "all_lines (cs_buf (ch_stdout ch)) = full_lines so @ lo" "all_lines (cs_buf (ch_stderr ch)) = full_lines se @ le"
    "ma_provider_session_id a' = last_session prefix le (last_session prefix lo (ma_provider_session_id a))"
    using marker_drain_exit [OF r(1,2,3,7,8)] by blast
  have "terminal_event a (ch\<lparr>ch_exit_code := code, ch_exited := True\<rparr>) =
      [if code = 0 then provider_event WorkflowCompleted ''exit 0'' else provider_event ErrorOccurred (''exit '' @ show_int code)]"
    using r(4) by (simp add: terminal_event_def child_exit_code_def)
  moreover have "evs @ (stream_events prefix lo @ stream_events prefix le) \<in>
      shuffles (stream_events prefix (all_lines (cs_buf (ch_stdout ch)))) (stream_events prefix (all_lines (cs_buf (ch_stderr ch))))"
    using shuffles_append [OF r(9) concat_in_shuffles] d(3,4) by simp
  moreover have "list_all (\<lambda>l. \<not> names_session prefix l) (all_lines (cs_buf (ch_stderr ch))) \<longrightarrow>
      as_resume_pointer (fst (marker_snapshot poll a')) = last_session prefix (all_lines (cs_buf (ch_stdout ch))) None"
    using r(10) d(3-5) by (simp add: marker_snapshot_def marker_poll_def last_session_silent Let_def)
  ultimately show ?thesis
    using run d(1,2) r(5,6) by (auto simp: marker_run_def sink_holds_def Let_def intro!: exI [of _ "evs @ stream_events prefix lo @ stream_events prefix le"])
qed

definition sample_config :: PlainConfig where
  "sample_config = plain_config_new [''claude'']"

theorem marker_stream_exact_witness:
  "\<exists>evs a. marker_run CLAUDE_PREFIX ([OutChunk ''CLAUDE_SES'', Drain Timeout, OutChunk ''SION s1''] @ [Drain (Exited 0)]) ([], spawned sample_config)
     = (evs @ [provider_event WorkflowCompleted ''exit 0''], a) \<and> as_resume_pointer (fst (marker_snapshot Timeout a)) = Some ''s1''"
proof -
  have "\<forall>i\<in>set [OutChunk ''CLAUDE_SES'', Drain Timeout, OutChunk ''SION s1'']. still_runs i" by simp
  note m = marker_stream_exact [OF this, of CLAUDE_PREFIX 0 sample_config Timeout]
  have cap: "stream_cap sample_config = 1048576"
    by (simp add: stream_cap_def clamp_cap_def sample_config_def plain_config_new_def DEFAULT_PLAIN_OUTPUT_CAP_BYTES_def
        MAX_PLAIN_OUTPUT_CAP_BYTES_def)
  have "all_lines [] = []" "all_lines ''CLAUDE_SESSION s1'' = [''CLAUDE_SESSION s1'']"
    "last_session CLAUDE_PREFIX [''CLAUDE_SESSION s1''] None = Some ''s1''" by code_simp+
  then show ?thesis using m by (auto simp: cap)
qed

section \<open>One terminal event\<close>

text \<open>What a drain adds at its end.\<close>

definition terminal_part :: "string \<Rightarrow> wait_result \<Rightarrow> MarkerAdapter \<Rightarrow> bool" where
  "terminal_part prefix os a \<longleftrightarrow> ma_terminal_emitted (snd (marker_drain prefix os a)) \<noteq> ma_terminal_emitted a"

fun count_terminal :: "string \<Rightarrow> stream_input list \<Rightarrow> MarkerAdapter \<Rightarrow> nat" where
  "count_terminal prefix [] a = 0"
| "count_terminal prefix (Drain os # is) a =
     (if terminal_part prefix os a then 1 else 0) + count_terminal prefix is (snd (marker_drain prefix os a))"
| "count_terminal prefix (i # is) a = count_terminal prefix is (snd (marker_input prefix i ([], a)))"

lemma drain_flag:
  "ma_terminal_emitted (snd (marker_drain prefix os a)) \<longleftrightarrow> ma_terminal_emitted a \<or>
     (\<exists>ch. ma_child a = Some ch \<and> child_exit_code (snd (child_wait os ch)) \<noteq> None)"
  by (auto simp: marker_drain_def Let_def split: option.splits prod.splits)

lemma count_after: "ma_terminal_emitted a \<Longrightarrow> count_terminal prefix is a = 0"
  by (induction prefix "is" a rule: count_terminal.induct) (auto simp: terminal_part_def drain_flag on_child_def)



end
