(* ===== verification/Generic_Props.thy ===== *)
theory Generic_Props
  imports Adapter_Props
begin

text \<open>
  The generic adapter: every line of the child's output becomes one event, in order, however the
  output is chunked and whenever it is polled; the capability flags of all adapters are honest; and
  what goes wrong when the exit is observed before the pumps are done.
\<close>

section \<open>Lines of decoded text\<close>

lemma full_lines_lossy: "full_lines (utf8_lossy s) = map utf8_lossy (full_lines s)"
  and fragment_lossy: "fragment (utf8_lossy s) = utf8_lossy (fragment s)"
proof -
  have join: "utf8_lossy (concat (map (\<lambda>l. l @ [newline]) ls) @ r) = concat (map (\<lambda>l. l @ [newline]) (map utf8_lossy ls)) @ utf8_lossy r"
    for ls r
  proof (induction ls)
    case (Cons l ls)
    have "utf8_lossy (l @ newline # (concat (map (\<lambda>l. l @ [newline]) ls) @ r)) =
        utf8_lossy l @ newline # utf8_lossy (concat (map (\<lambda>l. l @ [newline]) ls) @ r)"
      by (rule utf8_lossy_ascii) simp
    then show ?case using Cons by simp
  qed simp
  have nl: "newline \<notin> set (utf8_lossy l)" if "newline \<notin> set l" for l
    using that by (rule utf8_lossy_ascii_free) simp
  have "split_newlines (utf8_lossy s) = split_newlines (concat (map (\<lambda>l. l @ [newline]) (map utf8_lossy (full_lines s))) @ utf8_lossy (fragment s))"
    using join [of "full_lines s" "fragment s"] split_newlines_unsplit [of s] by simp
  also have "\<dots> = (map utf8_lossy (full_lines s) @ full_lines (utf8_lossy (fragment s)), fragment (utf8_lossy (fragment s)))"
    by (rule split_lines_append) (auto dest: full_lines_no_newline nl)
  finally have *: "split_newlines (utf8_lossy s) =
      (map utf8_lossy (full_lines s) @ full_lines (utf8_lossy (fragment s)), fragment (utf8_lossy (fragment s)))" .
  have f: "split_newlines (utf8_lossy (fragment s)) = ([], utf8_lossy (fragment s))"
    by (rule split_no_newline) (rule nl, rule fragment_no_newline)
  show "full_lines (utf8_lossy s) = map utf8_lossy (full_lines s)" "fragment (utf8_lossy s) = utf8_lossy (fragment s)"
    using * f by (simp_all add: full_lines_def [of "utf8_lossy s"] fragment_def [of "utf8_lossy s"]
        full_lines_def [of "utf8_lossy (fragment s)"] fragment_def [of "utf8_lossy (fragment s)"])
qed

lemma ends_newline: "s \<noteq> [] \<and> last s = newline \<longleftrightarrow> s \<noteq> [] \<and> fragment s = []"
proof (cases "fragment s = []")
  case True
  have s: "s = concat (map (\<lambda>l. l @ [newline]) (full_lines s))" using split_newlines_unsplit [of s] True by simp
  have "s \<noteq> [] \<Longrightarrow> last s = newline"
    by (subst s) (cases "full_lines s" rule: rev_cases; use s in force)
  then show ?thesis using True by blast
next
  case False
  have s: "s = concat (map (\<lambda>l. l @ [newline]) (full_lines s)) @ fragment s" using split_newlines_unsplit [of s] by simp
  have "last s = last (fragment s)" using False by (subst s) simp
  moreover have "last (fragment s) \<noteq> newline" using False fragment_no_newline [of s] last_in_set by metis
  ultimately show ?thesis using False by auto
qed

definition decoded_lines :: "string \<Rightarrow> string list" where
  "decoded_lines s = map (\<lambda>l. strip_cr (utf8_lossy l)) (full_lines s)"

lemma generic_lines_running:
  assumes "emitted = length (full_lines seen)" "take (length seen) bytes = seen"
  shows "fst (generic_lines bytes None emitted) = drop emitted (decoded_lines bytes)"
    "snd (generic_lines bytes None emitted) = length (full_lines bytes)"
    "take emitted (decoded_lines bytes) = decoded_lines seen"
proof -
  have b: "bytes = seen @ drop (length seen) bytes" using assms(2) by (metis append_take_drop_id)
  obtain more where more: "full_lines bytes = full_lines seen @ more"
    using split_append(1) [of seen "drop (length seen) bytes"] b by metis
  let ?t = "utf8_lossy bytes"
  have ls: "lines ?t = decoded_lines bytes @ (if utf8_lossy (fragment bytes) = [] then [] else [utf8_lossy (fragment bytes)])"
    by (simp add: lines_def full_lines_lossy fragment_lossy decoded_lines_def)
  have len: "length (decoded_lines bytes) = length (full_lines bytes)" by (simp add: decoded_lines_def)
  have le: "emitted \<le> length (full_lines bytes)" using more assms(1) by simp
  have end_nl: "?t \<noteq> [] \<and> last ?t = newline \<longleftrightarrow> ?t \<noteq> [] \<and> utf8_lossy (fragment bytes) = []"
    using ends_newline [of ?t] by (simp add: fragment_lossy)
  have t: "?t = [] \<Longrightarrow> utf8_lossy (fragment bytes) = [] \<and> full_lines bytes = []"
    using full_lines_lossy [of bytes] fragment_lossy [of bytes] by (auto simp: full_lines_def fragment_def)
  have up: "(if (None :: int option) = None \<and> \<not> (?t \<noteq> [] \<and> last ?t = newline) \<and> length (lines ?t) > emitted
      then length (lines ?t) - 1 else length (lines ?t)) = length (full_lines bytes)"
    using le t unfolding end_nl ls by (auto simp: len)
  show "fst (generic_lines bytes None emitted) = drop emitted (decoded_lines bytes)"
    "snd (generic_lines bytes None emitted) = length (full_lines bytes)"
    unfolding generic_lines_def Let_def up using le len by (simp_all add: ls)
  show "take emitted (decoded_lines bytes) = decoded_lines seen"
    by (simp add: decoded_lines_def more assms(1))
qed

lemma generic_lines_exit:
  assumes "emitted = length (full_lines seen)" "take (length seen) bytes = seen"
  shows "decoded_lines seen @ fst (generic_lines bytes (Some code) emitted) = lines (utf8_lossy bytes)"
proof -
  have b: "bytes = seen @ drop (length seen) bytes" using assms(2) by (metis append_take_drop_id)
  obtain more where more: "full_lines bytes = full_lines seen @ more"
    using split_append(1) [of seen "drop (length seen) bytes"] b by metis
  have ls: "lines (utf8_lossy bytes) = decoded_lines bytes @
      (if utf8_lossy (fragment bytes) = [] then [] else [utf8_lossy (fragment bytes)])"
    by (simp add: lines_def full_lines_lossy fragment_lossy decoded_lines_def)
  have "emitted \<le> length (lines (utf8_lossy bytes))" by (simp add: ls decoded_lines_def more assms(1))
  moreover have "take emitted (lines (utf8_lossy bytes)) = decoded_lines seen"
    by (simp add: ls decoded_lines_def more assms(1))
  ultimately show ?thesis
    by (simp add: generic_lines_def Let_def min_def) (metis append_take_drop_id)
qed

section \<open>A run of the generic adapter\<close>

fun generic_feed :: "stream_input \<Rightarrow> ProviderEvent list \<times> GenericAdapter \<Rightarrow> ProviderEvent list \<times> GenericAdapter" where
  "generic_feed (OutChunk c) (evs, a) = (evs, a\<lparr>ga_child := map_option (\<lambda>ch. ch\<lparr>ch_stdout := push (ch_stdout ch) c\<rparr>) (ga_child a)\<rparr>)"
| "generic_feed (ErrChunk c) (evs, a) = (evs, a\<lparr>ga_child := map_option (\<lambda>ch. ch\<lparr>ch_stderr := push (ch_stderr ch) c\<rparr>) (ga_child a)\<rparr>)"
| "generic_feed (Drain os) (evs, a) = (let (new, a') = generic_drain os a in (evs @ new, a'))"

definition generic_run :: "stream_input list \<Rightarrow> ProviderEvent list \<times> GenericAdapter \<Rightarrow> ProviderEvent list \<times> GenericAdapter" where
  "generic_run inputs = fold generic_feed inputs"

definition generic_spawned :: "PlainConfig \<Rightarrow> ProviderEvent \<Rightarrow> GenericAdapter" where
  "generic_spawned config started = \<lparr>ga_child = Some (child_new config), ga_pending_started = Some started,
     ga_emitted_lines = 0, ga_completed = False\<rparr>"

abbreviation line_event :: "string \<Rightarrow> ProviderEvent" where
  "line_event \<equiv> provider_event EventType.Unspecified"

definition pending_list :: "GenericAdapter \<Rightarrow> ProviderEvent list" where
  "pending_list a = (case ga_pending_started a of None \<Rightarrow> [] | Some st \<Rightarrow> [st])"

definition generic_ok :: "nat \<Rightarrow> ProviderEvent \<Rightarrow> string \<Rightarrow> string \<Rightarrow> ProviderEvent list \<times> GenericAdapter \<Rightarrow> bool" where
  "generic_ok cap started out err s \<longleftrightarrow> (\<exists>ch seen. ga_child (snd s) = Some ch \<and> \<not> ch_exited ch \<and> \<not> ga_completed (snd s) \<and>
     sink_holds (ch_stdout ch) cap out \<and> sink_holds (ch_stderr ch) cap err \<and>
     take (length seen) (cs_buf (ch_stdout ch)) = seen \<and> ga_emitted_lines (snd s) = length (full_lines seen) \<and>
     fst s @ pending_list (snd s) = started # map line_event (decoded_lines seen) \<and>
     (ga_pending_started (snd s) \<noteq> None \<longrightarrow> fst s = [] \<and> decoded_lines seen = []))"

lemma take_push: "take (length seen) (cs_buf s) = seen \<Longrightarrow> take (length seen) (cs_buf (push s c)) = seen"
proof -
  assume a: "take (length seen) (cs_buf s) = seen"
  then have "length seen \<le> length (cs_buf s)" by (metis length_take min.cobounded1)
  then show ?thesis using a by (simp add: push_def Let_def)
qed

lemma generic_ok_input:
  assumes "generic_ok cap started out err s" "still_runs i"
  shows "generic_ok cap started (out @ out_bytes [i]) (err @ err_bytes [i]) (generic_feed i s)"
proof -
  obtain evs a where s: "s = (evs, a)" by fastforce
  obtain ch seen where r: "ga_child a = Some ch" "\<not> ch_exited ch" "\<not> ga_completed a"
    "sink_holds (ch_stdout ch) cap out" "sink_holds (ch_stderr ch) cap err"
    "take (length seen) (cs_buf (ch_stdout ch)) = seen" "ga_emitted_lines a = length (full_lines seen)"
    "evs @ pending_list a = started # map line_event (decoded_lines seen)"
    "ga_pending_started a \<noteq> None \<longrightarrow> evs = [] \<and> decoded_lines seen = []"
    using assms(1) by (auto simp: generic_ok_def s)
  show ?thesis
  proof (cases i)
    case (OutChunk c)
    then show ?thesis using r push_holds(1) [OF r(4), of c] take_push [OF r(6), of c]
      unfolding s generic_ok_def
      by (intro exI [of _ "ch\<lparr>ch_stdout := push (ch_stdout ch) c\<rparr>"] exI [of _ seen]) (simp add: pending_list_def)
  next
    case (ErrChunk c)
    then show ?thesis using r push_holds(1) [OF r(5), of c]
      unfolding s generic_ok_def
      by (intro exI [of _ "ch\<lparr>ch_stderr := push (ch_stderr ch) c\<rparr>"] exI [of _ seen]) (simp add: pending_list_def)
  next
    case (Drain os)
    let ?o = "cs_buf (ch_stdout ch)"
    have "child_wait os ch = (fst (child_wait os ch), ch)" "fst (child_wait os ch) \<noteq> Inr (Some code)" for code
      using Drain assms(2) r(2) by (cases os; simp add: child_wait_def)+
    then have x: "generic_exit_code os ch None = (None, ch)"
      by (auto simp: generic_exit_code_def split: prod.splits sum.splits option.splits)
         (metis Pair_inject not_Some_eq)+
    note g = generic_lines_running [OF r(7,6)]
    have "generic_drain os a = (pending_list a @ map line_event (drop (ga_emitted_lines a) (decoded_lines ?o)),
        a\<lparr>ga_pending_started := None, ga_child := Some ch, ga_emitted_lines := length (full_lines ?o)\<rparr>)"
      using r(1-3) x g(1,2)
      by (simp add: generic_drain_def child_snapshot_def child_exit_code_def pending_list_def Let_def case_prod_beta)
    moreover have "evs @ pending_list a @ map line_event (drop (ga_emitted_lines a) (decoded_lines ?o)) =
        started # map line_event (decoded_lines ?o)"
    proof -
      have "decoded_lines ?o = decoded_lines seen @ drop (ga_emitted_lines a) (decoded_lines ?o)"
        using g(3) by (metis append_take_drop_id)
      then show ?thesis using r(8) by (metis append_Cons append_assoc map_append)
    qed
    ultimately show ?thesis using Drain r unfolding s generic_ok_def
      by (intro exI [of _ ch] exI [of _ ?o]) (simp add: pending_list_def)
  qed
qed

lemma generic_ok_run:
  assumes "\<forall>i\<in>set inputs. still_runs i"
  shows "generic_ok (stream_cap config) started (out_bytes inputs) (err_bytes inputs)
    (generic_run inputs ([], generic_spawned config started))"
  using assms
proof (induction inputs rule: rev_induct)
  case Nil
  show ?case
    by (auto simp: generic_run_def generic_ok_def generic_spawned_def child_new_def stream_cap_def sink_holds_def sink_new_def
        Let_def pending_list_def decoded_lines_def full_lines_def intro!: exI [of _ "[]"])
next
  case (snoc i inputs)
  then show ?case using generic_ok_input [of "stream_cap config" started "out_bytes inputs" "err_bytes inputs" _ i]
    by (simp add: generic_run_def out_err_append)
qed

text \<open>The run up to the drain that sees the exit, and the child it leaves.\<close>

lemma generic_run_exit:
  assumes "\<forall>i\<in>set inputs. still_runs i"
  shows "\<exists>a ch. generic_run (inputs @ [Drain (Exited code)]) ([], generic_spawned config started) =
      (started # map line_event (lines (utf8_lossy (take (stream_cap config) (out_bytes inputs))))
       @ completion_events (take (stream_cap config) (err_bytes inputs)) code, a) \<and>
    ga_child a = Some ch \<and> child_exit_code ch = Some code"
proof -
  obtain evs a where run: "generic_run inputs ([], generic_spawned config started) = (evs, a)" by fastforce
  have "generic_ok (stream_cap config) started (out_bytes inputs) (err_bytes inputs) (evs, a)"
    using generic_ok_run [OF assms, of config started] run by simp
  then obtain ch seen where r: "ga_child a = Some ch" "\<not> ch_exited ch" "\<not> ga_completed a"
    "sink_holds (ch_stdout ch) (stream_cap config) (out_bytes inputs)" "sink_holds (ch_stderr ch) (stream_cap config) (err_bytes inputs)"
    "take (length seen) (cs_buf (ch_stdout ch)) = seen" "ga_emitted_lines a = length (full_lines seen)"
    "evs @ pending_list a = started # map line_event (decoded_lines seen)"
    by (auto simp: generic_ok_def)
  let ?o = "cs_buf (ch_stdout ch)" and ?e = "cs_buf (ch_stderr ch)"
  let ?g = "generic_lines ?o (Some code) (ga_emitted_lines a)" and ?ch = "ch\<lparr>ch_exit_code := code, ch_exited := True\<rparr>"
  let ?a = "a\<lparr>ga_pending_started := None, ga_child := Some ?ch, ga_emitted_lines := snd ?g, ga_completed := True\<rparr>"
  have d: "generic_drain (Exited code) a = (pending_list a @ map line_event (fst ?g) @ completion_events ?e code, ?a)"
    using r(1-3) by (simp add: generic_drain_def child_snapshot_def child_exit_code_def generic_exit_code_def child_wait_def
        pending_list_def Let_def split: prod.splits)
  have "evs @ pending_list a @ map line_event (fst ?g) = started # map line_event (decoded_lines seen @ fst ?g)"
    using r(8) by (metis append_Cons append_assoc map_append)
  then have "generic_run (inputs @ [Drain (Exited code)]) ([], generic_spawned config started) =
      (started # map line_event (lines (utf8_lossy ?o)) @ completion_events ?e code, ?a)"
    using run d generic_lines_exit [OF r(7,6), of code] by (simp add: generic_run_def)
  then show ?thesis using r(4,5) by (simp add: sink_holds_def child_exit_code_def)
qed

text \<open>
  C30. A generic command is reported exactly: with any chunks on the two streams and any polls
  while it runs, followed by the drain that sees the exit, the events are the start, one event per
  line of its (capped, decoded) standard output in order, its standard error if there was any, and
  the exit code.
\<close>

theorem generic_stream_exact:
  assumes "\<forall>i\<in>set inputs. still_runs i"
  shows "fst (generic_run (inputs @ [Drain (Exited code)]) ([], generic_spawned config started)) =
    started # map line_event (lines (utf8_lossy (take (stream_cap config) (out_bytes inputs))))
    @ completion_events (take (stream_cap config) (err_bytes inputs)) code"
  using generic_run_exit [OF assms, of code config started] by auto

theorem generic_stream_exact_witness:
  "fst (generic_run ([OutChunk ''a'', Drain Timeout, OutChunk ''b''] @ [Drain (Exited 0)])
     ([], generic_spawned sample_config (provider_event CommandStarted ''started: x''))) =
   [provider_event CommandStarted ''started: x'', line_event ''ab'',
    provider_event CommandCompleted ''completed with exit code 0'']"
proof -
  have "\<forall>i\<in>set [OutChunk ''a'', Drain Timeout, OutChunk ''b'']. still_runs i" by simp
  note g = generic_stream_exact [OF this, of 0 sample_config "provider_event CommandStarted ''started: x''"]
  have cap: "stream_cap sample_config = 1048576"
    by (simp add: stream_cap_def clamp_cap_def sample_config_def plain_config_new_def DEFAULT_PLAIN_OUTPUT_CAP_BYTES_def
        MAX_PLAIN_OUTPUT_CAP_BYTES_def)
  have l: "lines (utf8_lossy ''ab'') = [''ab'']" by code_simp
  have sh: "show_int 0 = ''0''" by code_simp
  show ?thesis using g by (simp add: cap l completion_events_def sh)
qed

section \<open>Observing the exit before the output\<close>

text \<open>
  Output that the pumps deliver after the exit was observed is lost by the generic adapter: the
  process has exited, its output still sits in the pipe, core drains, the pump then delivers the
  line, and no later drain reports it.
\<close>

theorem generic_loses_late_output:
  "fst (generic_run [Drain (Exited 0), OutChunk (''hello'' @ [newline]), Drain (Exited 0), Drain (Exited 0)]
     ([], generic_spawned sample_config (provider_event CommandStarted ''s''))) =
   [provider_event CommandStarted ''s'', provider_event CommandCompleted ''completed with exit code 0'']"
proof -
  have sh: "show_int 0 = ''0''" by code_simp
  show ?thesis
    by (simp add: generic_run_def generic_spawned_def generic_drain_def child_new_def child_snapshot_def child_exit_code_def
        generic_exit_code_def child_wait_def sink_new_def Let_def generic_lines_def lines_def full_lines_def fragment_def
        completion_events_def sh)
qed

text \<open>
  A marker line that is cut where the exit is observed is misread: the session line of a child
  that has exited is parsed in two pieces, neither of them a marker, and the session is lost.
\<close>

theorem marker_splits_late_line:
  "ma_provider_session_id (snd (marker_run CLAUDE_PREFIX [OutChunk ''CLAUDE_SES'', Drain (Exited 0), OutChunk (''SION s1'' @ [newline]), Drain (Exited 0)]
     ([], spawned sample_config))) = None \<and>
   ma_provider_session_id (snd (marker_run CLAUDE_PREFIX [OutChunk ''CLAUDE_SES'', OutChunk (''SION s1'' @ [newline]), Drain (Exited 0)]
     ([], spawned sample_config))) = Some ''s1''"
proof -
  have cap: "clamp_cap (pg_output_cap_bytes sample_config) = 1048576"
    by (simp add: clamp_cap_def sample_config_def plain_config_new_def DEFAULT_PLAIN_OUTPUT_CAP_BYTES_def
        MAX_PLAIN_OUTPUT_CAP_BYTES_def)
  have p: "parse_lines CLAUDE_PREFIX [''CLAUDE_SES''] ([], None) = ([], None)"
    "parse_lines CLAUDE_PREFIX [''SION s1''] ([], None) = ([], None)"
    "parse_lines CLAUDE_PREFIX [''CLAUDE_SESSION s1''] ([], None) = ([], Some ''s1'')"
    by code_simp+
  have t: "take_lines ''CLAUDE_SES'' True = ([''CLAUDE_SES''], [])" "take_lines (''SION s1'' @ [newline]) True = ([''SION s1''], [])"
    "take_lines (''CLAUDE_SESSION s1'' @ [newline]) True = ([''CLAUDE_SESSION s1''], [])" "take_lines [] True = ([], [])"
    by code_simp+
  have e: "parse_lines CLAUDE_PREFIX [] x = x" for x by (simp add: parse_lines_def)
  note run = marker_run_def spawned_def marker_new_def marker_drain_def child_new_def child_snapshot_def child_exit_code_def
    child_wait_def on_child_def sink_new_def push_def consume_def terminal_event_def Let_def cap p e
  show ?thesis using t by (simp add: run)
qed

end
