(* ===== verification/Adapter_Contract.thy ===== *)
theory Adapter_Contract
  imports Generic_Props
begin

text \<open>
  The contract of the trait \<open>ProviderAdapter\<close>: an adapter's capability flags say what its calls do.
  The contract is a locale over one call function; it is interpreted for the generic adapter, for
  the adapters with a marker grammar and, on top of these, for the registry's enum dispatch. Then:
  the marker prefixes keep the providers' output apart, and a spawn is exclusive and starts afresh.
\<close>

section \<open>Calls and replies\<close>

datatype adapter_call =
    SpawnCall launcher wait_result SpawnRequest
  | InjectCall string
  | ApprovalCall string ApprovalDecision
  | StopCall
  | DrainCall wait_result
  | SnapshotCall wait_result

datatype adapter_reply =
    UnitReply "AdapterError + unit"
  | ApprovalReply "AdapterError + ApprovalOutcome"
  | EventsReply "ProviderEvent list"
  | SnapshotReply AdapterSnapshot

text \<open>What the flags promise of one reply.\<close>

fun honest :: "Capabilities \<Rightarrow> adapter_call \<Rightarrow> adapter_reply \<Rightarrow> bool" where
  "honest c (SpawnCall launch os req) (UnitReply r) \<longleftrightarrow> cap_interactive_input c \<or> \<not> sq_interactive req \<or> r = Inl Unsupported"
| "honest c (InjectCall input) (UnitReply r) \<longleftrightarrow> cap_interactive_input c \<or> r = Inl NotRunning \<or> r = Inl Unsupported"
| "honest c (ApprovalCall rid d) (ApprovalReply r) \<longleftrightarrow> cap_approvals c \<or> r = Inl Unsupported"
| "honest c StopCall (UnitReply r) \<longleftrightarrow> \<not> cap_stop c \<or> r \<noteq> Inl Unsupported"
| "honest c (DrainCall os) (EventsReply evs) \<longleftrightarrow> cap_file_events c \<or> FileChanged \<notin> pv_event_type ` set evs"
| "honest c (SnapshotCall os) (SnapshotReply s) \<longleftrightarrow> cap_resume c \<or> as_resume_pointer s = None"
| "honest c _ _ \<longleftrightarrow> False"

fun call_all :: "('c \<Rightarrow> 'a \<Rightarrow> 'r \<times> 'a) \<Rightarrow> 'c list \<Rightarrow> 'a \<Rightarrow> 'r list \<times> 'a" where
  "call_all call [] a = ([], a)"
| "call_all call (c # cs) a = (case call c a of (r, a') \<Rightarrow> case call_all call cs a' of (rs, a'') \<Rightarrow> (r # rs, a''))"

locale provider_adapter =
  fixes call :: "adapter_call \<Rightarrow> 'a \<Rightarrow> adapter_reply \<times> 'a"
    and caps :: "'a \<Rightarrow> Capabilities"
    and sound :: "'a \<Rightarrow> bool"
  assumes call_sound: "sound a \<Longrightarrow> sound (snd (call c a))"
    and call_caps: "sound a \<Longrightarrow> caps (snd (call c a)) = caps a"
    and call_honest: "sound a \<Longrightarrow> honest (caps a) c (fst (call c a))"
begin

lemma replies_honest:
  "sound a \<Longrightarrow> list_all2 (honest (caps a)) cs (fst (call_all call cs a)) \<and> caps (snd (call_all call cs a)) = caps a"
proof (induction cs arbitrary: a)
  case Nil
  then show ?case by simp
next
  case (Cons c cs)
  from Cons.IH [OF call_sound [OF Cons.prems, of c]] show ?case
    using call_honest [OF Cons.prems, of c] call_caps [OF Cons.prems, of c] by (simp add: case_prod_beta)
qed

end

section \<open>The adapters meet the contract\<close>

definition as_reply :: "('x \<Rightarrow> adapter_reply) \<Rightarrow> 'x \<times> 'a \<Rightarrow> adapter_reply \<times> 'a" where
  "as_reply f p = (f (fst p), snd p)"

lemma as_reply_simps [simp]: "fst (as_reply f p) = f (fst p)" "snd (as_reply f p) = snd p"
  by (simp_all add: as_reply_def)

fun generic_call :: "adapter_call \<Rightarrow> GenericAdapter \<Rightarrow> adapter_reply \<times> GenericAdapter" where
  "generic_call (SpawnCall launch os req) a = as_reply UnitReply (generic_spawn launch req a)"
| "generic_call (InjectCall input) a = as_reply UnitReply (generic_inject input a)"
| "generic_call (ApprovalCall rid d) a = as_reply ApprovalReply (generic_respond_approval rid d a)"
| "generic_call StopCall a = as_reply UnitReply (generic_stop a)"
| "generic_call (DrainCall os) a = as_reply EventsReply (generic_drain os a)"
| "generic_call (SnapshotCall os) a = as_reply SnapshotReply (generic_snapshot os a)"

fun marker_call :: "string \<Rightarrow> adapter_call \<Rightarrow> MarkerAdapter \<Rightarrow> adapter_reply \<times> MarkerAdapter" where
  "marker_call prefix (SpawnCall launch os req) a = as_reply UnitReply (marker_spawn launch os req a)"
| "marker_call prefix (InjectCall input) a = as_reply UnitReply (marker_inject input a)"
| "marker_call prefix (ApprovalCall rid d) a = as_reply ApprovalReply (marker_respond_approval rid d a)"
| "marker_call prefix StopCall a = as_reply UnitReply (marker_stop a)"
| "marker_call prefix (DrainCall os) a = as_reply EventsReply (marker_drain prefix os a)"
| "marker_call prefix (SnapshotCall os) a = as_reply SnapshotReply (marker_snapshot os a)"

text \<open>The only event a generic adapter keeps back is the start it announces.\<close>

definition announces_start :: "GenericAdapter \<Rightarrow> bool" where
  "announces_start a \<longleftrightarrow> (\<forall>e. ga_pending_started a = Some e \<longrightarrow> pv_event_type e = CommandStarted)"

lemma generic_drain_kinds:
  "pv_event_type ` set (fst (generic_drain os a)) \<subseteq>
     pv_event_type ` set_option (ga_pending_started a) \<union> {EventType.Unspecified, ErrorOccurred, CommandCompleted}"
  by (auto simp: generic_drain_def Let_def completion_events_def provider_event_def split: option.splits prod.splits if_splits)

lemma generic_drain_pending: "ga_pending_started (snd (generic_drain os a)) = None"
  by (auto simp: generic_drain_def Let_def split: option.splits prod.splits)

interpretation generic_contract: provider_adapter generic_call "\<lambda>_. generic_capabilities" announces_start
proof unfold_locales
  fix a :: GenericAdapter and c assume a: "announces_start a"
  show "announces_start (snd (generic_call c a))"
    using a by (cases c) (auto simp: announces_start_def generic_spawn_def generic_inject_def generic_respond_approval_def
        generic_stop_def generic_drain_pending generic_snapshot_def provider_event_def Let_def split: sum.splits option.splits prod.splits)
  have "FileChanged \<notin> pv_event_type ` set (fst (generic_drain os a))" for os
    using generic_drain_kinds [of os a] a by (auto simp: announces_start_def)
  then show "honest generic_capabilities c (fst (generic_call c a))"
    by (cases c) (auto simp: generic_capabilities_def generic_spawn_def generic_inject_def generic_respond_approval_def
        generic_stop_def generic_snapshot_def Let_def split: option.splits prod.splits)
qed simp

interpretation marker_contract: provider_adapter "marker_call prefix" "\<lambda>_. marker_capabilities" "\<lambda>_. True"
proof unfold_locales
  fix a :: MarkerAdapter and c
  show "honest marker_capabilities c (fst (marker_call prefix c a))"
    by (cases c) (auto simp: marker_capabilities_def marker_spawn_def marker_inject_def marker_respond_approval_def
        marker_stop_def Let_def split: option.splits)
qed simp_all

fun registry_call :: "adapter_call \<Rightarrow> Adapter \<Rightarrow> adapter_reply \<times> Adapter" where
  "registry_call (SpawnCall launch os req) a = as_reply UnitReply (adapter_spawn launch os req a)"
| "registry_call (InjectCall input) a = as_reply UnitReply (adapter_inject input a)"
| "registry_call (ApprovalCall rid d) a = as_reply ApprovalReply (adapter_respond_approval rid d a)"
| "registry_call StopCall a = as_reply UnitReply (adapter_stop a)"
| "registry_call (DrainCall os) a = as_reply EventsReply (adapter_drain os a)"
| "registry_call (SnapshotCall os) a = as_reply SnapshotReply (adapter_snapshot os a)"

fun adapter_sound :: "Adapter \<Rightarrow> bool" where
  "adapter_sound (GenericA a) = announces_start a"
| "adapter_sound _ = True"

lemmas opencode_calls = opencode_spawn_def opencode_inject_def opencode_respond_approval_def opencode_stop_def
  opencode_drain_def opencode_snapshot_def
lemmas codex_calls = codex_spawn_def codex_inject_def codex_respond_approval_def codex_stop_def codex_drain_def codex_snapshot_def

text \<open>The dispatch forwards a call to the variant it holds, and keeps the variant.\<close>

lemma registry_call_dispatch:
  "registry_call c (GenericA g) = rewrap GenericA (generic_call c g)"
  "registry_call c (OpencodeA m) = rewrap OpencodeA (marker_call OPENCODE_PREFIX c m)"
  "registry_call c (ClaudeA m) = rewrap ClaudeA (marker_call CLAUDE_PREFIX c m)"
  "registry_call c (CodexA m) = rewrap CodexA (marker_call CODEX_PREFIX c m)"
  by (cases c; simp add: rewrap_def as_reply_def case_prod_beta opencode_calls codex_calls claude_drain_def)+

interpretation registry: provider_adapter registry_call adapter_capabilities adapter_sound
proof unfold_locales
  fix a :: Adapter and c assume a: "adapter_sound a"
  show "adapter_sound (snd (registry_call c a))"
    using a generic_contract.call_sound by (cases a) (auto simp: registry_call_dispatch rewrap_def case_prod_beta)
  show "adapter_capabilities (snd (registry_call c a)) = adapter_capabilities a"
    by (cases a) (auto simp: registry_call_dispatch rewrap_def case_prod_beta)
  show "honest (adapter_capabilities a) c (fst (registry_call c a))"
    using a generic_contract.call_honest marker_contract.call_honest
    by (cases a) (auto simp: registry_call_dispatch rewrap_def case_prod_beta opencode_capabilities_def codex_capabilities_def)
qed

lemma for_provider_sound: "for_provider p = Inr a \<Longrightarrow> adapter_sound a"
  by (cases p) (auto simp: for_provider_def generic_new_def announces_start_def)

lemma registry_call_provider: "adapter_provider (snd (registry_call c a)) = adapter_provider a"
  by (cases a) (auto simp: registry_call_dispatch rewrap_def case_prod_beta)

lemma calls_provider: "adapter_provider (snd (call_all registry_call cs a)) = adapter_provider a"
  by (induction cs arbitrary: a) (simp_all add: case_prod_beta registry_call_provider)

text \<open>
  C31. The adapter of a provider keeps the promises of its capability flags in every reply to every
  sequence of calls, whatever the system does: without the interactive flag no interactive spawn
  and no injected input is accepted, without the approvals flag no verdict is, without the file
  flag no file event and without the resume flag no resume pointer appears, and with the stop flag
  a stop is never unsupported. It stays the adapter of that provider.
\<close>

theorem adapter_flags_honest:
  assumes "for_provider p = Inr a"
  shows "list_all2 (honest (adapter_capabilities a)) cs (fst (call_all registry_call cs a)) \<and>
    adapter_provider (snd (call_all registry_call cs a)) = p"
proof -
  have "adapter_provider a = p" using assms by (cases p) (auto simp: for_provider_def)
  then show ?thesis using registry.replies_honest [OF for_provider_sound [OF assms], of cs] calls_provider [of cs a] by simp
qed

theorem adapter_flags_honest_witness:
  "list_all2 (honest generic_capabilities) [InjectCall ''y'', StopCall] [UnitReply (Inl NotRunning), UnitReply (Inr ())]"
proof -
  have "for_provider Generic = Inr (GenericA generic_new)" by (simp add: for_provider_def)
  from adapter_flags_honest [OF this, of "[InjectCall ''y'', StopCall]"] show ?thesis
    by (simp add: rewrap_def as_reply_def generic_inject_def generic_stop_def generic_new_def)
qed

section \<open>Providers do not read each other's markers\<close>

text \<open>
  The marker namespaces are disjoint: a line that says something to one of the three marker
  adapters says nothing to the two others, whatever their state, so output of one provider that
  passes through another is never taken for an event or a session of the latter.
\<close>

theorem marker_namespaces_disjoint:
  assumes "p \<in> {CLAUDE_PREFIX, CODEX_PREFIX, OPENCODE_PREFIX}" "q \<in> {CLAUDE_PREFIX, CODEX_PREFIX, OPENCODE_PREFIX}"
    "p \<noteq> q" "parse_line p line out \<noteq> out"
  shows "parse_line q line out' = out'"
proof -
  obtain rest where l: "line = p @ rest"
    using assms(4) by (cases "strip_prefix p line") (auto simp: parse_line_def strip_prefix_Some case_prod_beta)
  have "strip_prefix q line = None"
    using assms(1-3) l by (auto simp: strip_prefix_def CLAUDE_PREFIX_def CODEX_PREFIX_def OPENCODE_PREFIX_def)
  then show ?thesis by (simp add: parse_line_def case_prod_beta)
qed

theorem marker_namespaces_disjoint_witness:
  "parse_line CODEX_PREFIX ''CLAUDE_ERROR x'' ([], None) = ([], None)"
proof -
  have "parse_line CLAUDE_PREFIX ''CLAUDE_ERROR x'' ([], None) \<noteq> ([], None)" by code_simp
  then show ?thesis
    by (rule marker_namespaces_disjoint [rotated 3]) (simp_all add: CLAUDE_PREFIX_def CODEX_PREFIX_def)
qed

section \<open>A spawn is exclusive and starts afresh\<close>

text \<open>
  A marker adapter runs at most one child: while the child it has is not seen to have exited, a
  spawn is refused and the child stays; otherwise a request that is well formed launches one child
  with the request's command, and the adapter then is as a new one with that child: no byte, no
  session and no stop request of the previous run is left. A launch that fails leaves no child.
\<close>

theorem marker_spawn_exclusive:
  assumes "\<not> sq_interactive req" "sq_argv req \<noteq> []"
  shows "(\<exists>child. ma_child a = Some child \<and> \<not> ch_exited child \<and> (\<forall>code. os \<noteq> Exited code) \<and>
      marker_spawn launch os req a = (Inl (SpawnFailed ''already running''), a)) \<or>
    (\<exists>result. launch \<lparr>pg_argv = sq_argv req, pg_working_dir = sq_working_dir req, pg_env = sq_env req, pg_input = None,
        pg_output_cap_bytes = sq_output_cap_bytes req\<rparr> = result \<and>
      marker_spawn launch os req a = (case result of
        Inr child \<Rightarrow> (Inr (), marker_new\<lparr>ma_child := Some child\<rparr>)
      | Inl err \<Rightarrow> (Inl (SpawnFailed (PtyError_text err)), marker_new)))"
proof (cases "marker_is_running (marker_poll os a)")
  case True
  then obtain child where c: "ma_child a = Some child" "child_exit_code (snd (child_wait os child)) = None"
    by (auto simp: marker_is_running_def marker_poll_def split: option.splits)
  then have "\<not> ch_exited child" "\<forall>code. os \<noteq> Exited code" "snd (child_wait os child) = child"
    by (cases os; auto simp: child_wait_def child_exit_code_def split: if_splits)+
  then have "marker_poll os a = a" using c by (simp add: marker_poll_def)
  then show ?thesis using True assms c \<open>\<not> ch_exited child\<close> \<open>\<forall>code. os \<noteq> Exited code\<close>
    by (simp add: marker_spawn_def)
next
  case False
  have "marker_reset b = marker_new" for b by (cases b) (simp add: marker_reset_def marker_new_def)
  then show ?thesis using False assms by (intro disjI2) (simp add: marker_spawn_def Let_def split: sum.splits)
qed

theorem marker_spawn_exclusive_witness:
  "marker_spawn (\<lambda>config. Inr (child_new config)) Timeout (spawn_request_new [''claude'']) (spawned sample_config) =
     (Inl (SpawnFailed ''already running''), spawned sample_config)"
proof -
  let ?r = "spawn_request_new [''claude'']"
  have "\<not> sq_interactive ?r" "sq_argv ?r \<noteq> []" by (simp_all add: spawn_request_new_def)
  from marker_spawn_exclusive [OF this, of "spawned sample_config" Timeout "\<lambda>config. Inr (child_new config)"] show ?thesis
    by (auto simp: marker_spawn_def spawned_def marker_new_def marker_poll_def marker_is_running_def child_new_def
        child_wait_def child_exit_code_def spawn_request_new_def Let_def)
qed

end
