(* ===== verification/Json.thy ===== *)
theory Json
  imports Rust_Text
begin

text \<open>
  calcar-connect/src/json.rs: the JSON value model, its renderer and its parser.

  Text is a byte list. A \<open>BTreeMap\<close> is an association list with strictly increasing keys. The
  parser's position is the list of bytes left, \<open>None\<close> is \<open>Err(Malformed)\<close>, which carries nothing.
  Rust's \<open>f64\<close> (its parser, its \<open>Debug\<close> output and \<open>is_finite\<close>) is a parameter of the definitions.
\<close>

section \<open>Values\<close>

datatype 'f Value =
    Null
  | Bool bool
  | IntV int
  | Float 'f
  | Str string
  | Arr "'f Value list"
  | Obj "(string \<times> 'f Value) list"

record 'f f64_ops =
  f64_parse :: "string \<Rightarrow> 'f option"
  f64_debug :: "'f \<Rightarrow> string"
  f64_is_finite :: "'f \<Rightarrow> bool"

text \<open>\<open>BTreeMap::insert\<close>: sorted by key, the last value of a key wins.\<close>

fun btree_insert :: "string \<Rightarrow> 'v \<Rightarrow> (string \<times> 'v) list \<Rightarrow> (string \<times> 'v) list" where
  "btree_insert k v [] = [(k, v)]"
| "btree_insert k v ((k', v') # m) =
     (if k < k' then (k, v) # (k', v') # m
      else if k = k' then (k, v) # m
      else (k', v') # btree_insert k v m)"

definition obj :: "(string \<times> 'f Value) list \<Rightarrow> 'f Value" where
  "obj pairs = Obj (fold (\<lambda>(k, v). btree_insert k v) pairs [])"

fun str_field :: "'f Value \<Rightarrow> string \<Rightarrow> string option" where
  "str_field (Obj m) key = (case map_of m key of Some (Str value) \<Rightarrow> Some value | _ \<Rightarrow> None)"
| "str_field _ key = None"

fun bool_field :: "'f Value \<Rightarrow> string \<Rightarrow> bool option" where
  "bool_field (Obj m) key = (case map_of m key of Some (Bool value) \<Rightarrow> Some value | _ \<Rightarrow> None)"
| "bool_field _ key = None"

fun int_field :: "'f Value \<Rightarrow> string \<Rightarrow> int option" where
  "int_field (Obj m) key = (case map_of m key of Some (IntV value) \<Rightarrow> Some value | _ \<Rightarrow> None)"
| "int_field _ key = None"

section \<open>Rendering\<close>

definition hex_digit :: "nat \<Rightarrow> char" where
  "hex_digit n = (if n < 10 then char_of (48 + n) else char_of (87 + n))"

text \<open>
  The escape of one character. Every character that is escaped is a single byte, so the bytes of
  other characters pass one by one.
\<close>

definition escape :: "char \<Rightarrow> string" where
  "escape c =
     (if c = dquote then [backslash, dquote]
      else if c = backslash then [backslash, backslash]
      else if c = newline then [backslash, CHR ''n'']
      else if c = carriage then [backslash, CHR ''r'']
      else if c = CHR 0x09 then [backslash, CHR ''t'']
      else if byte c < 32 then [backslash, CHR ''u'', CHR ''0'', CHR ''0'', hex_digit (byte c div 16), hex_digit (byte c mod 16)]
      else [c])"

definition write_string :: "string \<Rightarrow> string" where
  "write_string text = dquote # concat (map escape text) @ [dquote]"

text \<open>A comma before every item but the first.\<close>

fun commas :: "string list \<Rightarrow> string" where
  "commas [] = []"
| "commas [s] = s"
| "commas (s # t # ss) = s @ CHR '','' # commas (t # ss)"

fun write_value :: "'f f64_ops \<Rightarrow> 'f Value \<Rightarrow> string" where
  "write_value F Null = ''null''"
| "write_value F (Bool True) = ''true''"
| "write_value F (Bool False) = ''false''"
| "write_value F (IntV n) = show_int n"
| "write_value F (Float f) = (if f64_is_finite F f then f64_debug F f else ''null'')"
| "write_value F (Str text) = write_string text"
| "write_value F (Arr items) = CHR ''['' # commas (map (write_value F) items) @ '']''"
| "write_value F (Obj m) =
     CHR ''{'' # commas (map (\<lambda>p. write_string (fst p) @ CHR '':'' # write_value F (snd p)) m) @ ''}''"

definition render :: "'f f64_ops \<Rightarrow> 'f Value \<Rightarrow> string" where
  "render F value = write_value F value"

section \<open>Parsing\<close>

definition MAX_DEPTH :: nat where "MAX_DEPTH = 64"

definition is_ascii_whitespace :: "char \<Rightarrow> bool" where
  "is_ascii_whitespace c \<longleftrightarrow> byte c = 32 \<or> byte c = 9 \<or> byte c = 10 \<or> byte c = 12 \<or> byte c = 13"

definition skip_ws :: "string \<Rightarrow> string" where
  "skip_ws rest = dropWhile is_ascii_whitespace rest"

definition peek :: "string \<Rightarrow> char option" where
  "peek rest = (case rest of [] \<Rightarrow> None | c # _ \<Rightarrow> Some c)"

definition lit :: "string \<Rightarrow> string \<Rightarrow> string option" where
  "lit word rest = strip_prefix word rest"

definition hex_value :: "char \<Rightarrow> nat option" where
  "hex_value c = (let b = byte c in
     if 48 \<le> b \<and> b \<le> 57 then Some (b - 48)
     else if 97 \<le> b \<and> b \<le> 102 then Some (b - 87)
     else if 65 \<le> b \<and> b \<le> 70 then Some (b - 55) else None)"

fun hex_digits :: "nat \<Rightarrow> string \<Rightarrow> nat option" where
  "hex_digits acc [] = Some acc"
| "hex_digits acc (c # cs) = (case hex_value c of None \<Rightarrow> None | Some d \<Rightarrow> hex_digits (acc * 16 + d) cs)"

text \<open>\<open>u32::from_str_radix(digits, 16)\<close> on four bytes, which cannot overflow; a leading plus is allowed.\<close>

definition from_str_radix16 :: "string \<Rightarrow> nat option" where
  "from_str_radix16 s = (case s of
       [] \<Rightarrow> None
     | c # cs \<Rightarrow> if c = CHR ''+'' then (if cs = [] then None else hex_digits 0 cs) else hex_digits 0 s)"

definition hex4 :: "string \<Rightarrow> (nat \<times> string) option" where
  "hex4 rest =
     (if length rest < 4 then None
      else if \<not> valid_utf8 (take 4 rest) then None
      else case from_str_radix16 (take 4 rest) of None \<Rightarrow> None | Some code \<Rightarrow> Some (code, drop 4 rest))"

text \<open>\<open>char::from_u32\<close> on a value below 65536, and the bytes \<open>String::push\<close> adds.\<close>

definition utf8_encode :: "nat \<Rightarrow> string" where
  "utf8_encode n =
     (if n < 128 then [char_of n]
      else if n < 2048 then [char_of (192 + n div 64), char_of (128 + n mod 64)]
      else [char_of (224 + n div 4096), char_of (128 + n div 64 mod 64), char_of (128 + n mod 64)])"

definition char_from_u32 :: "nat \<Rightarrow> string option" where
  "char_from_u32 code = (if 55296 \<le> code \<and> code \<le> 57343 then None else Some (utf8_encode code))"

definition unescape :: "char \<Rightarrow> char option" where
  "unescape e =
     (if e = dquote then Some dquote
      else if e = backslash then Some backslash
      else if e = CHR ''/'' then Some (CHR ''/'')
      else if e = CHR ''b'' then Some (CHR 0x08)
      else if e = CHR ''f'' then Some (CHR 0x0C)
      else if e = CHR ''n'' then Some newline
      else if e = CHR ''r'' then Some carriage
      else if e = CHR ''t'' then Some (CHR 0x09)
      else None)"

lemma hex4_shorter: "hex4 rest = Some (code, rest') \<Longrightarrow> length rest' < length rest"
  by (auto simp: hex4_def split: if_splits option.splits)

text \<open>The loop of \<open>Parser::string\<close>, entered after the opening quote.\<close>

function string_loop :: "string \<Rightarrow> string \<Rightarrow> (string \<times> string) option" where
  "string_loop out [] = None"
| "string_loop out (c # cs) =
     (if c = dquote then Some (out, cs)
      else if c = backslash then
        (case cs of
           [] \<Rightarrow> None
         | e # es \<Rightarrow>
             if e = CHR ''u'' then
               (case hex4 es of
                  None \<Rightarrow> None
                | Some (code, rest) \<Rightarrow>
                    (case char_from_u32 code of None \<Rightarrow> None | Some ch \<Rightarrow> string_loop (out @ ch) rest))
             else (case unescape e of None \<Rightarrow> None | Some ch \<Rightarrow> string_loop (out @ [ch]) es))
      else if byte c < 32 then None
      else if \<not> valid_utf8 (c # cs) then None
      else string_loop (out @ take (snd (utf8_step (c # cs))) (c # cs)) (drop (snd (utf8_step (c # cs))) (c # cs)))"
  by pat_completeness auto

termination
proof (relation "measure (\<lambda>(out, rest). length rest)")
  fix out c cs
  show "((out @ take (snd (utf8_step (c # cs))) (c # cs), drop (snd (utf8_step (c # cs))) (c # cs)), out, c # cs)
      \<in> measure (\<lambda>(out, rest). length rest)"
    using utf8_step_pos [of c cs] by simp
qed (auto dest: hex4_shorter)

definition json_string :: "string \<Rightarrow> (string \<times> string) option" where
  "json_string rest = string_loop [] (tl rest)"

subsection \<open>Numbers\<close>

text \<open>\<open>str::parse::<i64>\<close>.\<close>

definition in_i64 :: "int \<Rightarrow> bool" where
  "in_i64 n \<longleftrightarrow> i64_min \<le> n \<and> n \<le> i64_max"

definition digits_int :: "int \<Rightarrow> string \<Rightarrow> int option" where
  "digits_int sign ds = (if ds = [] then None else case digits_val 0 ds of
       None \<Rightarrow> None
     | Some n \<Rightarrow> if in_i64 (sign * int n) then Some (sign * int n) else None)"

definition parse_i64 :: "string \<Rightarrow> int option" where
  "parse_i64 s = (case s of
       [] \<Rightarrow> None
     | c # cs \<Rightarrow> if c = CHR ''-'' then digits_int (- 1) cs else if c = CHR ''+'' then digits_int 1 cs else digits_int 1 s)"

text \<open>The parts the scanner takes: a sign, digits, a fraction and an exponent.\<close>

definition scan_sign :: "string \<Rightarrow> string \<times> string" where
  "scan_sign rest = (if peek rest = Some (CHR ''-'') then (''-'', tl rest) else ([], rest))"

definition scan_digits :: "string \<Rightarrow> string \<times> string" where
  "scan_digits rest = (takeWhile is_digit rest, dropWhile is_digit rest)"

definition scan_fraction :: "string \<Rightarrow> string \<times> string" where
  "scan_fraction rest =
     (if peek rest = Some (CHR ''.'')
      then let (ds, rest') = scan_digits (tl rest) in (CHR ''.'' # ds, rest') else ([], rest))"

definition scan_exponent :: "string \<Rightarrow> string \<times> string" where
  "scan_exponent rest =
     (if peek rest = Some (CHR ''e'') \<or> peek rest = Some (CHR ''E'') then
        let e = hd rest; rest1 = tl rest;
            (sign, rest2) = (if peek rest1 = Some (CHR ''+'') \<or> peek rest1 = Some (CHR ''-'') then ([hd rest1], tl rest1) else ([], rest1));
            (ds, rest3) = scan_digits rest2 in
        (e # sign @ ds, rest3)
      else ([], rest))"

definition json_number :: "'f f64_ops \<Rightarrow> string \<Rightarrow> ('f Value \<times> string) option" where
  "json_number F rest =
     (let (sign, rest1) = scan_sign rest;
          (ds, rest2) = scan_digits rest1;
          (frac, rest3) = scan_fraction rest2;
          (ex, rest4) = scan_exponent rest3;
          text = sign @ ds @ frac @ ex;
          is_float = (frac \<noteq> [] \<or> ex \<noteq> []);
          float = (case f64_parse F text of None \<Rightarrow> None | Some f \<Rightarrow> Some (Float f, rest4)) in
      if text = [] \<or> text = ''-'' then None
      else if is_float then float
      else case parse_i64 text of Some n \<Rightarrow> Some (IntV n, rest4) | None \<Rightarrow> float)"

subsection \<open>Values\<close>

text \<open>
  The mutually recursive part. \<open>json_object\<close> and \<open>json_array\<close> are entered after the opening
  bracket; their loops are functions of their own. The depth is the source's.
\<close>

function (sequential)
  json_value :: "'f f64_ops \<Rightarrow> nat \<Rightarrow> string \<Rightarrow> ('f Value \<times> string) option" and
  json_object :: "'f f64_ops \<Rightarrow> nat \<Rightarrow> string \<Rightarrow> ('f Value \<times> string) option" and
  object_loop :: "'f f64_ops \<Rightarrow> nat \<Rightarrow> (string \<times> 'f Value) list \<Rightarrow> string \<Rightarrow> ('f Value \<times> string) option" and
  json_array :: "'f f64_ops \<Rightarrow> nat \<Rightarrow> string \<Rightarrow> ('f Value \<times> string) option" and
  array_loop :: "'f f64_ops \<Rightarrow> nat \<Rightarrow> 'f Value list \<Rightarrow> string \<Rightarrow> ('f Value \<times> string) option"
where
  "json_value F depth rest =
     (if depth > MAX_DEPTH then None
      else case peek rest of
        None \<Rightarrow> None
      | Some c \<Rightarrow>
          if c = CHR ''{'' then json_object F depth (tl rest)
          else if c = CHR ''['' then json_array F depth (tl rest)
          else if c = dquote then (case json_string rest of None \<Rightarrow> None | Some (s, rest') \<Rightarrow> Some (Str s, rest'))
          else if c = CHR ''t'' then (case lit ''true'' rest of None \<Rightarrow> None | Some rest' \<Rightarrow> Some (Bool True, rest'))
          else if c = CHR ''f'' then (case lit ''false'' rest of None \<Rightarrow> None | Some rest' \<Rightarrow> Some (Bool False, rest'))
          else if c = CHR ''n'' then (case lit ''null'' rest of None \<Rightarrow> None | Some rest' \<Rightarrow> Some (Null, rest'))
          else if c = CHR ''-'' \<or> is_digit c then json_number F rest
          else None)"
| "json_object F depth rest =
     (let rest1 = skip_ws rest in
      if peek rest1 = Some (CHR ''}'') then Some (Obj [], tl rest1)
      else object_loop F depth [] rest1)"
| "object_loop F depth m rest =
     (let rest1 = skip_ws rest in
      if peek rest1 \<noteq> Some dquote then None
      else case json_string rest1 of
        None \<Rightarrow> None
      | Some (key, rest2) \<Rightarrow>
          let rest3 = skip_ws rest2 in
          if peek rest3 \<noteq> Some (CHR '':'') then None
          else case json_value F (depth + 1) (skip_ws (tl rest3)) of
            None \<Rightarrow> None
          | Some (v, rest4) \<Rightarrow>
              let rest5 = skip_ws rest4; m' = btree_insert key v m in
              if peek rest5 = Some (CHR '','') then object_loop F depth m' (tl rest5)
              else if peek rest5 = Some (CHR ''}'') then Some (Obj m', tl rest5)
              else None)"
| "json_array F depth rest =
     (let rest1 = skip_ws rest in
      if peek rest1 = Some (CHR '']'') then Some (Arr [], tl rest1)
      else array_loop F depth [] rest1)"
| "array_loop F depth items rest =
     (case json_value F (depth + 1) (skip_ws rest) of
        None \<Rightarrow> None
      | Some (v, rest1) \<Rightarrow>
          let rest2 = skip_ws rest1; items' = items @ [v] in
          if peek rest2 = Some (CHR '','') then array_loop F depth items' (tl rest2)
          else if peek rest2 = Some (CHR '']'') then Some (Arr items', tl rest2)
          else None)"
  by pat_completeness auto

lemma skip_ws_length: "length (skip_ws rest) \<le> length rest"
  by (simp add: skip_ws_def length_dropWhile_le)

lemma string_loop_shorter: "string_loop out rest = Some (s, rest') \<Longrightarrow> length rest' < length rest"
proof (induction out rest rule: string_loop.induct)
  case (2 out c cs)
  show ?case
  proof (cases "c = dquote")
    case True
    then show ?thesis using 2(4) by simp
  next
    case nq: False
    show ?thesis
    proof (cases "c = backslash")
      case True
      show ?thesis using 2(4) nq True 2(1,2)
        by (auto split: list.splits option.splits if_splits dest!: hex4_shorter) (meson less_SucI less_trans less_Suc_eq)+
    next
      case False
      then show ?thesis using 2(4) nq 2(3) by (auto split: if_splits)
    qed
  qed
qed simp

lemma json_string_shorter: "json_string rest = Some (s, rest') \<Longrightarrow> length rest' < length rest"
  unfolding json_string_def by (cases rest) (auto dest: string_loop_shorter)

text \<open>Each scanner splits its input; a number that parses has at least one byte.\<close>

lemma peek_Some: "peek rest = Some c \<longleftrightarrow> rest = c # tl rest"
  by (cases rest) (auto simp: peek_def)

lemma scan_parts:
  "fst (scan_sign rest) @ snd (scan_sign rest) = rest"
  "fst (scan_digits rest) @ snd (scan_digits rest) = rest"
  "fst (scan_fraction rest) @ snd (scan_fraction rest) = rest"
  "fst (scan_exponent rest) @ snd (scan_exponent rest) = rest"
proof -
  show "fst (scan_sign rest) @ snd (scan_sign rest) = rest"
    by (cases rest) (auto simp: scan_sign_def peek_def)
  show d: "fst (scan_digits rest) @ snd (scan_digits rest) = rest" for rest by (simp add: scan_digits_def)
  show "fst (scan_fraction rest) @ snd (scan_fraction rest) = rest"
    using d [of "tl rest"] by (cases rest) (auto simp: scan_fraction_def peek_def Let_def case_prod_beta)
  show "fst (scan_exponent rest) @ snd (scan_exponent rest) = rest"
  proof (cases rest)
    case (Cons e rs)
    then show ?thesis using d [of rs] d [of "tl rs"]
      by (cases rs) (auto simp: scan_exponent_def peek_def Let_def case_prod_beta)
  qed (simp add: scan_exponent_def peek_def)
qed

lemma json_number_shorter:
  assumes "json_number F rest = Some (v, rest')"
  shows "length rest' < length rest"
proof -
  obtain sg r1 where 1: "scan_sign rest = (sg, r1)" by fastforce
  obtain ds r2 where 2: "scan_digits r1 = (ds, r2)" by fastforce
  obtain fr r3 where 3: "scan_fraction r2 = (fr, r3)" by fastforce
  obtain ex r4 where 4: "scan_exponent r3 = (ex, r4)" by fastforce
  have "rest = sg @ ds @ fr @ ex @ r4"
    using scan_parts(1) [of rest] scan_parts(2) [of r1] scan_parts(3) [of r2] scan_parts(4) [of r3] 1 2 3 4 by simp
  moreover have "rest' = r4" "sg @ ds @ fr @ ex \<noteq> []"
    using assms by (auto simp: json_number_def 1 2 3 4 Let_def split: if_splits option.splits)
  ultimately show ?thesis by auto
qed

lemma lit_shorter: "lit word rest = Some rest' \<Longrightarrow> word \<noteq> [] \<Longrightarrow> length rest' < length rest"
  by (auto simp: lit_def strip_prefix_Some)

abbreviation shorter :: "('a \<times> string) option \<Rightarrow> string \<Rightarrow> bool" where
  "shorter r rest \<equiv> \<forall>v rest'. r = Some (v, rest') \<longrightarrow> length rest' < length rest"

lemma object_continue:
  assumes "length rest4 < length (skip_ws (tl rest3))" "length rest2 < length (skip_ws rest)"
    "rest3 = skip_ws rest2"
  shows "length (tl (skip_ws rest4)) < length rest"
  using assms skip_ws_length [of rest4] skip_ws_length [of rest] skip_ws_length [of rest2] skip_ws_length [of "tl rest3"] by simp

text \<open>What a value that is neither an object nor an array is parsed by.\<close>

definition json_scalar :: "'f f64_ops \<Rightarrow> string \<Rightarrow> ('f Value \<times> string) option" where
  "json_scalar F rest = (case peek rest of
        None \<Rightarrow> None
      | Some c \<Rightarrow>
          if c = dquote then (case json_string rest of None \<Rightarrow> None | Some (s, rest') \<Rightarrow> Some (Str s, rest'))
          else if c = CHR ''t'' then (case lit ''true'' rest of None \<Rightarrow> None | Some rest' \<Rightarrow> Some (Bool True, rest'))
          else if c = CHR ''f'' then (case lit ''false'' rest of None \<Rightarrow> None | Some rest' \<Rightarrow> Some (Bool False, rest'))
          else if c = CHR ''n'' then (case lit ''null'' rest of None \<Rightarrow> None | Some rest' \<Rightarrow> Some (Null, rest'))
          else if c = CHR ''-'' \<or> is_digit c then json_number F rest
          else None)"

lemma json_scalar_cases:
  assumes "json_scalar F rest = Some (v, rest')"
  obtains s where "json_string rest = Some (s, rest')" "v = Str s"
  | w where "lit w rest = Some rest'" "w \<noteq> []" "v = Bool True \<or> v = Bool False \<or> v = Null"
  | "json_number F rest = Some (v, rest')"
proof -
  obtain c where c: "peek rest = Some c" using assms by (cases "peek rest") (simp_all add: json_scalar_def)
  consider "c = dquote" | "c \<noteq> dquote" "c = CHR ''t''" | "c \<noteq> dquote" "c = CHR ''f''" | "c \<noteq> dquote" "c = CHR ''n''"
    | "c \<noteq> dquote" "c \<noteq> CHR ''t''" "c \<noteq> CHR ''f''" "c \<noteq> CHR ''n''" by blast
  then show thesis
  proof cases
    case 1
    then show thesis using assms c that(1) by (simp add: json_scalar_def split: option.splits prod.splits)
  next
    case 2
    then show thesis using assms c that(2) [of "''true''"] by (simp add: json_scalar_def split: option.splits)
  next
    case 3
    then show thesis using assms c that(2) [of "''false''"] by (simp add: json_scalar_def split: option.splits)
  next
    case 4
    then show thesis using assms c that(2) [of "''null''"] by (simp add: json_scalar_def split: option.splits)
  next
    case 5
    then show thesis using assms c that(3) by (simp add: json_scalar_def split: if_splits)
  qed
qed

lemma json_scalar_shorter: "shorter (json_scalar F rest) rest"
proof (intro allI impI)
  fix v rest' assume "json_scalar F rest = Some (v, rest')"
  then show "length rest' < length rest"
    by (cases rule: json_scalar_cases) (blast intro: json_string_shorter json_number_shorter lit_shorter)+
qed

lemma consumes:
  "json_value_json_object_object_loop_json_array_array_loop_dom (Inl (Inl (F, depth, rest))) \<Longrightarrow> shorter (json_value F depth rest) rest"
  "json_value_json_object_object_loop_json_array_array_loop_dom (Inl (Inr (F, depth, rest))) \<Longrightarrow> shorter (json_object F depth rest) rest"
  "json_value_json_object_object_loop_json_array_array_loop_dom (Inr (Inl (F, depth, m, rest))) \<Longrightarrow> shorter (object_loop F depth m rest) rest"
  "json_value_json_object_object_loop_json_array_array_loop_dom (Inr (Inr (Inl (F, depth, rest)))) \<Longrightarrow> shorter (json_array F depth rest) rest"
  "json_value_json_object_object_loop_json_array_array_loop_dom (Inr (Inr (Inr (F, depth, items, rest)))) \<Longrightarrow> shorter (array_loop F depth items rest) rest"
proof (induction F depth rest and F depth rest and F depth m rest and F depth rest and F depth items rest
    rule: json_value_json_object_object_loop_json_array_array_loop.pinduct)
  case (1 F depth rest)
  show ?case
  proof (cases "peek rest")
    case None
    then show ?thesis using 1(1) by (simp add: json_value.psimps)
  next
    case (Some c)
    then obtain cs where r: "rest = c # cs" by (metis peek_Some)
    have sub: "shorter (json_object F depth cs) rest" if "\<not> MAX_DEPTH < depth" "c = CHR ''{''"
      using 1(2) [OF that(1) Some that(2)] r by (auto intro: less_SucI)
    have sub': "shorter (json_array F depth cs) rest" if "\<not> MAX_DEPTH < depth" "c = CHR ''[''" "c \<noteq> CHR ''{''"
      using 1(3) [OF that(1) Some that(3,2)] r by (auto intro: less_SucI)
    have step: "json_value F depth rest = (if MAX_DEPTH < depth then None else if c = CHR ''{'' then json_object F depth (tl rest)
        else if c = CHR ''['' then json_array F depth (tl rest) else json_scalar F rest)"
      by (simp only: json_value.psimps [OF 1(1)] Some option.case json_scalar_def)
    show ?thesis
      using sub sub' json_scalar_shorter [of F rest] unfolding step by (simp add: r)
  qed
next
  case (2 F depth rest)
  note step = json_object.psimps [OF 2(1), unfolded Let_def]
  show ?case
  proof (cases "peek (skip_ws rest) = Some (CHR ''}'')")
    case True
    then show ?thesis unfolding step using skip_ws_length [of rest] by (cases "skip_ws rest") (auto simp: peek_def)
  next
    case False
    then show ?thesis unfolding step using skip_ws_length [of rest] 2(2) [OF refl False] by (auto intro: less_le_trans)
  qed
next
  case (3 F depth m rest)
  note step = object_loop.psimps [OF 3(1), unfolded Let_def]
  show ?case
  proof (intro allI impI)
    fix v rest' assume a: "object_loop F depth m rest = Some (v, rest')"
    obtain key r2 where o: "json_string (skip_ws rest) = Some (key, r2)" "peek (skip_ws rest) = Some dquote"
      "peek (skip_ws r2) = Some (CHR '':'')"
      using a unfolding step by (auto split: if_splits option.splits)
    obtain u r4 where w: "json_value F (depth + 1) (skip_ws (tl (skip_ws r2))) = Some (u, r4)"
      using a unfolding step by (auto simp: o split: option.splits)
    have "length r4 < length (skip_ws (tl (skip_ws r2)))"
      using 3(2) [OF refl _ o(1) refl refl] o w by simp
    then have l: "length (tl (skip_ws r4)) < length rest"
      using object_continue [of r4 "skip_ws r2" r2 rest] json_string_shorter [OF o(1)] by simp
    show "length rest' < length rest"
    proof (cases "peek (skip_ws r4) = Some (CHR '','')")
      case True
      have "length rest' < length (tl (skip_ws r4))"
        using 3(3) [OF refl _ o(1) refl refl _ w refl refl refl True] a unfolding step by (simp add: o w [simplified] True)
      then show ?thesis using l by simp
    next
      case False
      then show ?thesis using a l unfolding step by (auto simp: o w [simplified] split: if_splits)
    qed
  qed
next
  case (4 F depth rest)
  note step = json_array.psimps [OF 4(1), unfolded Let_def]
  show ?case
  proof (cases "peek (skip_ws rest) = Some (CHR '']'')")
    case True
    then show ?thesis unfolding step using skip_ws_length [of rest] by (cases "skip_ws rest") (auto simp: peek_def)
  next
    case False
    then show ?thesis unfolding step using skip_ws_length [of rest] 4(2) [OF refl False] by (auto intro: less_le_trans)
  qed
next
  case (5 F depth items rest)
  note step = array_loop.psimps [OF 5(1), unfolded Let_def]
  show ?case
  proof (intro allI impI)
    fix v rest' assume a: "array_loop F depth items rest = Some (v, rest')"
    obtain u r1 where o: "json_value F (depth + 1) (skip_ws rest) = Some (u, r1)"
      using a unfolding step by (auto split: option.splits)
    have l: "length (tl (skip_ws r1)) < length rest"
      using 5(2) o skip_ws_length [of rest] skip_ws_length [of r1] by fastforce
    show "length rest' < length rest"
    proof (cases "peek (skip_ws r1) = Some (CHR '','')")
      case True
      have "length rest' < length (tl (skip_ws r1))"
        using 5(3) [OF o refl refl refl True] a unfolding step by (simp add: o [simplified] True)
      then show ?thesis using l by simp
    next
      case False
      then show ?thesis using a l unfolding step by (auto simp: o [simplified] split: if_splits)
    qed
  qed
qed

fun parse_measure where
  "parse_measure (Inl (Inl (F, depth, rest))) = 3 * length rest"
| "parse_measure (Inl (Inr (F, depth, rest))) = 3 * length rest + 2"
| "parse_measure (Inr (Inl (F, depth, m, rest))) = 3 * length rest + 1"
| "parse_measure (Inr (Inr (Inl (F, depth, rest)))) = 3 * length rest + 2"
| "parse_measure (Inr (Inr (Inr (F, depth, items, rest)))) = 3 * length rest + 1"

termination json_value
proof (relation "measure parse_measure")
  fix F :: "'f f64_ops" and depth :: nat and rest :: string and c
  assume "peek rest = Some c"
  then show "(Inl (Inr (F, depth, tl rest)), Inl (Inl (F, depth, rest))) \<in> measure parse_measure"
    "(Inr (Inr (Inl (F, depth, tl rest))), Inl (Inl (F, depth, rest))) \<in> measure parse_measure"
    by (cases rest; simp add: peek_def)+
next
  fix F :: "'f f64_ops" and depth :: nat and m :: "(string \<times> 'f Value) list" and rest r1 r2 r3 :: string and x2 k
  assume "r1 = skip_ws rest" "json_string r1 = Some x2" "(k, r2) = x2" "r3 = skip_ws r2"
  then show "(Inl (Inl (F, depth + 1, skip_ws (tl r3))), Inr (Inl (F, depth, m, rest))) \<in> measure parse_measure"
    using json_string_shorter [of r1 k r2] skip_ws_length [of rest] skip_ws_length [of r2] skip_ws_length [of "tl r3"] by auto
next
  fix F :: "'f f64_ops" and depth :: nat and m m' :: "(string \<times> 'f Value) list" and rest r1 r2 r3 r4 r5 :: string and x2 k v x4
  assume a: "r1 = skip_ws rest" "json_string r1 = Some x2" "(k, r2) = x2" "r3 = skip_ws r2"
    "json_value F (depth + 1) (skip_ws (tl r3)) = Some x4" "(v, r4) = x4" "r5 = skip_ws r4"
    "json_value_json_object_object_loop_json_array_array_loop_dom (Inl (Inl (F, depth + 1, skip_ws (tl r3))))"
  have "length (tl r5) < length rest"
    using object_continue [of r4 r3 r2 rest] json_string_shorter [of r1 k r2] consumes(1) [OF a(8)] a(1-7) by auto
  then show "(Inr (Inl (F, depth, m', tl r5)), Inr (Inl (F, depth, m, rest))) \<in> measure parse_measure" by simp
next
  fix F :: "'f f64_ops" and depth :: nat and items items' :: "'f Value list" and rest r1 r2 :: string and x v
  assume a: "json_value F (depth + 1) (skip_ws rest) = Some x" "(v, r1) = x" "r2 = skip_ws r1"
    "json_value_json_object_object_loop_json_array_array_loop_dom (Inl (Inl (F, depth + 1, skip_ws rest)))"
  have "length (tl r2) < length rest"
    using consumes(1) [OF a(4)] a(1-3) skip_ws_length [of rest] skip_ws_length [of r1] by fastforce
  then show "(Inr (Inr (Inr (F, depth, items', tl r2))), Inr (Inr (Inr (F, depth, items, rest)))) \<in> measure parse_measure" by simp
qed (use skip_ws_length in \<open>auto simp: less_Suc_eq_le\<close>)

declare json_value.simps [simp del] json_object.simps [simp del] object_loop.simps [simp del]
  json_array.simps [simp del] array_loop.simps [simp del] string_loop.simps(2) [simp del]

definition parse :: "'f f64_ops \<Rightarrow> string \<Rightarrow> 'f Value option" where
  "parse F text = (case json_value F 0 (skip_ws text) of
       None \<Rightarrow> None
     | Some (value, rest) \<Rightarrow> if skip_ws rest \<noteq> [] then None else Some value)"

end
