(* ===== verification/Json_Props.thy ===== *)
theory Json_Props
  imports Json
begin

text \<open>
  What json.rs promises: a value survives rendering and parsing, what the parser accepts is a
  well-formed value of bounded depth, and every text gets an answer.
\<close>

section \<open>UTF-8 and concatenation\<close>

text \<open>One character at the head of a string: its bytes decide, and a longer one has no ASCII byte.\<close>

lemma utf8_step_take:
  assumes "utf8_step (c # cs) = (True, n)"
  shows "utf8_step (take n (c # cs) @ t) = (True, n)" "n \<le> length (c # cs)" "0 < n"
    "n = 1 \<longleftrightarrow> byte c < 128" "byte c \<ge> 128 \<Longrightarrow> \<forall>b\<in>set (take n (c # cs)). byte b \<ge> 128"
proof -
  show "0 < n" using utf8_step_pos [of c cs] assms by simp
  have *: "(n = 1 \<and> byte c < 128) \<or>
     (\<exists>c1 cs1. cs = c1 # cs1 \<and> n = 2 \<and> seq_width (byte c) = 2 \<and> cont (byte c1)) \<or>
     (\<exists>c1 c2 cs1. cs = c1 # c2 # cs1 \<and> n = 3 \<and> seq_width (byte c) = 3 \<and> second_ok (byte c) (byte c1) \<and> cont (byte c2)) \<or>
     (\<exists>c1 c2 c3 cs1. cs = c1 # c2 # c3 # cs1 \<and> n = 4 \<and> seq_width (byte c) = 4 \<and> second_ok (byte c) (byte c1) \<and> cont (byte c2) \<and> cont (byte c3))"
    using assms unfolding utf8_step.simps(2) Let_def
    by (auto split: if_splits list.splits simp: seq_width_def)
  have so: "128 \<le> b'" if "second_ok b b'" for b b' using that by (auto simp: second_ok_def cont_def split: if_splits)
  show "utf8_step (take n (c # cs) @ t) = (True, n)" "n \<le> length (c # cs)"
    using * by (auto simp: utf8_step.simps(2) Let_def seq_width_def)
  show "n = 1 \<longleftrightarrow> byte c < 128" using * by (auto simp: seq_width_def split: if_splits)
  show "\<forall>b\<in>set (take n (c # cs)). byte b \<ge> 128" if "byte c \<ge> 128"
    using * that so by (auto simp: cont_def)
qed

lemma valid_utf8_Cons: "valid_utf8 (c # cs) \<longleftrightarrow> (\<exists>n. utf8_step (c # cs) = (True, n) \<and> valid_utf8 (drop n (c # cs)))"
  by (auto simp: valid_utf8.simps(2) split: prod.splits)

text \<open>Induction over the characters of a well-formed string.\<close>

lemma utf8_induct [consumes 1, case_names Nil Char]:
  assumes "valid_utf8 s" "P []"
    "\<And>ch c cs s. ch = c # cs \<Longrightarrow> (\<And>t. utf8_step (ch @ t) = (True, length ch)) \<Longrightarrow>
       (byte c < 128 \<and> cs = []) \<or> (\<forall>b\<in>set ch. byte b \<ge> 128) \<Longrightarrow> valid_utf8 s \<Longrightarrow> P s \<Longrightarrow> P (ch @ s)"
  shows "P s"
  using assms(1)
proof (induction s rule: valid_utf8.induct)
  case 1
  show ?case by (rule assms(2))
next
  case (2 c cs)
  then obtain n where n: "utf8_step (c # cs) = (True, n)" "valid_utf8 (drop n (c # cs))" by (auto simp: valid_utf8_Cons)
  note st = utf8_step_take [OF n(1)]
  let ?ch = "take n (c # cs)"
  have ch: "?ch = c # take (n - 1) cs" using st(3) by (cases n) simp_all
  have "P (?ch @ drop n (c # cs))"
  proof (rule assms(3) [OF ch])
    show "utf8_step (?ch @ t) = (True, length ?ch)" for t using st(1,2) by simp
    show "byte c < 128 \<and> take (n - 1) cs = [] \<or> (\<forall>b\<in>set ?ch. byte b \<ge> 128)"
      using st(4,5) by (cases "byte c < 128") auto
    show "valid_utf8 (drop n (c # cs))" by (rule n(2))
    show "P (drop n (c # cs))" using 2(1) [OF n(1) [symmetric] refl n(2)] .
  qed
  then show ?case by simp
qed

lemma valid_utf8_append: "valid_utf8 s \<Longrightarrow> valid_utf8 t \<Longrightarrow> valid_utf8 (s @ t)"
proof (induction rule: utf8_induct)
  case Nil
  then show ?case by simp
next
  case (Char ch c cs s)
  have "utf8_step (c # cs @ s @ t) = (True, length ch)" using Char(2) [of "s @ t"] Char(1) by simp
  then show ?case using Char(1,5,6) by (auto simp: valid_utf8_Cons)
qed

lemma valid_utf8_ascii: "\<forall>c\<in>set s. byte c < 128 \<Longrightarrow> valid_utf8 s"
  by (induction s) (auto simp: valid_utf8_Cons ascii_step)

section \<open>Strings\<close>

lemma special_bytes [simp]: "byte dquote = 34" "byte backslash = 92"
  by (simp_all add: byte_def dquote_def backslash_def)

lemma byte_inject: "byte a = byte b \<longleftrightarrow> a = b"
  by (simp add: byte_def)

lemma escape_high: "byte c \<ge> 128 \<Longrightarrow> escape c = [c]"
  by (auto simp: escape_def byte_def newline_def carriage_def dquote_def backslash_def)

lemma escape_high_all: "\<forall>c\<in>set s. byte c \<ge> 128 \<Longrightarrow> concat (map escape s) = s"
  by (induction s) (simp_all add: escape_high)

lemma byte_hex_digit: "n < 16 \<Longrightarrow> byte (hex_digit n) = (if n < 10 then 48 + n else 87 + n)"
  by (simp add: hex_digit_def byte_def)

lemma hex_value_hex_digit: "n < 16 \<Longrightarrow> hex_value (hex_digit n) = Some n"
  by (simp add: hex_value_def byte_hex_digit Let_def)

lemma escape_ascii: "byte c < 128 \<Longrightarrow> \<forall>b\<in>set (escape c). byte b < 128"
  by (auto simp: escape_def byte_def hex_digit_def dquote_def backslash_def split: if_splits)

lemma valid_utf8_escape: "valid_utf8 s \<Longrightarrow> valid_utf8 (concat (map escape s))"
proof (induction rule: utf8_induct)
  case (Char ch c cs s)
  have "valid_utf8 (concat (map escape ch))"
    using Char(3)
  proof
    assume "byte c < 128 \<and> cs = []"
    then show ?thesis using Char(1) escape_ascii [of c] by (simp add: valid_utf8_ascii)
  next
    assume "\<forall>b\<in>set ch. byte b \<ge> 128"
    then show ?thesis using Char(1) Char(2) [of "[]"] by (subst escape_high_all) (simp_all add: valid_utf8_Cons)
  qed
  then show ?case using Char(5) by (simp add: valid_utf8_append)
qed simp

text \<open>One escaped ASCII character is read back as itself.\<close>

lemma hex4_escape:
  assumes "n < 32"
  shows "hex4 (CHR ''0'' # CHR ''0'' # hex_digit (n div 16) # hex_digit (n mod 16) # t) = Some (n, t)"
proof -
  have m: "n div 16 < 16" "n mod 16 < 16" using assms by simp_all
  have a: "valid_utf8 [CHR ''0'', CHR ''0'', hex_digit (n div 16), hex_digit (n mod 16)]"
    using byte_hex_digit [OF m(1)] byte_hex_digit [OF m(2)] m by (intro valid_utf8_ascii) (auto simp: byte_def)
  have z: "hex_value (CHR ''0'') = Some 0" by (simp add: hex_value_def byte_def)
  have t: "take 4 (CHR ''0'' # CHR ''0'' # hex_digit (n div 16) # hex_digit (n mod 16) # t) =
      [CHR ''0'', CHR ''0'', hex_digit (n div 16), hex_digit (n mod 16)]" by simp
  show ?thesis
    unfolding hex4_def t using a by (simp add: from_str_radix16_def z hex_value_hex_digit [OF m(1)] hex_value_hex_digit [OF m(2)])
qed

lemma string_loop_ascii:
  assumes "byte c < 128" "valid_utf8 t"
  shows "string_loop out (escape c @ t) = string_loop (out @ [c]) t"
proof -
  have v: "valid_utf8 (c # t)" using assms by (simp add: valid_utf8_Cons ascii_step)
  have st: "utf8_step (c # t) = (True, 1)" using assms(1) by (rule ascii_step)
  have u: "utf8_encode (byte c) = [c]" "char_from_u32 (byte c) = Some [c]"
    using assms(1) by (simp_all add: utf8_encode_def char_from_u32_def byte_def)
  have "c = dquote \<or> c = backslash \<or> c = newline \<or> c = carriage \<or> c = CHR 0x09 \<or>
      escape c = (if byte c < 32 then [backslash, CHR ''u'', CHR ''0'', CHR ''0'', hex_digit (byte c div 16), hex_digit (byte c mod 16)] else [c])"
    by (simp add: escape_def)
  then consider "c = dquote" | "c = backslash" | "c = newline" | "c = carriage" | "c = CHR 0x09"
    | "byte c < 32" "escape c = [backslash, CHR ''u'', CHR ''0'', CHR ''0'', hex_digit (byte c div 16), hex_digit (byte c mod 16)]"
    | "\<not> byte c < 32" "escape c = [c]" "c \<noteq> dquote" "c \<noteq> backslash"
    by metis
  then show ?thesis
  proof cases
    case 6
    then show ?thesis using hex4_escape [OF 6(1), of t] u by (simp add: string_loop.simps(2))
  next
    case 7
    then show ?thesis using v st by (simp add: string_loop.simps(2))
  qed (simp_all add: string_loop.simps(2) escape_def unescape_def, simp_all add: dquote_def backslash_def newline_def carriage_def)
qed

lemma string_loop_roundtrip:
  "valid_utf8 s \<Longrightarrow> valid_utf8 t \<Longrightarrow> string_loop out (concat (map escape s) @ dquote # t) = Some (out @ s, t)"
proof (induction s arbitrary: out rule: utf8_induct)
  case Nil
  then show ?case by (simp add: string_loop.simps(2))
next
  case (Char ch c cs s)
  let ?r = "concat (map escape s) @ dquote # t"
  have q: "valid_utf8 (dquote # t)" using Char(6) by (simp add: valid_utf8_Cons ascii_step)
  have r: "valid_utf8 ?r" using valid_utf8_append [OF valid_utf8_escape [OF Char(4)] q] .
  show ?case using Char(3)
  proof
    assume c: "byte c < 128 \<and> cs = []"
    then show ?thesis using string_loop_ascii [of c ?r out] r Char(5) [OF Char(6), of "out @ [c]"] Char(1) by simp
  next
    assume h: "\<forall>b\<in>set ch. byte b \<ge> 128"
    have st: "utf8_step (c # cs @ ?r) = (True, length ch)" using Char(2) [of ?r] Char(1) by simp
    then have v: "valid_utf8 (c # cs @ ?r)" using r Char(1) by (auto simp: valid_utf8_Cons)
    have "byte c \<ge> 128" using h Char(1) by simp
    then have "c \<noteq> dquote" "c \<noteq> backslash" "\<not> byte c < 32" by auto
    then have "string_loop out (c # cs @ ?r) = string_loop (out @ ch) ?r"
      using st v Char(1) by (simp add: string_loop.simps(2))
    moreover have "concat (map escape (ch @ s)) @ dquote # t = c # cs @ ?r" using escape_high_all [OF h] Char(1) by simp
    ultimately show ?thesis using Char(5) [OF Char(6), of "out @ ch"] by simp
  qed
qed

lemma json_string_roundtrip: "valid_utf8 s \<Longrightarrow> valid_utf8 t \<Longrightarrow> json_string (write_string s @ t) = Some (s, t)"
  using string_loop_roundtrip [of s t "[]"] by (simp add: json_string_def write_string_def)

section \<open>Numbers\<close>

definition digits :: "string \<Rightarrow> bool" where
  "digits ds \<longleftrightarrow> ds \<noteq> [] \<and> (\<forall>c\<in>set ds. is_digit c)"

text \<open>The texts \<open>Debug for f64\<close> writes for finite numbers: a fraction, an exponent or both.\<close>

definition float_text :: "string \<Rightarrow> bool" where
  "float_text t \<longleftrightarrow> (\<exists>sg ds frac ex. t = sg @ ds @ frac @ ex \<and> sg \<in> {[], ''-''} \<and> digits ds \<and>
     (frac = [] \<or> (\<exists>fs. digits fs \<and> frac = CHR ''.'' # fs)) \<and>
     (ex = [] \<or> (\<exists>es sgn. digits es \<and> sgn \<in> {[], ''-''} \<and> ex = CHR ''e'' # sgn @ es)) \<and> (frac \<noteq> [] \<or> ex \<noteq> []))"

text \<open>The documented round trip of \<open>f64\<close>: what \<open>Debug\<close> writes for a finite number parses to it.\<close>

definition f64_round_trips :: "'f f64_ops \<Rightarrow> bool" where
  "f64_round_trips F \<longleftrightarrow>
     (\<forall>f. f64_is_finite F f \<longrightarrow> float_text (f64_debug F f) \<and> f64_parse F (f64_debug F f) = Some f)"

text \<open>The bytes that may follow a value: the scanner stops there.\<close>

definition ends_value :: "string \<Rightarrow> bool" where
  "ends_value t \<longleftrightarrow> t = [] \<or> hd t \<in> {CHR '','', CHR '']'', CHR ''}''}"

lemma is_digit_iff: "is_digit c \<longleftrightarrow> 48 \<le> byte c \<and> byte c \<le> 57"
  by (simp add: is_digit_def digit_val_def byte_def Let_def)

lemma not_digits: "\<not> is_digit (CHR ''.'')" "\<not> is_digit (CHR ''e'')" "\<not> is_digit (CHR ''E'')" "\<not> is_digit (CHR ''-'')" "\<not> is_digit (CHR ''+'')"
  "\<not> is_digit (CHR '','')" "\<not> is_digit (CHR '']'')" "\<not> is_digit (CHR ''}'')"
  by (simp_all add: is_digit_iff byte_def)

lemma scan_digits_append: "\<forall>c\<in>set ds. is_digit c \<Longrightarrow> (t = [] \<or> \<not> is_digit (hd t)) \<Longrightarrow> scan_digits (ds @ t) = (ds, t)"
  by (cases t) (simp_all add: scan_digits_def takeWhile_append2 dropWhile_append2)

lemma ends_value_cases:
  assumes "ends_value t"
  obtains "t = []" | t' where "t = CHR '','' # t'" | t' where "t = CHR '']'' # t'" | t' where "t = CHR ''}'' # t'"
  using assms by (cases t) (auto simp: ends_value_def)

lemma scan_tail:
  assumes "ends_value t"
  shows "scan_fraction t = ([], t)" "scan_exponent t = ([], t)" "t = [] \<or> \<not> is_digit (hd t)"
  using assms by (cases rule: ends_value_cases; simp add: scan_fraction_def scan_exponent_def peek_def not_digits)+

lemma digits_head:
  assumes "digits ds"
  obtains c cs where "ds = c # cs" "is_digit c" "c \<noteq> CHR ''-''" "c \<noteq> CHR ''+''" "c \<noteq> CHR ''.''" "c \<noteq> CHR ''e''" "c \<noteq> CHR ''E''"
proof -
  obtain c cs where c: "ds = c # cs" "is_digit c" using assms by (cases ds) (auto simp: digits_def)
  show thesis by (rule that [OF c]) (use c(2) not_digits in auto)
qed

text \<open>The scanner takes a sign, digits, a fraction and an exponent, and stops at the end of a value.\<close>

lemma scan_number:
  assumes "sg \<in> {[], ''-''}" "digits ds" "frac = [] \<or> (\<exists>fs. digits fs \<and> frac = CHR ''.'' # fs)"
    "ex = [] \<or> (\<exists>es sgn. digits es \<and> sgn \<in> {[], ''-''} \<and> ex = CHR ''e'' # sgn @ es)" "ends_value t"
  shows "scan_sign (sg @ ds @ frac @ ex @ t) = (sg, ds @ frac @ ex @ t)"
    "scan_digits (ds @ frac @ ex @ t) = (ds, frac @ ex @ t)"
    "scan_fraction (frac @ ex @ t) = (frac, ex @ t)" "scan_exponent (ex @ t) = (ex, t)"
proof -
  note tl = scan_tail [OF assms(5)]
  have ext: "ex @ t = [] \<or> \<not> is_digit (hd (ex @ t))" "scan_fraction (ex @ t) = ([], ex @ t) \<or> ex @ t = t"
    using assms(4) tl(3) by (auto simp: not_digits scan_fraction_def peek_def)
  obtain c cs where c: "ds = c # cs" "c \<noteq> CHR ''-''" using assms(2) by (rule digits_head)
  show "scan_sign (sg @ ds @ frac @ ex @ t) = (sg, ds @ frac @ ex @ t)"
    using assms(1) c by (auto simp: scan_sign_def peek_def)
  show "scan_digits (ds @ frac @ ex @ t) = (ds, frac @ ex @ t)"
    using assms(2,3) ext(1) by (intro scan_digits_append) (auto simp: digits_def not_digits)
  show "scan_fraction (frac @ ex @ t) = (frac, ex @ t)"
    using assms(3) ext(2) tl(1) scan_digits_append [OF _ ext(1)]
    by (auto simp: scan_fraction_def peek_def digits_def)
  show "scan_exponent (ex @ t) = (ex, t)" using assms(4)
  proof
    assume "\<exists>es sgn. digits es \<and> sgn \<in> {[], ''-''} \<and> ex = CHR ''e'' # sgn @ es"
    then obtain es sgn where e: "digits es" "sgn \<in> {[], ''-''}" "ex = CHR ''e'' # sgn @ es" by blast
    have d: "scan_digits (es @ t) = (es, t)" using e(1) tl(3) by (intro scan_digits_append) (auto simp: digits_def)
    obtain c cs where c: "es = c # cs" "c \<noteq> CHR ''-''" "c \<noteq> CHR ''+''" using e(1) by (rule digits_head)
    show ?thesis using e(2,3) d c by (auto simp: scan_exponent_def peek_def)
  qed (simp add: tl(2))
qed

lemma digits_show_nat: "digits (show_nat n)"
  using show_nat_digits by (auto simp: digits_def)

lemma show_int_shape: "\<exists>sg ds. show_int n = sg @ ds \<and> sg \<in> {[], ''-''} \<and> digits ds \<and> ds = show_nat (nat \<bar>n\<bar>) \<and> (sg = [] \<longleftrightarrow> 0 \<le> n)"
  using digits_show_nat by (auto simp: show_int_def)

lemma parse_i64_show:
  assumes "in_i64 n"
  shows "parse_i64 (show_int n) = Some n"
proof -
  obtain c cs where c: "show_nat (nat \<bar>n\<bar>) = c # cs" "c \<noteq> CHR ''-''" "c \<noteq> CHR ''+''"
    using digits_show_nat by (rule digits_head)
  have d: "digits_int (- 1) (show_nat (nat (- n))) = Some n" if "n < 0"
    using assms that by (simp add: digits_int_def digits_val_show_nat)
  have e: "digits_int 1 (show_nat (nat n)) = Some n" if "\<not> n < 0"
    using assms that by (simp add: digits_int_def digits_val_show_nat)
  show ?thesis
  proof (cases "n < 0")
    case True
    then show ?thesis using d by (simp add: parse_i64_def show_int_def)
  next
    case False
    then have "show_int n = c # cs" using c(1) by (simp add: show_int_def)
    then show ?thesis using c e False by (simp add: parse_i64_def)
  qed
qed

lemma json_number_int: "in_i64 n \<Longrightarrow> ends_value t \<Longrightarrow> json_number F (show_int n @ t) = Some (IntV n, t)"
proof -
  assume n: "in_i64 n" and t: "ends_value t"
  obtain sg ds where s: "show_int n = sg @ ds" "sg \<in> {[], ''-''}" "digits ds" using show_int_shape by blast
  obtain c cs where "ds = c # cs" "c \<noteq> CHR ''-''" using s(3) by (rule digits_head)
  then have "sg @ ds \<noteq> []" "sg @ ds \<noteq> ''-''" using s(2) by auto
  then show ?thesis
    using scan_number [OF s(2,3), of "[]" "[]" t] t parse_i64_show [OF n] s(1)
    by (simp add: json_number_def Let_def)
qed

lemma json_number_float:
  assumes "f64_round_trips F" "f64_is_finite F f" "ends_value t"
  shows "json_number F (f64_debug F f @ t) = Some (Float f, t)"
proof -
  have p: "f64_parse F (f64_debug F f) = Some f" and "float_text (f64_debug F f)"
    using assms(1,2) by (auto simp: f64_round_trips_def)
  then obtain sg ds frac ex where s: "f64_debug F f = sg @ ds @ frac @ ex" "sg \<in> {[], ''-''}" "digits ds"
    "frac = [] \<or> (\<exists>fs. digits fs \<and> frac = CHR ''.'' # fs)"
    "ex = [] \<or> (\<exists>es sgn. digits es \<and> sgn \<in> {[], ''-''} \<and> ex = CHR ''e'' # sgn @ es)" "frac \<noteq> [] \<or> ex \<noteq> []"
    unfolding float_text_def by blast
  have "sg @ ds @ frac @ ex \<noteq> []" "sg @ ds @ frac @ ex \<noteq> ''-''"
    using s(2,3,6) by (auto simp: digits_def append_eq_Cons_conv)
  then show ?thesis using scan_number [OF s(2-5) assms(3)] s(1,6) p by (simp add: json_number_def Let_def)
qed

section \<open>Values\<close>

text \<open>A value as the Rust type has it: \<open>i64\<close> numbers, UTF-8 strings, sorted keys; floats finite.\<close>

fun wf_value :: "'f f64_ops \<Rightarrow> 'f Value \<Rightarrow> bool" where
  "wf_value F (IntV n) = in_i64 n"
| "wf_value F (Float f) = f64_is_finite F f"
| "wf_value F (Str s) = valid_utf8 s"
| "wf_value F (Arr items) = (\<forall>v\<in>set items. wf_value F v)"
| "wf_value F (Obj m) = (sorted_wrt (<) (map fst m) \<and> (\<forall>p\<in>set m. valid_utf8 (fst p) \<and> wf_value F (snd p)))"
| "wf_value F _ = True"

fun nesting :: "'f Value \<Rightarrow> nat" where
  "nesting (Arr items) = foldr max (map (\<lambda>v. Suc (nesting v)) items) 0"
| "nesting (Obj m) = foldr max (map (\<lambda>p. Suc (nesting (snd p))) m) 0"
| "nesting _ = 0"

lemma foldr_max_le: "d + foldr max (map f xs) 0 \<le> (n::nat) \<longleftrightarrow> d \<le> n \<and> (\<forall>x\<in>set xs. d + f x \<le> n)"
  by (induction xs) auto

lemma btree_insert_last: "\<forall>k'\<in>set (map fst m). k' < k \<Longrightarrow> btree_insert k v m = m @ [(k, v)]"
  by (induction k v m rule: btree_insert.induct) auto

text \<open>The first byte of a rendered value.\<close>

definition starts_value :: "string \<Rightarrow> bool" where
  "starts_value s \<longleftrightarrow> s \<noteq> [] \<and> \<not> is_ascii_whitespace (hd s) \<and> hd s \<noteq> CHR '']'' \<and> hd s \<noteq> CHR ''}''"

lemma starts_digits: "sg \<in> {[], ''-''} \<Longrightarrow> digits ds \<Longrightarrow> starts_value (sg @ ds @ t)"
  by (auto simp: starts_value_def digits_def is_ascii_whitespace_def is_digit_iff byte_def neq_Nil_conv)

lemma starts_render:
  assumes "f64_round_trips F" "wf_value F v"
  shows "starts_value (write_value F v)"
proof (cases v)
  case (IntV n)
  obtain sg ds where "show_int n = sg @ ds" "sg \<in> {[], ''-''}" "digits ds" using show_int_shape by blast
  then show ?thesis using starts_digits [of sg ds "[]"] IntV by simp
next
  case (Float f)
  then have "float_text (f64_debug F f)" using assms by (simp add: f64_round_trips_def)
  then obtain sg ds t where "f64_debug F f = sg @ ds @ t" "sg \<in> {[], ''-''}" "digits ds" by (auto simp: float_text_def)
  then show ?thesis using starts_digits [of sg ds t] Float assms(2) by simp
next
  case (Bool b)
  then show ?thesis by (cases b) (simp_all add: starts_value_def is_ascii_whitespace_def byte_def)
qed (simp_all add: starts_value_def is_ascii_whitespace_def byte_def write_string_def dquote_def)

lemma skip_starts: "starts_value s \<Longrightarrow> skip_ws (s @ t) = s @ t" "starts_value s \<Longrightarrow> skip_ws s = s"
  by (cases s; simp add: starts_value_def skip_ws_def)+

lemma skip_punct [simp]: "skip_ws (CHR '','' # t) = CHR '','' # t" "skip_ws (CHR '']'' # t) = CHR '']'' # t"
  "skip_ws (CHR ''}'' # t) = CHR ''}'' # t" "skip_ws (CHR '':'' # t) = CHR '':'' # t" "skip_ws (dquote # t) = dquote # t" "skip_ws [] = []"
  by (simp_all add: skip_ws_def is_ascii_whitespace_def byte_def dquote_def)

lemma valid_utf8_Cons_ascii [simp]: "byte c < 128 \<Longrightarrow> valid_utf8 (c # s) \<longleftrightarrow> valid_utf8 s"
  by (simp add: valid_utf8_Cons ascii_step)

lemma ascii_punct [simp]: "byte (CHR '','') < 128" "byte (CHR '']'') < 128" "byte (CHR ''}'') < 128" "byte (CHR '':'') < 128"
  "byte (CHR ''['') < 128" "byte (CHR ''{'') < 128"
  by (simp_all add: byte_def)

lemma valid_write_string: "valid_utf8 s \<Longrightarrow> valid_utf8 (write_string s)"
  by (simp add: write_string_def valid_utf8_append valid_utf8_escape)

lemma valid_commas: "\<forall>s\<in>set ss. valid_utf8 s \<Longrightarrow> valid_utf8 (commas ss)"
  by (induction ss rule: commas.induct) (simp_all add: valid_utf8_append)

lemma digits_ascii: "digits ds \<Longrightarrow> \<forall>c\<in>set ds. byte c < 128"
  by (auto simp: digits_def is_digit_iff)

lemma valid_render: "f64_round_trips F \<Longrightarrow> wf_value F v \<Longrightarrow> valid_utf8 (write_value F v)"
proof (induction F v rule: write_value.induct)
  case (4 F n)
  obtain sg ds where "show_int n = sg @ ds" "sg \<in> {[], ''-''}" "digits ds" using show_int_shape by blast
  then show ?case using digits_ascii [of ds] by (auto simp: byte_def intro!: valid_utf8_ascii)
next
  case (5 F f)
  then have "float_text (f64_debug F f)" "f64_is_finite F f" by (simp_all add: f64_round_trips_def)
  then show ?case using digits_ascii unfolding float_text_def by (auto simp: byte_def intro!: valid_utf8_ascii)
next
  case (7 F items)
  then show ?case by (auto intro!: valid_utf8_append valid_commas)
next
  case (8 F m)
  then show ?case by (auto intro!: valid_utf8_append valid_commas valid_write_string)
qed (auto simp: valid_write_string byte_def intro!: valid_utf8_ascii)

lemma peek_Cons [simp]: "peek (c # cs) = Some c" "peek [] = None"
  by (simp_all add: peek_def)

lemma json_value_Cons:
  "json_value F d (c # cs) = (if MAX_DEPTH < d then None else if c = CHR ''{'' then json_object F d cs
     else if c = CHR ''['' then json_array F d cs else json_scalar F (c # cs))"
  by (simp only: json_value.simps peek_Cons option.case json_scalar_def list.sel)

lemma json_scalar_number: "c = CHR ''-'' \<or> is_digit c \<Longrightarrow> json_scalar F (c # cs) = json_number F (c # cs)"
  by (auto simp: json_scalar_def dquote_def is_digit_def digit_val_def)

lemma json_value_number:
  assumes "sg \<in> {[], ''-''}" "digits ds" "d \<le> MAX_DEPTH"
  shows "json_value F d ((sg @ ds) @ t) = json_number F ((sg @ ds) @ t)"
proof -
  obtain c cs where c: "(sg @ ds) @ t = c # cs" "c = CHR ''-'' \<or> is_digit c" using assms(1,2)
    by (auto simp: digits_def neq_Nil_conv)
  then have "c \<noteq> CHR ''{''" "c \<noteq> CHR ''[''" by (auto simp: is_digit_iff byte_def)
  then show ?thesis using c assms(3) by (simp add: json_value_Cons json_scalar_number)
qed

text \<open>The loops, given that each item is read back.\<close>

definition reads_back :: "'f f64_ops \<Rightarrow> nat \<Rightarrow> 'f Value \<Rightarrow> bool" where
  "reads_back F d v \<longleftrightarrow> starts_value (write_value F v) \<and>
     (\<forall>t. ends_value t \<longrightarrow> valid_utf8 t \<longrightarrow> json_value F d (write_value F v @ t) = Some (v, t))"

lemma array_loop_roundtrip:
  assumes "items \<noteq> []" "\<forall>v\<in>set items. reads_back F (Suc d) v" "\<forall>v\<in>set items. valid_utf8 (write_value F v)" "valid_utf8 t"
  shows "array_loop F d acc (commas (map (write_value F) items) @ CHR '']'' # t) = Some (Arr (acc @ items), t)"
  using assms(1-3)
proof (induction items arbitrary: acc rule: induct_list012)
  case 1
  then show ?case by simp
next
  case (2 v)
  then have "json_value F (Suc d) (write_value F v @ CHR '']'' # t) = Some (v, CHR '']'' # t)" "starts_value (write_value F v)"
    using assms(4) by (simp_all add: reads_back_def ends_value_def)
  then show ?case by (simp add: array_loop.simps skip_starts)
next
  case (3 v w items)
  let ?r = "CHR '','' # commas (map (write_value F) (w # items)) @ CHR '']'' # t"
  have "valid_utf8 ?r" using 3(5) assms(4) by (auto intro!: valid_utf8_append valid_commas)
  then have "json_value F (Suc d) (write_value F v @ ?r) = Some (v, ?r)" "starts_value (write_value F v)"
    using 3(4) by (simp_all add: reads_back_def ends_value_def)
  moreover have "array_loop F d (acc @ [v]) (commas (map (write_value F) (w # items)) @ CHR '']'' # t) = Some (Arr ((acc @ [v]) @ w # items), t)"
    using 3(4,5) by (intro 3(2)) simp_all
  ultimately show ?case by (simp add: array_loop.simps [of F d acc] skip_starts)
qed

abbreviation write_pair :: "'f f64_ops \<Rightarrow> string \<times> 'f Value \<Rightarrow> string" where
  "write_pair F p \<equiv> write_string (fst p) @ CHR '':'' # write_value F (snd p)"

lemma object_loop_step:
  assumes "valid_utf8 k" "reads_back F (Suc d) v" "valid_utf8 (write_value F v)" "ends_value t" "valid_utf8 t" "\<forall>k'\<in>set (map fst acc). k' < k"
  shows "object_loop F d acc (write_pair F (k, v) @ t) =
    (if peek (skip_ws t) = Some (CHR '','') then object_loop F d (acc @ [(k, v)]) (tl (skip_ws t))
     else if peek (skip_ws t) = Some (CHR ''}'') then Some (Obj (acc @ [(k, v)]), tl (skip_ws t)) else None)"
proof -
  have j: "json_string (write_string k @ CHR '':'' # write_value F v @ t) = Some (k, CHR '':'' # write_value F v @ t)"
    using assms(1,3,5) by (intro json_string_roundtrip) (simp_all add: valid_utf8_append)
  have r: "json_value F (Suc d) (write_value F v @ t) = Some (v, t)" "starts_value (write_value F v)"
    using assms(2,4,5) by (simp_all add: reads_back_def)
  have k: "skip_ws (write_string k @ u) = write_string k @ u" "peek (write_string k @ u) = Some dquote" for u
    by (simp_all add: write_string_def)
  show ?thesis
    by (subst object_loop.simps) (simp add: j k r skip_starts btree_insert_last [OF assms(6)])
qed

lemma object_loop_roundtrip:
  assumes "m \<noteq> []" "\<forall>p\<in>set m. valid_utf8 (fst p) \<and> reads_back F (Suc d) (snd p) \<and> valid_utf8 (write_value F (snd p))"
    "sorted_wrt (<) (map fst (acc @ m))" "valid_utf8 t"
  shows "object_loop F d acc (commas (map (write_pair F) m) @ CHR ''}'' # t) = Some (Obj (acc @ m), t)"
  using assms(1-3)
proof (induction m arbitrary: acc rule: induct_list012)
  case 1
  then show ?case by simp
next
  case (2 p)
  then show ?case using object_loop_step [of "fst p" F d "snd p" "CHR ''}'' # t" acc] assms(4)
    by (simp add: ends_value_def sorted_wrt_append)
next
  case (3 p q m)
  let ?r = "CHR '','' # commas (map (write_pair F) (q # m)) @ CHR ''}'' # t"
  have "\<forall>s\<in>set (map (write_pair F) (q # m)). valid_utf8 s"
    using 3(4) by (fastforce intro: valid_utf8_append valid_write_string)
  then have "valid_utf8 ?r" using assms(4) valid_commas by (simp add: valid_utf8_append)
  moreover have "\<forall>k'\<in>set (map fst acc). k' < fst p" using 3(5) by (auto simp: sorted_wrt_append)
  ultimately have "object_loop F d acc (write_pair F (fst p, snd p) @ ?r) =
      object_loop F d (acc @ [(fst p, snd p)]) (commas (map (write_pair F) (q # m)) @ CHR ''}'' # t)"
    using object_loop_step [of "fst p" F d "snd p" ?r acc] 3(4) by (simp add: ends_value_def)
  also have "\<dots> = Some (Obj ((acc @ [p]) @ q # m), t)"
    using 3(4,5) 3(2) [of "acc @ [p]"] by simp
  finally show ?case by simp
qed

lemma render_reads_back:
  assumes "f64_round_trips F"
  shows "wf_value F v \<Longrightarrow> d + nesting v \<le> MAX_DEPTH \<Longrightarrow> reads_back F d v"
proof (induction v arbitrary: d)
  case (Bool b)
  then show ?case using starts_render [OF assms Bool(1)]
    by (cases b) (simp_all add: reads_back_def json_value_Cons json_scalar_def dquote_def lit_def strip_prefix_def)
next
  case (IntV n)
  obtain sg ds where "show_int n = sg @ ds" "sg \<in> {[], ''-''}" "digits ds" using show_int_shape by blast
  then have "json_value F d (show_int n @ t) = json_number F (show_int n @ t)" for t
    using json_value_number [of sg ds d F t] IntV(2) by simp
  then show ?case using starts_render [OF assms IntV(1)] IntV(1) by (simp add: reads_back_def json_number_int)
next
  case (Float f)
  then have "float_text (f64_debug F f)" using assms by (simp add: f64_round_trips_def)
  then obtain sg ds u where "f64_debug F f = sg @ ds @ u" "sg \<in> {[], ''-''}" "digits ds" by (auto simp: float_text_def)
  then have "json_value F d (f64_debug F f @ t) = json_number F (f64_debug F f @ t)" for t
    using json_value_number [of sg ds d F "u @ t"] Float(2) by simp
  then show ?case using starts_render [OF assms Float(1)] Float(1) assms by (simp add: reads_back_def json_number_float)
next
  case (Str s)
  have "json_scalar F (write_string s @ t) = Some (Str s, t)" if "valid_utf8 t" for t
    using json_string_roundtrip [of s t] Str(1) that by (simp add: json_scalar_def write_string_def)
  then show ?case using starts_render [OF assms Str(1)] Str(2)
    by (simp add: reads_back_def write_string_def json_value_Cons) (simp add: dquote_def)
next
  case (Arr items)
  have l: "array_loop F d [] (commas (map (write_value F) items) @ CHR '']'' # t) = Some (Arr items, t)"
    if "items \<noteq> []" "valid_utf8 t" for t
    using array_loop_roundtrip [of items F d t "[]"] that Arr valid_render [OF assms] by (auto simp: foldr_max_le)
  have "json_array F d (commas (map (write_value F) items) @ CHR '']'' # t) = Some (Arr items, t)" if "valid_utf8 t" for t
  proof (cases items)
    case (Cons v vs)
    then have st: "starts_value (write_value F v)" using starts_render [OF assms] Arr(2) by simp
    then obtain u where u: "commas (map (write_value F) items) = write_value F v @ u" using Cons by (cases vs) auto
    obtain c cs where c: "write_value F v = c # cs" "c \<noteq> CHR '']''" using st by (cases "write_value F v") (auto simp: starts_value_def)
    have "skip_ws (c # cs @ u @ CHR '']'' # t) = c # cs @ u @ CHR '']'' # t"
      using skip_starts(1) [OF st, of "u @ CHR '']'' # t"] c(1) by simp
    then show ?thesis using l [OF _ that] Cons u c by (simp add: json_array.simps)
  qed (simp add: json_array.simps)
  then show ?case using starts_render [OF assms Arr(2)] Arr(3) by (simp add: reads_back_def json_value_Cons)
next
  case (Obj m)
  have wf: "\<forall>p\<in>set m. valid_utf8 (fst p) \<and> reads_back F (Suc d) (snd p) \<and> valid_utf8 (write_value F (snd p))"
    using Obj valid_render [OF assms] by (fastforce simp: foldr_max_le snds.simps)
  have l: "object_loop F d [] (commas (map (write_pair F) m) @ CHR ''}'' # t) = Some (Obj m, t)"
    if "m \<noteq> []" "valid_utf8 t" for t
    using object_loop_roundtrip [OF that(1) wf, of "[]" t] that Obj(2) by simp
  have "json_object F d (commas (map (write_pair F) m) @ CHR ''}'' # t) = Some (Obj m, t)" if "valid_utf8 t" for t
  proof (cases m)
    case (Cons p ps)
    then obtain u where u: "commas (map (write_pair F) m) = dquote # u" by (cases ps) (auto simp: write_string_def)
    then show ?thesis using l [OF _ that] Cons by (simp add: json_object.simps) (simp add: dquote_def)
  qed (simp add: json_object.simps)
  then show ?case using starts_render [OF assms Obj(2)] Obj(3) by (simp add: reads_back_def json_value_Cons)
qed (simp_all add: reads_back_def json_value_Cons json_scalar_def dquote_def lit_def strip_prefix_def starts_value_def is_ascii_whitespace_def byte_def)

lemma parse_render:
  assumes "f64_round_trips F" "wf_value F v" "nesting v \<le> MAX_DEPTH"
  shows "parse F (render F v) = Some v"
proof -
  have "reads_back F 0 v" using render_reads_back [OF assms(1,2), of 0] assms(3) by simp
  then have "json_value F 0 (write_value F v @ []) = Some (v, [])" "starts_value (write_value F v)"
    unfolding reads_back_def by (auto simp: ends_value_def simp del: append_Nil2)
  then show ?thesis by (simp add: parse_def render_def skip_starts)
qed

text \<open>
  C24. Rendering and parsing a JSON value gives the value back, for every value of the Rust type
  (numbers in \<open>i64\<close>, UTF-8 strings with any characters, sorted keys, finite floats, with Rust's
  documented round trip of \<open>f64\<close>) nested at most \<open>MAX_DEPTH\<close> deep: the registry file reads back as
  it was written.
\<close>

theorem json_roundtrip:
  assumes "f64_round_trips F" "wf_value F v" "nesting v \<le> MAX_DEPTH"
  shows "parse F (render F v) = Some v"
  using assms by (rule parse_render)

text \<open>A number format with which the hypothesis holds: whole numbers written with one decimal.\<close>

definition whole_f64 :: "int f64_ops" where
  "whole_f64 = \<lparr>f64_parse = (\<lambda>s. parse_i64 (takeWhile (\<lambda>c. c \<noteq> CHR ''.'') s)), f64_debug = (\<lambda>i. show_int i @ ''.0''),
     f64_is_finite = in_i64\<rparr>"

lemma whole_f64_round_trips: "f64_round_trips whole_f64"
  unfolding f64_round_trips_def
proof (intro allI impI)
  fix f assume "f64_is_finite whole_f64 f"
  then have f: "in_i64 f" by (simp add: whole_f64_def)
  obtain sg ds where s: "show_int f = sg @ ds" "sg \<in> {[], ''-''}" "digits ds" using show_int_shape by blast
  have "float_text (sg @ ds @ ''.0'' @ [])"
    unfolding float_text_def using s(2,3)
    by (intro exI [of _ sg] exI [of _ ds] exI [of _ "''.0''"] exI [of _ "[]"]) (auto simp: digits_def is_digit_iff byte_def)
  moreover have "\<forall>c\<in>set (show_int f). c \<noteq> CHR ''.''" using s by (auto simp: digits_def not_digits)
  then have "takeWhile (\<lambda>c. c \<noteq> CHR ''.'') (show_int f @ ''.0'') = show_int f" by (simp add: takeWhile_append2)
  ultimately show "float_text (f64_debug whole_f64 f) \<and> f64_parse whole_f64 (f64_debug whole_f64 f) = Some f"
    using s(1) parse_i64_show [OF f] by (simp add: whole_f64_def)
qed

theorem json_roundtrip_witness:
  "parse whole_f64 (render whole_f64 (Obj [(''a'', Arr [IntV (- 7), Float 2, Null]), (''b'', Str [dquote, newline])])) =
     Some (Obj [(''a'', Arr [IntV (- 7), Float 2, Null]), (''b'', Str [dquote, newline])])"
proof (rule json_roundtrip [OF whole_f64_round_trips])
  have v: "valid_utf8 ''a''" "valid_utf8 ''b''"
    by (simp_all add: valid_utf8_ascii byte_def)
  have w: "valid_utf8 [dquote, newline]" by (rule valid_utf8_ascii) simp
  have "''a'' < ''b''" by (simp add: less_char_def)
  then show "wf_value whole_f64 (Obj [(''a'', Arr [IntV (- 7), Float 2, Null]), (''b'', Str [dquote, newline])])"
    using v w by (simp add: whole_f64_def in_i64_def width_defs)
  show "nesting (Obj [(''a'', Arr [IntV (- 7), Float (2 :: int), Null]), (''b'', Str [dquote, newline])]) \<le> MAX_DEPTH"
    by (simp add: MAX_DEPTH_def)
qed

section \<open>What the parser accepts\<close>

text \<open>The value type without the restriction to finite floats (a literal may overflow).\<close>

abbreviation typed :: "'f f64_ops \<Rightarrow> 'f Value \<Rightarrow> bool" where
  "typed F \<equiv> wf_value (F\<lparr>f64_is_finite := (\<lambda>_. True)\<rparr>)"

lemma hex_value_less: "hex_value c = Some d \<Longrightarrow> d < 16"
  by (auto simp: hex_value_def Let_def split: if_splits)

lemma hex_digits_less: "hex_digits acc s = Some n \<Longrightarrow> n < (acc + 1) * 16 ^ length s"
proof (induction acc s rule: hex_digits.induct)
  case (2 acc c cs)
  then obtain d where d: "hex_value c = Some d" "hex_digits (acc * 16 + d) cs = Some n" by (auto split: option.splits)
  have "n < (acc * 16 + d + 1) * 16 ^ length cs" using 2(1) [OF d] .
  also have "\<dots> \<le> ((acc + 1) * 16) * 16 ^ length cs" using hex_value_less [OF d(1)] by (intro mult_le_mono1) simp
  finally show ?case by (simp add: algebra_simps)
qed simp

lemma hex4_less: "hex4 rest = Some (n, rest') \<Longrightarrow> n < 65536"
proof -
  assume "hex4 rest = Some (n, rest')"
  then have l: "length (take 4 rest) = 4" "from_str_radix16 (take 4 rest) = Some n"
    by (auto simp: hex4_def split: if_splits option.splits)
  obtain c cs where c: "take 4 rest = c # cs" "length cs = 3" using l(1) by (cases "take 4 rest") auto
  show ?thesis
  proof (cases "c = CHR ''+''")
    case True
    then have "hex_digits 0 cs = Some n" using l(2) c by (auto simp: from_str_radix16_def split: if_splits)
    from hex_digits_less [OF this] c(2) show ?thesis by simp
  next
    case False
    then have "hex_digits 0 (c # cs) = Some n" using l(2) c by (simp add: from_str_radix16_def)
    from hex_digits_less [OF this] c(2) show ?thesis by simp
  qed
qed

lemma valid_encode:
  assumes "n < 65536" "char_from_u32 n = Some ch"
  shows "valid_utf8 ch"
proof -
  have s: "\<not> (55296 \<le> n \<and> n \<le> 57343)" "ch = utf8_encode n" using assms(2) by (auto simp: char_from_u32_def split: if_splits)
  have b: "m < 256 \<Longrightarrow> byte (char_of m) = m" for m :: nat by (simp add: byte_def)
  consider "n < 128" | "128 \<le> n" "n < 2048" | "2048 \<le> n" by linarith
  then show ?thesis
  proof cases
    case 1
    then show ?thesis using s(2) b [of n] by (simp add: utf8_encode_def)
  next
    case 2
    have m: "n div 64 < 32" "2 \<le> n div 64" "n mod 64 < 64" using 2 by auto
    then show ?thesis using s(2) 2 b [of "192 + n div 64"] b [of "128 + n mod 64"]
      by (auto simp: utf8_encode_def valid_utf8_Cons utf8_step.simps(2) Let_def seq_width_def cont_def)
  next
    case 3
    let ?a = "n div 4096" and ?b = "n div 64 mod 64" and ?c = "n mod 64"
    have m: "?a < 16" "?b < 64" "?c < 64" using assms(1) by auto
    have "n div 64 div 64 = ?a" by (simp add: div_mult2_eq [symmetric])
    then have d: "n = 4096 * ?a + 64 * ?b + ?c"
      using div_mult_mod_eq [of n 64] div_mult_mod_eq [of "n div 64" 64] by linarith
    have "32 \<le> ?b" if "?a = 0" using d that m 3 by linarith
    moreover have "?b < 32" if "?a = 13" using d that m s(1) by linarith
    ultimately have "second_ok (224 + ?a) (128 + ?b)" using m by (auto simp: second_ok_def cont_def)
    then show ?thesis using s(2) 3 m b [of "224 + ?a"] b [of "128 + ?b"] b [of "128 + ?c"]
      by (auto simp: utf8_encode_def valid_utf8_Cons utf8_step.simps(2) Let_def seq_width_def cont_def)
  qed
qed

lemma unescape_ascii: "unescape e = Some ch \<Longrightarrow> byte ch < 128"
  by (auto simp: unescape_def byte_def dquote_def backslash_def newline_def carriage_def split: if_splits)

lemma string_loop_valid: "string_loop out rest = Some (s, rest') \<Longrightarrow> valid_utf8 out \<Longrightarrow> valid_utf8 s"
proof (induction out rest rule: string_loop.induct)
  case (2 out c cs)
  note prem = 2(4) [unfolded string_loop.simps(2)]
  consider "c = dquote" | "c \<noteq> dquote" "c = backslash" | "c \<noteq> dquote" "c \<noteq> backslash" by blast
  then show ?case
  proof cases
    case 1
    then show ?thesis using prem 2(5) by simp
  next
    case b: 2
    then obtain e es where e: "cs = e # es" using prem by (cases cs) auto
    show ?thesis
    proof (cases "e = CHR ''u''")
      case True
      then obtain code r ch where h: "hex4 es = Some (code, r)" "char_from_u32 code = Some ch" "string_loop (out @ ch) r = Some (s, rest')"
        using prem b e by (auto split: option.splits)
      show ?thesis
        using 2(1) [OF b e True h(1) refl h(2,3)] valid_utf8_append [OF 2(5) valid_encode [OF hex4_less [OF h(1)] h(2)]] by simp
    next
      case False
      then obtain ch where h: "unescape e = Some ch" "string_loop (out @ [ch]) es = Some (s, rest')"
        using prem b e by (auto split: option.splits)
      have "valid_utf8 (out @ [ch])" using 2(5) unescape_ascii [OF h(1)] by (simp add: valid_utf8_append)
      then show ?thesis using 2(2) [OF b e False h] by simp
    qed
  next
    case 3
    then have v: "\<not> byte c < 32" "valid_utf8 (c # cs)"
      "string_loop (out @ take (snd (utf8_step (c # cs))) (c # cs)) (drop (snd (utf8_step (c # cs))) (c # cs)) = Some (s, rest')"
      using prem by (auto split: if_splits)
    obtain n where n: "utf8_step (c # cs) = (True, n)" using v(2) by (auto simp: valid_utf8_Cons)
    have "utf8_step (take n (c # cs) @ []) = (True, n)" "n \<le> length (c # cs)" "0 < n" using utf8_step_take [OF n] by blast+
    then have "valid_utf8 (take n (c # cs))" by (cases n) (auto simp: valid_utf8_Cons)
    then show ?thesis using 2(3) [OF 3 v(1) _ v(3)] 2(5) n v(2) by (simp add: valid_utf8_append)
  qed
qed simp

lemma btree_insert_set: "set (btree_insert k v m) \<subseteq> insert (k, v) (set m)"
  by (induction k v m rule: btree_insert.induct) auto

lemma btree_insert_keys: "set (map fst (btree_insert k v m)) = insert k (set (map fst m))"
  by (induction k v m rule: btree_insert.induct) auto

lemma btree_insert_sorted: "sorted_wrt (<) (map fst m) \<Longrightarrow> sorted_wrt (<) (map fst (btree_insert k v m))"
proof (induction k v m rule: btree_insert.induct)
  case (2 k v k' v' m)
  then show ?case using btree_insert_keys [of k v m] by (auto dest: less_trans simp del: set_map)
qed simp

lemma btree_insert_lookup: "sorted_wrt (<) (map fst m) \<Longrightarrow> map_of (btree_insert k v m) = (map_of m)(k \<mapsto> v)"
  by (induction k v m rule: btree_insert.induct) (auto simp: fun_eq_iff)

lemma btree_insert_typed:
  assumes "wf_value F (Obj m)" "valid_utf8 k" "wf_value F v"
  shows "wf_value F (Obj (btree_insert k v m))"
proof -
  have "\<forall>p\<in>set (btree_insert k v m). valid_utf8 (fst p) \<and> wf_value F (snd p)"
    using assms btree_insert_set [of k v m] by fastforce
  then show ?thesis using assms(1) btree_insert_sorted [of m k v] by simp
qed

lemma nesting_insert:
  assumes "d + nesting (Obj m) \<le> n" "Suc d + nesting v \<le> n"
  shows "d + nesting (Obj (btree_insert k v m)) \<le> n"
  using assms btree_insert_set [of k v m] by (fastforce simp: foldr_max_le)

lemma json_number_typed: "json_number F rest = Some (v, rest') \<Longrightarrow> typed F v \<and> nesting v = 0"
proof -
  assume "json_number F rest = Some (v, rest')"
  then have "(\<exists>f. v = Float f) \<or> (\<exists>n t. v = IntV n \<and> parse_i64 t = Some n)"
    by (auto simp: json_number_def Let_def case_prod_beta split: if_splits option.splits)
  moreover have "in_i64 n" if "parse_i64 t = Some n" for n t
    using that by (auto simp: parse_i64_def digits_int_def split: list.splits if_splits option.splits)
  ultimately show ?thesis by auto
qed

lemma json_scalar_typed:
  assumes "json_scalar F rest = Some (v, rest')"
  shows "typed F v \<and> nesting v = 0"
  using assms
proof (cases rule: json_scalar_cases)
  case (1 s)
  then have "valid_utf8 s" using string_loop_valid [of "[]" "tl rest" s rest'] by (simp add: json_string_def)
  then show ?thesis using 1 by simp
next
  case (2 w)
  then show ?thesis by auto
next
  case 3
  then show ?thesis by (rule json_number_typed)
qed

lemma json_value_Nil: "json_value F d [] = None"
  by (simp only: json_value.simps [of F d "[]"] peek_Cons option.case if_cancel)

lemma json_value_accepts:
  fixes F :: "'f f64_ops"
  shows "json_value F d rest = Some (v, r) \<Longrightarrow> typed F v \<and> d + nesting v \<le> MAX_DEPTH"
  and "json_object F d rest = Some (v, r) \<Longrightarrow> d \<le> MAX_DEPTH \<Longrightarrow> typed F v \<and> d + nesting v \<le> MAX_DEPTH"
  and "object_loop F d m rest = Some (v, r) \<Longrightarrow> typed F (Obj m) \<Longrightarrow> d + nesting (Obj m) \<le> MAX_DEPTH \<Longrightarrow>
     typed F v \<and> d + nesting v \<le> MAX_DEPTH"
  and "json_array F d rest = Some (v, r) \<Longrightarrow> d \<le> MAX_DEPTH \<Longrightarrow> typed F v \<and> d + nesting v \<le> MAX_DEPTH"
  and "array_loop F d items rest = Some (v, r) \<Longrightarrow> typed F (Arr items) \<Longrightarrow> d + nesting (Arr items) \<le> MAX_DEPTH \<Longrightarrow>
     typed F v \<and> d + nesting v \<le> MAX_DEPTH"
proof (induction F d rest and F d rest and F d m rest and F d rest and F d items rest arbitrary: v r and v r and v r and v r and v r
    rule: json_value_json_object_object_loop_json_array_array_loop.induct)
  case (1 F d rest)
  obtain c cs where c: "rest = c # cs" using 1(3) json_value_Nil [of F d] by (cases rest) auto
  note p = 1(3) [unfolded c json_value_Cons]
  have d: "\<not> MAX_DEPTH < d" using p by (auto split: if_splits)
  show ?case
  proof (cases "c = CHR ''{''")
    case True
    then have "json_object F d (tl rest) = Some (v, r)" using p d c by simp
    then show ?thesis using 1(1) [OF d _ True, of v r] c d by simp
  next
    case o: False
    show ?thesis
    proof (cases "c = CHR ''[''")
      case True
      then have "json_array F d (tl rest) = Some (v, r)" using p d c o by simp
      then show ?thesis using 1(2) [OF d _ o True, of v r] c d by simp
    next
      case False
      then have "json_scalar F rest = Some (v, r)" using p d c o by simp
      then show ?thesis using json_scalar_typed d by fastforce
    qed
  qed
next
  case (2 F d rest)
  show ?case
  proof (cases "peek (skip_ws rest) = Some (CHR ''}'')")
    case True
    then show ?thesis using 2(2,3) by (auto simp: json_object.simps)
  next
    case False
    then show ?thesis using 2(1) [OF refl False, of v r] 2(2,3) by (simp add: json_object.simps)
  qed
next
  case (3 F d m rest)
  note step = 3(3) [unfolded object_loop.simps [of F d m rest] Let_def]
  obtain key r2 where o: "json_string (skip_ws rest) = Some (key, r2)" "peek (skip_ws rest) = Some dquote"
      "peek (skip_ws r2) = Some (CHR '':'')"
    using step by (auto split: if_splits option.splits)
  obtain u r4 where w: "json_value F (d + 1) (skip_ws (tl (skip_ws r2))) = Some (u, r4)"
    using step by (auto simp: o split: option.splits)
  have u: "typed F u" "Suc d + nesting u \<le> MAX_DEPTH" using 3(1) [OF refl _ o(1) refl refl, of u r4] o w by simp_all
  have "valid_utf8 key" using o(1) string_loop_valid [of "[]" _ key r2] by (simp add: json_string_def)
  then have n: "typed F (Obj (btree_insert key u m))" "d + nesting (Obj (btree_insert key u m)) \<le> MAX_DEPTH"
    using btree_insert_typed [OF 3(4), of key u] nesting_insert [OF 3(5) u(2)] u(1) by blast+
  show ?case
  proof (cases "peek (skip_ws r4) = Some (CHR '','')")
    case True
    then have "object_loop F d (btree_insert key u m) (tl (skip_ws r4)) = Some (v, r)"
      using step by (simp add: o w [simplified])
    then show ?thesis using 3(2) [OF refl _ o(1) refl refl _ w refl refl refl True _ n] o by simp
  next
    case False
    then have "v = Obj (btree_insert key u m)" using step by (auto simp: o w [simplified] split: if_splits)
    then show ?thesis using n by blast
  qed
next
  case (4 F d rest)
  show ?case
  proof (cases "peek (skip_ws rest) = Some (CHR '']'')")
    case True
    then show ?thesis using 4(2,3) by (auto simp: json_array.simps)
  next
    case False
    then show ?thesis using 4(1) [OF refl False, of v r] 4(2,3) by (simp add: json_array.simps)
  qed
next
  case (5 F d items rest)
  note step = 5(3) [unfolded array_loop.simps [of F d items rest] Let_def]
  obtain u r1 where o: "json_value F (d + 1) (skip_ws rest) = Some (u, r1)" using step by (auto split: option.splits)
  have u: "typed F u" "Suc d + nesting u \<le> MAX_DEPTH" using 5(1) [OF o] by simp_all
  have n: "typed F (Arr (items @ [u]))" "d + nesting (Arr (items @ [u])) \<le> MAX_DEPTH"
    using 5(4,5) u by (simp_all add: foldr_max_le del: foldr_append map_append)
  show ?case
  proof (cases "peek (skip_ws r1) = Some (CHR '','')")
    case True
    then have "array_loop F d (items @ [u]) (tl (skip_ws r1)) = Some (v, r)" using step by (simp add: o [simplified])
    then show ?thesis using 5(2) [OF o refl refl refl True _ n] by simp
  next
    case False
    then have "v = Arr (items @ [u])" using step by (auto simp: o [simplified] split: if_splits)
    then show ?thesis using n by blast
  qed
qed

text \<open>
  C25. What the parser accepts is a value of the Rust type, whatever the bytes: numbers are in
  \<open>i64\<close>, strings and keys are well-formed UTF-8, object keys are sorted and distinct, and nothing is
  nested deeper than \<open>MAX_DEPTH\<close>, which bounds the parser's stack.
\<close>

theorem json_parse_typed:
  assumes "parse F text = Some v"
  shows "typed F v \<and> nesting v \<le> MAX_DEPTH"
proof -
  obtain r where "json_value F 0 (skip_ws text) = Some (v, r)"
    using assms by (auto simp: parse_def split: option.splits if_splits)
  from json_value_accepts(1) [OF this] show ?thesis by simp
qed

theorem json_parse_typed_witness: "typed whole_f64 (Arr [IntV 1, Null])"
proof -
  have "parse whole_f64 ''[1, null]'' = Some (Arr [IntV 1, Null])" by code_simp
  from json_parse_typed [OF this] show ?thesis by simp
qed

end
