(* ===== verification/Http.thy ===== *)
theory Http
  imports Json_Props World "HOL-Library.Word"
begin

unbundle bit_operations_syntax

text \<open>
  The HTTP surface of calcar-connect: auth.rs and the free functions of server.rs that read a
  request (path, query, headers, body) and build a response.

  \<open>tiny_http\<close> parses the wire format. A request is what the source asks it for: the method, the
  URL, the header fields in order, and what each \<open>read\<close> of the body returns. Its comparison of
  header names (\<open>HeaderField::equiv\<close>) is a parameter, as are the other things that depend on
  libraries outside the repository or on the platform: \<open>f64\<close>, \<open>Path::parent\<close> and \<open>Path::join\<close>, the
  texts of \<open>rusqlite\<close> and of a failed \<open>create_dir_all\<close> of the database's directory (\<open>None\<close> when the
  configured path has no directory part). The record \<open>libs\<close> collects them.
\<close>

section \<open>Requests and responses\<close>

datatype Method = Get | Post | OtherMethod string

datatype read_result = ReadOk string | ReadErr

record Request =
  rq_method :: Method
  rq_url :: string
  rq_headers :: "(string \<times> string) list"
  rq_reads :: "read_result list"

record BodyResponse =
  rs_status :: nat
  rs_body :: string
  rs_json :: bool

record 'f libs =
  lib_f64 :: "'f f64_ops"
  lib_equiv :: "string \<Rightarrow> string \<Rightarrow> bool"
  lib_parent :: "string \<Rightarrow> string option"
  lib_join :: "string \<Rightarrow> string \<Rightarrow> string"
  lib_sqlite_text :: "sql_error \<Rightarrow> string"
  lib_dir_error :: "string option"

section \<open>The bearer token\<close>

definition u8 :: "char \<Rightarrow> 8 word" where
  "u8 c = of_nat (byte c)"

definition constant_eq :: "string \<Rightarrow> string \<Rightarrow> bool" where
  "constant_eq left right =
     (if length left \<noteq> length right then False
      else fold (\<lambda>(a, b) diff. diff OR (u8 a XOR u8 b)) (zip left right) 0 = 0)"

fun bearer_header :: "'f libs \<Rightarrow> string \<Rightarrow> (string \<times> string) list \<Rightarrow> bool" where
  "bearer_header L token [] = False"
| "bearer_header L token ((field, value) # headers) =
     (if \<not> lib_equiv L field ''Authorization'' then bearer_header L token headers
      else case strip_prefix ''Bearer '' value of
        None \<Rightarrow> bearer_header L token headers
      | Some rest \<Rightarrow> constant_eq (trim rest) token)"

definition bearer_ok :: "'f libs \<Rightarrow> Request \<Rightarrow> string \<Rightarrow> bool" where
  "bearer_ok L request token = bearer_header L token (rq_headers request)"

section \<open>Paths and queries\<close>

definition split_path :: "string \<Rightarrow> string \<times> string" where
  "split_path url = (case split_once (CHR ''?'') url of Some (path, query) \<Rightarrow> (path, query) | None \<Rightarrow> (url, []))"

text \<open>\<open>str::split\<close> at a byte: one more part than there are separators.\<close>

fun split_on :: "char \<Rightarrow> string \<Rightarrow> string list" where
  "split_on c [] = [[]]"
| "split_on c (x # xs) = (if x = c then [] # split_on c xs
     else case split_on c xs of [] \<Rightarrow> [[x]] | part # parts \<Rightarrow> (x # part) # parts)"

definition hex_val :: "char \<Rightarrow> nat option" where
  "hex_val c = (let b = byte c in
     if 48 \<le> b \<and> b \<le> 57 then Some (b - 48)
     else if 97 \<le> b \<and> b \<le> 102 then Some (b - 97 + 10)
     else if 65 \<le> b \<and> b \<le> 70 then Some (b - 65 + 10) else None)"

text \<open>The loop of \<open>percent_decode\<close>: \<open>hi << 4 | lo\<close> on two nibbles.\<close>

fun percent_bytes :: "string \<Rightarrow> string" where
  "percent_bytes (c # hi # lo # cs) =
     (if c = CHR ''%'' then
        (case (hex_val hi, hex_val lo) of
           (Some h, Some l) \<Rightarrow> char_of (h * 16 + l) # percent_bytes cs
         | _ \<Rightarrow> c # percent_bytes (hi # lo # cs))
      else c # percent_bytes (hi # lo # cs))"
| "percent_bytes [c, d] = [c, d]"
| "percent_bytes [c] = [c]"
| "percent_bytes [] = []"

definition percent_decode :: "string \<Rightarrow> string" where
  "percent_decode part = utf8_lossy (percent_bytes part)"

definition path_segments :: "string \<Rightarrow> string list" where
  "path_segments path = map percent_decode (filter (\<lambda>part. part \<noteq> []) (split_on (CHR ''/'') path))"

fun query_pairs :: "string \<Rightarrow> string list \<Rightarrow> string option" where
  "query_pairs key [] = None"
| "query_pairs key (pair # pairs) =
     (let (name, value) = (case split_once (CHR ''='') pair of Some nv \<Rightarrow> nv | None \<Rightarrow> (pair, [])) in
      if percent_decode name = key then Some (percent_decode value) else query_pairs key pairs)"

definition query_value :: "string \<Rightarrow> string \<Rightarrow> string option" where
  "query_value query key = query_pairs key (split_on (CHR ''&'') query)"

section \<open>Headers and body\<close>

fun request_id_header :: "'f libs \<Rightarrow> (string \<times> string) list \<Rightarrow> string option" where
  "request_id_header L [] = None"
| "request_id_header L ((field, value) # headers) =
     (if lib_equiv L field ''X-Request-ID'' \<and> trim value \<noteq> [] then Some (trim value)
      else request_id_header L headers)"

definition request_id_of :: "'f libs \<Rightarrow> Request \<Rightarrow> string option" where
  "request_id_of L request = request_id_header L (rq_headers request)"

definition MAX_BODY_BYTES :: nat where "MAX_BODY_BYTES = 1024 * 1024"

fun read_loop :: "string \<Rightarrow> read_result list \<Rightarrow> (nat \<times> string \<times> string) + string" where
  "read_loop bytes [] = Inr bytes"
| "read_loop bytes (ReadOk chunk # reads) =
     (if chunk = [] then Inr bytes
      else if length bytes + length chunk > MAX_BODY_BYTES then Inl (413, ''PAYLOAD_TOO_LARGE'', ''body exceeds 1 MiB'')
      else read_loop (bytes @ chunk) reads)"
| "read_loop bytes (ReadErr # reads) = Inl (400, ''MALFORMED'', ''unreadable body'')"

definition read_body :: "Request \<Rightarrow> (nat \<times> string \<times> string) + string" where
  "read_body request = (case read_loop [] (rq_reads request) of
       Inl e \<Rightarrow> Inl e
     | Inr bytes \<Rightarrow> if valid_utf8 bytes then Inr bytes else Inl (400, ''MALFORMED'', ''body must be UTF-8''))"

definition parse_object :: "'f libs \<Rightarrow> string \<Rightarrow> 'f Value option" where
  "parse_object L body = (case parse (lib_f64 L) body of Some (Obj m) \<Rightarrow> Some (Obj m) | _ \<Rightarrow> None)"

section \<open>Responses\<close>

text \<open>\<open>chars().take(n)\<close>.\<close>

fun take_chars :: "nat \<Rightarrow> string \<Rightarrow> string" where
  "take_chars 0 s = []"
| "take_chars (Suc n) [] = []"
| "take_chars (Suc n) (c # cs) =
     (let k = snd (utf8_step (c # cs)) in take k (c # cs) @ take_chars n (drop k (c # cs)))"

definition short_error :: "string \<Rightarrow> string" where
  "short_error detail = take_chars 160 (case lines detail of [] \<Rightarrow> ''error'' | line # _ \<Rightarrow> line)"

definition json_status :: "'f libs \<Rightarrow> nat \<Rightarrow> 'f Value \<Rightarrow> BodyResponse" where
  "json_status L status body = \<lparr>rs_status = status, rs_body = render (lib_f64 L) body, rs_json = True\<rparr>"

definition json_ok :: "'f libs \<Rightarrow> 'f Value \<Rightarrow> BodyResponse" where
  "json_ok L body = json_status L 200 body"

definition error_body :: "'f libs \<Rightarrow> nat \<Rightarrow> string \<Rightarrow> string \<Rightarrow> BodyResponse" where
  "error_body L status code message =
     json_status L status (obj [(''code'', Str code), (''message'', Str message)])"

section \<open>The token comparison\<close>

lemma byte_less: "byte c < 256"
  by (simp add: byte_def)

lemma u8_eq: "u8 a = u8 b \<longleftrightarrow> a = b"
proof -
  have "unat (u8 c) = byte c" for c using byte_less [of c] by (simp add: u8_def unat_of_nat)
  then show ?thesis by (metis byte_inject)
qed

lemma or_zero: "x OR y = 0 \<longleftrightarrow> x = 0 \<and> y = (0 :: 8 word)"
  by (auto simp: bit_eq_iff bit_simps)

lemma xor_zero: "x XOR y = 0 \<longleftrightarrow> x = (y :: 8 word)"
  by (auto simp: bit_eq_iff bit_simps)

lemma fold_diff: "fold (\<lambda>(a, b) diff. diff OR (u8 a XOR u8 b)) ps d = 0 \<longleftrightarrow> d = 0 \<and> (\<forall>(a, b)\<in>set ps. a = b)"
  by (induction ps arbitrary: d) (auto simp: or_zero xor_zero u8_eq)

lemma constant_eq_iff: "constant_eq left right \<longleftrightarrow> left = right"
proof (cases "length left = length right")
  case True
  then have "(\<forall>(a, b)\<in>set (zip left right). a = b) \<longleftrightarrow> left = right"
    by (induction left right rule: list_induct2) auto
  then show ?thesis using True fold_diff [of "zip left right" 0] by (simp add: constant_eq_def)
qed (auto simp: constant_eq_def)

section \<open>Bodies\<close>

fun read_bytes :: "read_result list \<Rightarrow> string" where
  "read_bytes [] = []"
| "read_bytes (ReadOk chunk # reads) = (if chunk = [] then [] else chunk @ read_bytes reads)"
| "read_bytes (ReadErr # reads) = []"

lemma read_loop_ok: "read_loop bytes reads = Inr body \<Longrightarrow> length bytes \<le> MAX_BODY_BYTES \<Longrightarrow> length body \<le> MAX_BODY_BYTES \<and> body = bytes @ read_bytes reads"
  by (induction bytes reads rule: read_loop.induct) (auto split: if_splits)

text \<open>
  A body that is accepted is the whole body the client sent, however it arrived in chunks; it
  is at most 1 MiB and well-formed UTF-8.
\<close>

theorem read_body_bounded:
  assumes "read_body request = Inr body"
  shows "body = read_bytes (rq_reads request) \<and> length body \<le> MAX_BODY_BYTES \<and> valid_utf8 body"
  using assms read_loop_ok [of "[]" "rq_reads request" body]
  by (auto simp: read_body_def MAX_BODY_BYTES_def split: sum.splits if_splits)

theorem read_body_bounded_witness:
  "read_body \<lparr>rq_method = Post, rq_url = [], rq_headers = [], rq_reads = [ReadOk ''{'', ReadOk ''}'']\<rparr> = Inr ''{}'' \<and> valid_utf8 ''{}''"
proof -
  have "read_body \<lparr>rq_method = Post, rq_url = [], rq_headers = [], rq_reads = [ReadOk ''{'', ReadOk ''}'']\<rparr> = Inr ''{}''"
    by (simp add: read_body_def MAX_BODY_BYTES_def valid_utf8_ascii byte_def)
  with read_body_bounded [OF this] show ?thesis by simp
qed

section \<open>Percent encoding\<close>

text \<open>The encoding of RFC 3986: unreserved bytes as they are, every other byte as two hex digits.\<close>

definition unreserved :: "char \<Rightarrow> bool" where
  "unreserved c \<longleftrightarrow> (let b = byte c in 48 \<le> b \<and> b \<le> 57 \<or> 65 \<le> b \<and> b \<le> 90 \<or> 97 \<le> b \<and> b \<le> 122 \<or> b \<in> {45, 46, 95, 126})"

definition percent_encode :: "string \<Rightarrow> string" where
  "percent_encode s = concat (map (\<lambda>c. if unreserved c then [c]
     else [CHR ''%'', hex_digit (byte c div 16), hex_digit (byte c mod 16)]) s)"

lemma hex_val_digit: "n < 16 \<Longrightarrow> hex_val (hex_digit n) = Some n"
  by (simp add: hex_val_def byte_hex_digit Let_def)

lemma percent_bytes_plain: "c \<noteq> CHR ''%'' \<Longrightarrow> percent_bytes (c # cs) = c # percent_bytes cs"
  by (cases cs; cases "tl cs") auto

lemma percent_bytes_encode: "percent_bytes (percent_encode s) = s"
proof (induction s)
  case Nil
  show ?case by (simp add: percent_encode_def)
next
  case (Cons c s)
  have e: "percent_encode (c # s) = (if unreserved c then [c] else [CHR ''%'', hex_digit (byte c div 16), hex_digit (byte c mod 16)]) @ percent_encode s"
    by (simp add: percent_encode_def)
  show ?case
  proof (cases "unreserved c")
    case True
    then have "c \<noteq> CHR ''%''" by (auto simp: unreserved_def byte_def)
    then show ?thesis using True e Cons by (simp add: percent_bytes_plain)
  next
    case False
    have h: "hex_val (hex_digit (byte c div 16)) = Some (byte c div 16)" "hex_val (hex_digit (byte c mod 16)) = Some (byte c mod 16)"
      using byte_less [of c] by (simp_all add: hex_val_digit)
    have "char_of (byte c div 16 * 16 + byte c mod 16) = c" by (simp add: byte_def)
    then show ?thesis using False e Cons h by simp
  qed
qed

lemma encode_no_slash: "CHR ''/'' \<notin> set (percent_encode s)"
proof -
  have "byte (hex_digit (byte c div 16)) \<noteq> 47" "byte (hex_digit (byte c mod 16)) \<noteq> 47" for c
    using byte_less [of c] byte_hex_digit [of "byte c div 16"] byte_hex_digit [of "byte c mod 16"] by (auto simp: less_mult_imp_div_less)
  moreover have "byte (CHR ''/'') = 47" by (simp add: byte_def)
  ultimately have "CHR ''/'' \<noteq> hex_digit (byte c div 16)" "CHR ''/'' \<noteq> hex_digit (byte c mod 16)" for c by metis+
  moreover have "unreserved c \<Longrightarrow> CHR ''/'' \<noteq> c" for c by (auto simp: unreserved_def byte_def)
  moreover have "CHR ''/'' \<noteq> CHR ''%''" by simp
  ultimately have "CHR ''/'' \<notin> set (if unreserved c then [c] else [CHR ''%'', hex_digit (byte c div 16), hex_digit (byte c mod 16)])" for c
    by (simp del: char.inject)
  then show ?thesis unfolding percent_encode_def set_concat set_map by blast
qed

lemma encode_empty: "percent_encode s = [] \<longleftrightarrow> s = []"
  by (cases s) (auto simp: percent_encode_def)

lemma split_on_append: "c \<notin> set a \<Longrightarrow> split_on c (a @ c # b) = a # split_on c b"
  by (induction a) auto

lemma split_on_none: "c \<notin> set a \<Longrightarrow> split_on c a = [a]"
  by (induction a) auto

lemma path_segments_join:
  "\<forall>s\<in>set segs. s \<noteq> [] \<and> valid_utf8 s \<Longrightarrow>
   path_segments (concat (map (\<lambda>s. CHR ''/'' # percent_encode s) segs)) = segs"
proof (induction segs)
  case Nil
  show ?case by (simp add: path_segments_def)
next
  case (Cons s segs)
  let ?rest = "concat (map (\<lambda>s. CHR ''/'' # percent_encode s) segs)"
  have d: "percent_decode (percent_encode s) = s" using Cons.prems
    by (simp add: percent_decode_def percent_bytes_encode utf8_lossy_valid)
  have IH: "map percent_decode (filter (\<lambda>part. part \<noteq> []) (split_on (CHR ''/'') ?rest)) = segs"
    using Cons by (simp add: path_segments_def)
  have "split_on (CHR ''/'') (percent_encode s @ ?rest) = percent_encode s # tl (split_on (CHR ''/'') ?rest)"
    "hd (split_on (CHR ''/'') ?rest) = []" "split_on (CHR ''/'') ?rest \<noteq> []"
    using encode_no_slash [of s] by (cases segs; simp add: split_on_append split_on_none)+
  then show ?case using IH d Cons.prems encode_empty [of s]
    by (cases "split_on (CHR ''/'') ?rest") (auto simp: path_segments_def)
qed

text \<open>
  Path segments survive the URL: a path built from non-empty UTF-8 segments with the encoding
  of RFC 3986, slashes, percent signs and any other character in them included, is split and decoded
  into exactly these segments.
\<close>

theorem path_segments_roundtrip:
  assumes "\<forall>s\<in>set segs. s \<noteq> [] \<and> valid_utf8 s"
  shows "path_segments (concat (map (\<lambda>s. CHR ''/'' # percent_encode s) segs)) = segs"
  by (rule path_segments_join [OF assms])

theorem path_segments_roundtrip_witness:
  "path_segments (concat (map (\<lambda>s. CHR ''/'' # percent_encode s) [''v1'', ''a/b%''])) = [''v1'', ''a/b%'']"
  by (rule path_segments_roundtrip) (simp add: valid_utf8_ascii byte_def)

text \<open>
  Unlike the comment above \<open>path_segments\<close> says, a trailing slash does route: the empty segment it
  makes is dropped, so the path with it has the segments of the path without it.
\<close>

theorem trailing_slash_routes: "path_segments ''/v1/agent/devices/'' = path_segments ''/v1/agent/devices''"
  by (simp add: path_segments_def)

end
