(* ===== verification/Exec.thy ===== *)
theory Exec
  imports Http Plain
begin

text \<open>
  calcar-connect/src/exec.rs: one bounded run of a generic command and the tail file behind it, with
  \<open>PlainChild::join\<close> of plain.rs. What the system does to a run is an argument: the result of the
  spawn, what a wait of so many milliseconds sees, and the chunks the pumps read until they end.
\<close>

section \<open>Running a command\<close>

datatype ExecError = Spawn string | ExecTimeout | Join string | ExecIo string

fun ExecError_text :: "ExecError \<Rightarrow> string" where
  "ExecError_text (Spawn m) = ''spawn failed: '' @ m"
| "ExecError_text ExecTimeout = ''command timed out and was killed''"
| "ExecError_text (Join m) = ''output collection failed: '' @ m"
| "ExecError_text (ExecIo e) = ''tail file io: '' @ e"

record ExecOutcome =
  eo_exit_code :: int
  eo_stdout :: string
  eo_stderr :: string
  eo_truncated :: bool

record run_answer =
  ra_launch :: "PlainConfig \<Rightarrow> PtyError + PlainChild"
  ra_wait :: "int \<Rightarrow> wait_result"
  ra_stdout :: "string list"
  ra_stderr :: "string list"

text \<open>
  \<open>PlainChild::join\<close>. It waits for the pumps; when a descendant holds a pipe open past the grace
  period it kills the job, which ends them. Either way both ran to their end.
\<close>

definition child_join :: "(int \<Rightarrow> wait_result) \<Rightarrow> string list \<Rightarrow> string list \<Rightarrow> PlainChild \<Rightarrow> PtyError + PlainOutput" where
  "child_join os outs errs child = (case child_wait (os (wait_millis None)) child of
       (Inl e, _) \<Rightarrow> Inl e
     | (Inr code, child1) \<Rightarrow>
         let child2 = child1\<lparr>ch_stdout := pump_stream (ch_stdout child1) outs,
                             ch_stderr := pump_stream (ch_stderr child1) errs\<rparr> in
         Inr ((child_snapshot child2)\<lparr>po_exit_code := Some (case code of None \<Rightarrow> 1 | Some n \<Rightarrow> n)\<rparr>))"

definition command_config :: "string \<Rightarrow> PlainConfig" where
  "command_config body = plain_config_new [''cmd.exe'', ''/C'', body]"

text \<open>The result, and the configurations \<open>PlainChild::spawn\<close> was called with.\<close>

definition run_generic :: "run_answer \<Rightarrow> string \<Rightarrow> nat \<Rightarrow> (ExecError + ExecOutcome) \<times> PlainConfig list" where
  "run_generic os body timeout_secs =
     (if trim body = [] then (Inl (Spawn ''command body must not be empty''), [])
      else
        (case ra_launch os (command_config body) of
           Inl e \<Rightarrow> Inl (Spawn (PtyError_text e))
         | Inr child \<Rightarrow>
             (case child_wait (ra_wait os (wait_millis (Some (timeout_secs * 1000)))) child of
                (Inl e, _) \<Rightarrow> Inl (Spawn (PtyError_text e))
              | (Inr None, _) \<Rightarrow> Inl ExecTimeout
              | (Inr (Some _), child1) \<Rightarrow>
                  (case child_join (ra_wait os) (ra_stdout os) (ra_stderr os) child1 of
                     Inl e \<Rightarrow> Inl (Join (PtyError_text e))
                   | Inr output \<Rightarrow>
                       Inr \<lparr>eo_exit_code = (case po_exit_code output of None \<Rightarrow> 1 | Some n \<Rightarrow> n),
                            eo_stdout = po_stdout output, eo_stderr = po_stderr output,
                            eo_truncated = po_truncated output\<rparr>)),
         [command_config body]))"

definition check_input_id :: "string \<Rightarrow> bool" where
  "check_input_id input_id =
     (if input_id = [] \<or> length input_id > 128 then False
      else list_all (\<lambda>c. let b = byte c in 48 \<le> b \<and> b \<le> 57 \<or> 65 \<le> b \<and> b \<le> 90 \<or> 97 \<le> b \<and> b \<le> 122 \<or>
        c = CHR ''-'' \<or> c = CHR ''_'') input_id)"

section \<open>Tails\<close>

definition TAIL_FILE_BYTES :: nat where "TAIL_FILE_BYTES = 256 * 1024"

text \<open>The loop moves the cut to the next character boundary: past continuation bytes.\<close>

definition tail_bytes :: "string \<Rightarrow> nat \<Rightarrow> string \<times> bool" where
  "tail_bytes text max_bytes =
     (if length text \<le> max_bytes then (text, False)
      else (dropWhile (\<lambda>c. cont (byte c)) (drop (length text - max_bytes) text), True))"

definition tail_name :: "string \<Rightarrow> string \<Rightarrow> string" where
  "tail_name workflow_id input_id = workflow_id @ ''-'' @ input_id @ ''.log''"

definition tail_path :: "'f libs \<Rightarrow> string \<Rightarrow> string \<Rightarrow> string \<Rightarrow> string" where
  "tail_path L state_dir workflow_id input_id =
     lib_join L (lib_join L state_dir ''tails'') (tail_name workflow_id input_id)"

text \<open>What \<open>write_tail\<close> writes, and whether it says something is missing.\<close>

definition tail_text :: "ExecOutcome \<Rightarrow> string" where
  "tail_text outcome = utf8_lossy (eo_stdout outcome) @
     (if utf8_lossy (eo_stderr outcome) \<noteq> []
      then newline # ''--- stderr ---'' @ newline # utf8_lossy (eo_stderr outcome) else [])"

definition tail_body :: "ExecOutcome \<Rightarrow> string \<times> bool" where
  "tail_body outcome =
     (let (kept, was_cut) = tail_bytes (tail_text outcome) TAIL_FILE_BYTES;
          file_cut = (was_cut \<or> eo_truncated outcome) in
      ((if file_cut then ''...truncated'' @ [newline] else []) @ kept, file_cut))"

section \<open>What a run reports\<close>

lemma command_cap: "clamp_cap (pg_output_cap_bytes (command_config body)) = 1048576"
  by (simp add: command_config_def plain_config_new_def clamp_cap_def DEFAULT_PLAIN_OUTPUT_CAP_BYTES_def MAX_PLAIN_OUTPUT_CAP_BYTES_def)


definition sample_run :: run_answer where
  "sample_run = \<lparr>ra_launch = (\<lambda>config. Inr (child_new config)), ra_wait = (\<lambda>_. Exited 3), ra_stdout = [''a'', ''b''], ra_stderr = []\<rparr>"


section \<open>The tail keeps the newest output\<close>

lemma char_shape:
  assumes "utf8_step (c # cs) = (True, n)"
  shows "\<not> cont (byte c)" "\<forall>b\<in>set (take (n - 1) cs). cont (byte b)" "n \<le> 4"
proof -
  have so: "cont b'" if "second_ok b b'" for b b' using that by (auto simp: second_ok_def cont_def split: if_splits)
  have sw: "\<not> cont b" if "seq_width b \<noteq> 0" for b using that by (auto simp: seq_width_def cont_def split: if_splits)
  have *: "(n = 1 \<and> seq_width (byte c) = 1) \<or>
     (\<exists>c1 cs1. cs = c1 # cs1 \<and> n = 2 \<and> seq_width (byte c) = 2 \<and> cont (byte c1)) \<or>
     (\<exists>c1 c2 cs1. cs = c1 # c2 # cs1 \<and> n = 3 \<and> seq_width (byte c) = 3 \<and> second_ok (byte c) (byte c1) \<and> cont (byte c2)) \<or>
     (\<exists>c1 c2 c3 cs1. cs = c1 # c2 # c3 # cs1 \<and> n = 4 \<and> seq_width (byte c) = 4 \<and> second_ok (byte c) (byte c1) \<and> cont (byte c2) \<and> cont (byte c3))"
    using assms unfolding utf8_step.simps(2) Let_def by (auto split: if_splits list.splits)
  then show "\<not> cont (byte c)" using sw by auto
  show "\<forall>b\<in>set (take (n - 1) cs). cont (byte b)" "n \<le> 4" using * so by auto
qed

text \<open>Dropping any number of bytes of well-formed text and then the continuation bytes ends at a character.\<close>

lemma boundary_suffix:
  assumes "valid_utf8 s"
  shows "valid_utf8 (dropWhile (\<lambda>c. cont (byte c)) (drop k s)) \<and>
    length (drop k s) \<le> length (dropWhile (\<lambda>c. cont (byte c)) (drop k s)) + 3"
  using assms
proof (induction s arbitrary: k rule: valid_utf8.induct)
  case 1
  show ?case by simp
next
  case (2 c cs)
  then obtain n where n: "utf8_step (c # cs) = (True, n)" "valid_utf8 (drop n (c # cs))" by (auto simp: valid_utf8_Cons)
  note sh = char_shape [OF n(1)] and st = utf8_step_take [OF n(1)]
  let ?d = "\<lambda>s. dropWhile (\<lambda>c. cont (byte c)) s"
  consider "k = 0" | "n \<le> k" | "0 < k" "k < n" by linarith
  then show ?case
  proof cases
    case 1
    then show ?thesis using 2(2) sh(1) by simp
  next
    case 2
    have "drop k (c # cs) = drop (k - n) (drop n (c # cs))" using 2 by (simp del: drop_Suc_Cons)
    then show ?thesis using "2.IH" [OF n(1) [symmetric] refl n(2), of "k - n"] by simp
  next
    case 3
    obtain k' n' where kn: "k = Suc k'" "n = Suc n'" "k' < n'" using 3 by (cases k; cases n) auto
    have "drop k' cs = take (n' - k') (drop k' cs) @ drop (n' - k') (drop k' cs)" by (rule append_take_drop_id [symmetric])
    then have d: "drop k (c # cs) = drop (k - 1) (take (n - 1) cs) @ drop n (c # cs)"
      using kn by (simp add: drop_take)
    have "\<forall>b\<in>set (drop (k - 1) (take (n - 1) cs)). cont (byte b)" using sh(2) by (meson in_set_dropD)
    then have e: "?d (drop k (c # cs)) = ?d (drop n (c # cs))" using d by (simp add: dropWhile_append2)
    have "valid_utf8 (?d (drop n (c # cs)))" "?d (drop n (c # cs)) = drop n (c # cs)"
    proof -
      show v: "?d (drop n (c # cs)) = drop n (c # cs)"
      proof (cases "drop n (c # cs)")
        case (Cons x xs)
        then obtain m where "utf8_step (x # xs) = (True, m)" using n(2) by (auto simp: valid_utf8_Cons)
        then show ?thesis using char_shape(1) Cons by simp
      qed simp
      show "valid_utf8 (?d (drop n (c # cs)))" using v n(2) by simp
    qed
    moreover have "length (drop k (c # cs)) \<le> length (drop n (c # cs)) + 3" using sh(3) 3 by simp
    ultimately show ?thesis using e by simp
  qed
qed

text \<open>
  C39. The tail of a text is its newest part: a suffix of it, well-formed UTF-8 when the text is,
  never longer than the limit and at most three bytes shorter when something is cut, and a cut is
  reported exactly when the text is longer than the limit.
\<close>

theorem tail_bytes_newest:
  assumes "valid_utf8 text" "tail_bytes text n = (kept, was_cut)"
  shows "(\<exists>old. text = old @ kept) \<and> valid_utf8 kept \<and> length kept \<le> n \<and> (was_cut \<longleftrightarrow> n < length text) \<and>
    (was_cut \<longrightarrow> n \<le> length kept + 3) \<and> (\<not> was_cut \<longrightarrow> kept = text)"
proof (cases "length text \<le> n")
  case True
  then show ?thesis using assms by (auto simp: tail_bytes_def)
next
  case False
  let ?d = "drop (length text - n) text"
  have k: "kept = dropWhile (\<lambda>c. cont (byte c)) ?d" "was_cut" using assms(2) False by (auto simp: tail_bytes_def)
  have b: "valid_utf8 kept" "length ?d \<le> length kept + 3" using boundary_suffix [OF assms(1), of "length text - n"] k by auto
  have "text = (take (length text - n) text @ takeWhile (\<lambda>c. cont (byte c)) ?d) @ kept"
    unfolding k(1) append_assoc takeWhile_dropWhile_id append_take_drop_id ..
  moreover have "length kept \<le> length ?d" unfolding k(1) by (rule length_dropWhile_le)
  ultimately show ?thesis using False k(2) b by (intro conjI) (auto simp del: append_assoc)
qed

theorem tail_bytes_newest_witness: "tail_bytes ''abcd'' 3 = (''bcd'', True) \<and> valid_utf8 ''bcd''"
proof -
  have v: "valid_utf8 ''abcd''" by (simp add: valid_utf8_ascii byte_def)
  have t: "tail_bytes ''abcd'' 3 = (''bcd'', True)" by (simp add: tail_bytes_def cont_def byte_def)
  show ?thesis using tail_bytes_newest [OF v t] t by simp
qed

text \<open>
  The file of a tail is named after the workflow and the input with a dash between them, and an
  input id may contain dashes: two inputs of different workflows share one file, and the later run
  replaces the output of the earlier.
\<close>

theorem tail_name_collision:
  "check_input_id ''b-c'' \<and> check_input_id ''c'' \<and> tail_name ''a'' ''b-c'' = tail_name ''a-b'' ''c''"
  by (simp add: check_input_id_def tail_name_def byte_def)

lemma input_id_alphabet:
  assumes "check_input_id i" "c \<in> set i"
  shows "c \<noteq> CHR '':'' \<and> c \<noteq> CHR ''/'' \<and> c \<noteq> backslash \<and> c \<noteq> CHR ''.''"
  using assms by (auto simp: check_input_id_def list_all_iff Let_def byte_def backslash_def split: if_splits)

end
