(* ===== verification/Platforms.thy ===== *)
theory Platforms
  imports Adapter_Contract Exec
begin

text \<open>
  calcar-pty/plain.rs off Windows: the stub of the plain executor. It can start nothing, so no command of
  the server and no adapter ever has a child there.
\<close>

section \<open>The stub\<close>

definition stub_spawn :: launcher where
  "stub_spawn config = Inl (InvalidConfig ''plain pipe executor requires Windows'')"

definition stub_pid :: nat where "stub_pid = 0"

definition stub_kill :: "PtyError + unit" where "stub_kill = Inl Closed"

definition stub_wait :: "nat option \<Rightarrow> PtyError + int option" where "stub_wait timeout = Inl Closed"

definition stub_exit_code :: "int option" where "stub_exit_code = None"

definition stub_truncated :: bool where "stub_truncated = False"

definition stub_snapshot :: PlainOutput where
  "stub_snapshot = \<lparr>po_stdout = [], po_stderr = [], po_exit_code = None, po_truncated = False\<rparr>"

definition stub_join :: "nat \<Rightarrow> PtyError + PlainOutput" where "stub_join pump_grace = Inl Closed"

section \<open>Nothing runs\<close>

text \<open>The calls of an adapter on such a platform: every launch is the stub's.\<close>

fun off_windows :: "adapter_call \<Rightarrow> bool" where
  "off_windows (SpawnCall launch os req) = (launch = stub_spawn)"
| "off_windows _ = True"

fun idle_reply :: "adapter_reply \<Rightarrow> bool" where
  "idle_reply (UnitReply r) = True"
| "idle_reply (ApprovalReply r) = (r = Inl Unsupported)"
| "idle_reply (EventsReply evs) = (evs = [])"
| "idle_reply (SnapshotReply s) = (\<not> as_running s \<and> as_exit_code s = None \<and> as_resume_pointer s = None)"

fun idle :: "Adapter \<Rightarrow> bool" where
  "idle (GenericA g) = (ga_child g = None \<and> ga_pending_started g = None)"
| "idle (OpencodeA m) = (ma_child m = None \<and> ma_provider_session_id m = None)"
| "idle (ClaudeA m) = (ma_child m = None \<and> ma_provider_session_id m = None)"
| "idle (CodexA m) = (ma_child m = None \<and> ma_provider_session_id m = None)"

lemma marker_idle:
  assumes "ma_child m = None" "ma_provider_session_id m = None" "off_windows c"
  shows "ma_child (snd (marker_call prefix c m)) = None \<and> ma_provider_session_id (snd (marker_call prefix c m)) = None \<and>
    idle_reply (fst (marker_call prefix c m)) \<and> (\<forall>launch os req. c = SpawnCall launch os req \<longrightarrow> fst (marker_call prefix c m) \<noteq> UnitReply (Inr ()))"
proof (cases c)
  case (SpawnCall launch os req)
  then show ?thesis using assms
    by (auto simp: marker_spawn_def marker_poll_def marker_reset_def stub_spawn_def Let_def)
qed (use assms in \<open>simp_all add: marker_inject_def marker_respond_approval_def marker_stop_def marker_drain_def
    marker_snapshot_def marker_poll_def Let_def\<close>)

lemma generic_idle:
  assumes "ga_child g = None" "ga_pending_started g = None" "off_windows c"
  shows "ga_child (snd (generic_call c g)) = None \<and> ga_pending_started (snd (generic_call c g)) = None \<and>
    idle_reply (fst (generic_call c g)) \<and> (\<forall>launch os req. c = SpawnCall launch os req \<longrightarrow> fst (generic_call c g) \<noteq> UnitReply (Inr ()))"
proof (cases c)
  case (SpawnCall launch os req)
  then show ?thesis using assms by (auto simp: generic_spawn_def stub_spawn_def Let_def)
qed (use assms in \<open>auto simp: generic_inject_def generic_respond_approval_def generic_stop_def generic_drain_def
    generic_snapshot_def Let_def\<close>)

lemma registry_idle:
  assumes "idle a" "off_windows c"
  shows "idle (snd (registry_call c a)) \<and> idle_reply (fst (registry_call c a)) \<and>
    (\<forall>launch os req. c = SpawnCall launch os req \<longrightarrow> fst (registry_call c a) \<noteq> UnitReply (Inr ()))"
proof (cases a)
  case (GenericA g)
  then show ?thesis using assms generic_idle [of g c]
    by (simp add: registry_call_dispatch(1) rewrap_def case_prod_beta del: registry_call.simps)
next
  case (OpencodeA m)
  then show ?thesis using assms marker_idle [of m c OPENCODE_PREFIX]
    by (simp add: registry_call_dispatch(2) rewrap_def case_prod_beta del: registry_call.simps)
next
  case (ClaudeA m)
  then show ?thesis using assms marker_idle [of m c CLAUDE_PREFIX]
    by (simp add: registry_call_dispatch(3) rewrap_def case_prod_beta del: registry_call.simps)
next
  case (CodexA m)
  then show ?thesis using assms marker_idle [of m c CODEX_PREFIX]
    by (simp add: registry_call_dispatch(4) rewrap_def case_prod_beta del: registry_call.simps)
qed

text \<open>
  Off Windows nothing runs: a command of the server fails with the stub's message, and the adapter of a
  provider, whatever is asked of it and in whatever order, starts no child, reports no event and shows
  neither a running child nor an exit code nor a session.
\<close>

theorem off_windows_nothing_runs:
  assumes "ra_launch os = stub_spawn" "trim body \<noteq> []" "for_provider p = Inr a" "list_all off_windows cs"
  shows "fst (run_generic os body secs) = Inl (Spawn ''invalid spawn config: plain pipe executor requires Windows'') \<and>
    list_all idle_reply (fst (call_all registry_call cs a)) \<and>
    list_all2 (\<lambda>c r. \<forall>launch os req. c = SpawnCall launch os req \<longrightarrow> r \<noteq> UnitReply (Inr ())) cs (fst (call_all registry_call cs a))"
proof -
  have "idle a" using assms(3)
    by (cases p) (auto simp: for_provider_def generic_new_def opencode_new_def codex_new_def marker_new_def)
  then have "list_all idle_reply (fst (call_all registry_call cs a)) \<and>
    list_all2 (\<lambda>c r. \<forall>launch os req. c = SpawnCall launch os req \<longrightarrow> r \<noteq> UnitReply (Inr ())) cs (fst (call_all registry_call cs a))"
    using assms(4)
  proof (induction cs arbitrary: a)
    case (Cons c cs)
    then have "off_windows c" "list_all off_windows cs" by simp_all
    from registry_idle [OF Cons.prems(1) this(1)] Cons.IH [OF _ this(2), of "snd (registry_call c a)"]
    show ?case by (auto simp: case_prod_beta simp del: registry_call.simps)
  qed simp
  then show ?thesis using assms(1,2) by (simp add: run_generic_def stub_spawn_def)
qed

theorem off_windows_nothing_runs_witness:
  "fst (call_all registry_call [SpawnCall stub_spawn Timeout (spawn_request_new [''x'']), DrainCall Timeout] (GenericA generic_new)) =
     [UnitReply (Inl (SpawnFailed ''invalid spawn config: plain pipe executor requires Windows'')), EventsReply []]"
proof -
  let ?os = "\<lparr>ra_launch = stub_spawn, ra_wait = (\<lambda>_. Timeout), ra_stdout = [], ra_stderr = []\<rparr>"
  let ?cs = "[SpawnCall stub_spawn Timeout (spawn_request_new [''x'']), DrainCall Timeout]"
  have t: "trim ''dir'' \<noteq> []" by code_simp
  have "for_provider Generic = Inr (GenericA generic_new)" by (simp add: for_provider_def)
  from off_windows_nothing_runs [of ?os "''dir''", OF _ t this, of ?cs 1]
  show ?thesis
    by (simp add: rewrap_def generic_spawn_def spawn_request_new_def stub_spawn_def map_spawn_error_def generic_new_def Let_def case_prod_beta)
qed

end
