(* ===== verification/Lifecycle.thy ===== *)
theory Lifecycle
  imports Storage_Contracts
begin

text \<open>
  calcar-workflow/src/lifecycle.rs (the \<open>WorkflowManager\<close>, sole writer of workflow state) and
  session.rs (the \<open>SessionManager\<close>). The manager's only state is the storage it owns, so a method
  is a program over the database; \<open>LifecycleError::Storage\<close> wraps the storage errors that \<open>?\<close> passes on.
\<close>

section \<open>The manager\<close>

datatype LifecycleError = Refused string | Storage StorageError

type_synonym 'a life_io = "(database, LifecycleError, 'a) io"

definition store :: "'a store_io \<Rightarrow> 'a life_io" where
  "store m = map_err Storage m"

record WorkflowView =
  wv_stored :: WorkflowRow
  wv_projected :: WorkflowState

datatype RecoveryDecision =
    Reattach (rd_session: string) (rd_pointer: "string option") (rd_replayed: nat) (rd_last_seq: "int option")
  | CleanFailed string
  | AlreadyTerminal WorkflowState

definition check_storable :: "WorkflowState \<Rightarrow> unit life_io" where
  "check_storable next_state = (case next_state of
       WorkflowState.Unspecified \<Rightarrow> fail (Refused ''unspecified state is never persisted'')
     | DisconnectedRunning \<Rightarrow>
         fail (Refused ''disconnected-running is a projection only; use project_on_disconnect'')
     | Running \<Rightarrow> ret () | WaitingInput \<Rightarrow> ret () | WaitingApproval \<Rightarrow> ret ()
     | Completed \<Rightarrow> ret () | Failed \<Rightarrow> ret () | Stopped \<Rightarrow> ret ())"

definition check_reason :: "string \<Rightarrow> string life_io" where
  "check_reason reason =
     (if reason = [] then fail (Refused ''transition reason must not be empty'') else ret reason)"

definition lifecycle_event_type :: "WorkflowState \<Rightarrow> EventType option" where
  "lifecycle_event_type next_state = (case next_state of
       Running \<Rightarrow> Some AgentStarted
     | WaitingInput \<Rightarrow> Some InputRequired
     | WaitingApproval \<Rightarrow> Some ApprovalRequired
     | Completed \<Rightarrow> Some WorkflowCompleted
     | Failed \<Rightarrow> Some ErrorOccurred
     | Stopped \<Rightarrow> Some WorkflowStopped
     | WorkflowState.Unspecified \<Rightarrow> None
     | DisconnectedRunning \<Rightarrow> None)"

definition lifecycle_draft ::
  "string \<Rightarrow> string option \<Rightarrow> WorkflowState \<Rightarrow> EventType \<Rightarrow> string \<Rightarrow> int \<Rightarrow> EventDraft" where
  "lifecycle_draft workflow_id provider_session_id next_state event_type reason occurred =
     \<lparr>ed_workflow_id = workflow_id,
      ed_event_id = ''lifecycle-'' @ workflow_id @ ''-'' @ show_int (WorkflowState_i32 next_state)
        @ ''-'' @ show_int occurred,
      ed_provider_session_id = provider_session_id, ed_occurred_at_millis = occurred,
      ed_event_type = event_type, ed_summary = reason, ed_detail_pointer = None\<rparr>"

definition lifecycle_record ::
  "string \<Rightarrow> string option \<Rightarrow> WorkflowState \<Rightarrow> string \<Rightarrow> WorkflowEvent life_io" where
  "lifecycle_record workflow_id provider_session_id next_state reason =
     (case lifecycle_event_type next_state of
        None \<Rightarrow> fail (Refused (''state '' @ WorkflowState_debug next_state
                  @ '' is never stored and gets no lifecycle event''))
      | Some event_type \<Rightarrow>
          andthen now_millis (\<lambda>occurred.
          store (append_event
            (lifecycle_draft workflow_id provider_session_id next_state event_type reason occurred))))"

text \<open>\<open>WorkflowManager::new\<close> on an opened store.\<close>

definition manager_new :: "unit life_io" where
  "manager_new = andthen (store migrate) (\<lambda>_. ret ())"

definition manager_create_workflow ::
  "string \<Rightarrow> Provider \<Rightarrow> string \<Rightarrow> string option \<Rightarrow> WorkflowRow life_io" where
  "manager_create_workflow workflow_id provider title provider_session_id =
     (if workflow_id = [] then fail (Refused ''workflow id must not be empty'')
      else if title = [] then fail (Refused ''workflow title must not be empty'')
      else if provider = Provider.Unspecified then fail (Refused ''provider must be specified'')
      else
        andthen (store (create_workflow workflow_id provider title provider_session_id)) (\<lambda>row.
        andthen (case provider_session_id of
                   Some session_id \<Rightarrow> store (upsert_session_binding workflow_id session_id None)
                 | None \<Rightarrow> ret ()) (\<lambda>_.
        andthen (lifecycle_record (wr_workflow_id row) (wr_provider_session_id row) Running
                   ''workflow created'') (\<lambda>_.
        ret row))))"

definition transition :: "string \<Rightarrow> WorkflowState \<Rightarrow> string \<Rightarrow> WorkflowRow life_io" where
  "transition workflow_id next_state reason =
     andthen (check_storable next_state) (\<lambda>_.
     andthen (check_reason reason) (\<lambda>_.
     andthen (store (set_workflow_state workflow_id next_state)) (\<lambda>row.
     andthen (lifecycle_record (wr_workflow_id row) (wr_provider_session_id row) next_state reason) (\<lambda>_.
     ret row))))"

definition transition_on_disconnect :: "string \<Rightarrow> WorkflowState \<Rightarrow> string \<Rightarrow> WorkflowRow life_io" where
  "transition_on_disconnect workflow_id next_state reason =
     (if next_state = Completed then
        fail (Refused ''disconnect never completes a workflow; stored state is unchanged'')
      else transition workflow_id next_state reason)"

definition manager_get_workflow :: "string \<Rightarrow> WorkflowRow option life_io" where
  "manager_get_workflow workflow_id = store (get_workflow workflow_id)"

definition events_since :: "string \<Rightarrow> int \<Rightarrow> nat \<Rightarrow> WorkflowEvent list life_io" where
  "events_since workflow_id after_seq limit = store (events_after workflow_id after_seq limit)"

text \<open>The stored row and its decoded state, the common start of projection and recovery.\<close>

definition stored_state :: "string \<Rightarrow> (WorkflowRow \<times> WorkflowState) life_io" where
  "stored_state workflow_id =
     andthen (store (get_workflow workflow_id)) (\<lambda>found. case found of
       None \<Rightarrow> fail (Storage (NotFound (''workflow '' @ workflow_id)))
     | Some stored \<Rightarrow>
         (case WorkflowState_from_i32 (wr_state stored) of
            None \<Rightarrow> fail (Refused (''stored state '' @ show_int (wr_state stored) @ '' for workflow ''
                      @ workflow_id @ '' is not a known state''))
          | Some state \<Rightarrow> ret (stored, state)))"

definition must_never_persist :: "string \<Rightarrow> WorkflowState \<Rightarrow> LifecycleError" where
  "must_never_persist workflow_id state = Refused (''stored state '' @ WorkflowState_debug state
     @ '' for workflow '' @ workflow_id @ '' must never persist'')"

definition project_on_disconnect :: "string \<Rightarrow> WorkflowView life_io" where
  "project_on_disconnect workflow_id =
     andthen (stored_state workflow_id) (\<lambda>(stored, state).
       if state \<in> {Completed, Failed, Stopped} then ret \<lparr>wv_stored = stored, wv_projected = state\<rparr>
       else if state \<in> {WorkflowState.Unspecified, DisconnectedRunning} then
         fail (must_never_persist workflow_id state)
       else ret \<lparr>wv_stored = stored, wv_projected = DisconnectedRunning\<rparr>)"

definition recovery_reason :: "string \<Rightarrow> string" where
  "recovery_reason workflow_id =
     ''restart recovery: no session binding for workflow '' @ workflow_id @ ''; marked failed''"

text \<open>The two arms of \<open>match binding\<close>, and the reads before it.\<close>

definition reattach_or_fail ::
  "string \<Rightarrow> WorkflowRow \<Rightarrow> (string \<times> string option) option \<Rightarrow> WorkflowEvent list \<Rightarrow> RecoveryDecision life_io" where
  "reattach_or_fail workflow_id stored binding replayed = (case binding of
       Some (provider_session_id, resume_pointer) \<Rightarrow>
         ret (Reattach provider_session_id resume_pointer (length replayed)
                (if replayed = [] then None else Some (we_seq_no (last replayed))))
     | None \<Rightarrow>
         andthen (store (set_workflow_state workflow_id Failed)) (\<lambda>_.
         andthen (lifecycle_record workflow_id (wr_provider_session_id stored) Failed
                    (recovery_reason workflow_id)) (\<lambda>_.
         ret (CleanFailed (recovery_reason workflow_id)))))"

definition recover_live :: "string \<Rightarrow> WorkflowRow \<Rightarrow> RecoveryDecision life_io" where
  "recover_live workflow_id stored =
     andthen (store (get_session_binding workflow_id)) (\<lambda>binding.
     andthen (store (events_after workflow_id 0 (nat u32_max))) (\<lambda>replayed.
     reattach_or_fail workflow_id stored binding replayed))"

definition reconcile :: "string \<Rightarrow> RecoveryDecision life_io" where
  "reconcile workflow_id =
     andthen (stored_state workflow_id) (\<lambda>(stored, state).
       if state \<in> {Completed, Failed, Stopped} then ret (AlreadyTerminal state)
       else if state \<in> {WorkflowState.Unspecified, DisconnectedRunning} then
         fail (must_never_persist workflow_id state)
       else recover_live workflow_id stored)"

section \<open>Sessions\<close>

record SessionBinding =
  sn_workflow_id :: string
  sn_provider_session_id :: string
  sn_resume_pointer :: "string option"

definition bind :: "string \<Rightarrow> string \<Rightarrow> string option \<Rightarrow> unit store_io" where
  "bind workflow_id provider_session_id resume_pointer =
     (if workflow_id = [] then fail (InvalidState ''workflow id must not be empty'')
      else if provider_session_id = [] then fail (InvalidState ''provider session id must not be empty'')
      else
        andthen (get_workflow workflow_id) (\<lambda>found. case found of
          None \<Rightarrow> fail (NotFound (''workflow '' @ workflow_id))
        | Some _ \<Rightarrow> upsert_session_binding workflow_id provider_session_id resume_pointer))"

definition lookup :: "string \<Rightarrow> SessionBinding option store_io" where
  "lookup workflow_id =
     andthen (get_session_binding workflow_id) (\<lambda>found. case found of
       None \<Rightarrow> ret None
     | Some (provider_session_id, resume_pointer) \<Rightarrow>
         ret (Some \<lparr>sn_workflow_id = workflow_id, sn_provider_session_id = provider_session_id,
                    sn_resume_pointer = resume_pointer\<rparr>))"

section \<open>Every method is a run of storage calls\<close>

lemma runs_store [moves_intros]: "moves R m \<Longrightarrow> moves R (store m)"
  unfolding store_def by (rule moves_map_err)

lemma runs_record [moves_intros]: "moves storage_run (lifecycle_record wid s st reason)"
  unfolding lifecycle_record_def by (intro moves_intros reflp_run transp_run)

lemma runs_manager [moves_intros]:
  "moves storage_run (manager_create_workflow wid p title s)"
  "moves storage_run (transition wid st reason)"
  "moves storage_run (transition_on_disconnect wid st reason)"
  "moves storage_run (reconcile wid)"
  "moves storage_run (bind wid ses ptr)"
proof -
  have chk: "moves storage_run (check_storable st)" "moves storage_run (check_reason reason)"
    by (cases st) (simp_all add: check_storable_def check_reason_def moves_ret moves_fail)
  have st: "moves storage_run (stored_state wid)"
    unfolding stored_state_def by (intro moves_intros reflp_run transp_run)
  show "moves storage_run (manager_create_workflow wid p title s)"
    unfolding manager_create_workflow_def by (intro moves_intros reflp_run transp_run)
  show t: "moves storage_run (transition wid st reason)"
    unfolding transition_def by (intro moves_intros reflp_run transp_run chk)
  show "moves storage_run (transition_on_disconnect wid st reason)"
    unfolding transition_on_disconnect_def by (intro moves_intros reflp_run transp_run t)
  show "moves storage_run (reconcile wid)"
    unfolding reconcile_def recover_live_def reattach_or_fail_def
    by (rule moves_andthen [OF transp_run st])
       (intro moves_intros reflp_run transp_run)
  show "moves storage_run (bind wid ses ptr)"
    unfolding bind_def by (intro moves_intros reflp_run transp_run)
qed

section \<open>Totality in a healthy engine\<close>

text \<open>The newest event of a workflow is the drafted one, and only the ring and the outbox changed.\<close>

definition appended :: "EventDraft \<Rightarrow> database \<Rightarrow> database \<Rightarrow> bool" where
  "appended draft d d' \<longleftrightarrow> wf_db d' \<and> schema d' \<and> t_workflows d' = t_workflows d \<and> t_bindings d' = t_bindings d \<and>
     t_requests d' = t_requests d \<and> events_of d' (ed_workflow_id draft) \<noteq> [] \<and>
     last (events_of d' (ed_workflow_id draft)) = draft_row draft (high_water d (ed_workflow_id draft) + 1) \<and>
     high_water d' (ed_workflow_id draft) = high_water d (ed_workflow_id draft) + 1 \<and>
     (\<forall>v. v \<noteq> ed_workflow_id draft \<longrightarrow> events_of d' v = events_of d v)"

lemma append_appended:
  assumes "wf_db (db w)" "append_event draft w = (Inr ev, w')" "schema (db w')"
  shows "appended draft (db w) (db w')"
proof -
  obtain k es where "es = events_of (db w) (ed_workflow_id draft)
              @ [draft_row draft (high_water (db w) (ed_workflow_id draft) + 1)]"
    "events_of (db w') (ed_workflow_id draft) = drop k es" "k < length es"
    using append_effect [OF assms(1,2)] by blast
  then have "events_of (db w') (ed_workflow_id draft) \<noteq> []"
    "last (events_of (db w') (ed_workflow_id draft)) = draft_row draft (high_water (db w) (ed_workflow_id draft) + 1)"
    by simp_all
  then show ?thesis using append_effect [OF assms(1,2)] assms(3) by (simp add: appended_def)
qed

lemma works_append:
  assumes "schema d0" "wf_db d0" "find_workflow d0 (ed_workflow_id draft) \<noteq> None"
  shows "works (\<lambda>d. d = d0) (append_event draft) (\<lambda>ev d. appended draft d0 d)"
  unfolding works_def
proof (intro allI impI)
  fix w :: "database world" assume q: "quiet w" "db w = d0"
  have "schema (db w) \<and> ring_ok (db w) (ed_workflow_id draft) \<and> find_workflow (db w) (ed_workflow_id draft) \<noteq> None"
    using assms q ring_okI by simp
  with works_append_event q(1) obtain ev w' where "append_event draft w = (Inr ev, w')" "quiet w'" "schema (db w')"
    by (rule worksE)
  then show "\<exists>ev w'. append_event draft w = (Inr ev, w') \<and> quiet w' \<and> appended draft d0 (db w')"
    using append_appended [of w draft ev w'] assms(2) q(2) by auto
qed

lemma works_store: "works P m Q \<Longrightarrow> works P (store m) Q"
  unfolding store_def by (rule works_map_err)

lemma find_workflow_update:
  "update_workflow_state wid st now d = Inr (u, d') \<Longrightarrow> find_workflow d' v = map_option (\<lambda>r. if v = wid
     then r\<lparr>wr_state := st, wr_updated_at_millis := now\<rparr> else r) (find_workflow d v)"
proof -
  assume "update_workflow_state wid st now d = Inr (u, d')"
  then have d': "d' = d\<lparr>t_workflows := map (\<lambda>r. if wr_workflow_id r = wid
             then r\<lparr>wr_state := st, wr_updated_at_millis := now\<rparr> else r) (t_workflows d)\<rparr>"
    by (auto simp: update_workflow_state_def split: if_splits)
  have "find_workflow d' v = map_option (\<lambda>r. if wr_workflow_id r = wid
             then r\<lparr>wr_state := st, wr_updated_at_millis := now\<rparr> else r) (find_workflow d v)"
    unfolding d' find_workflow_def by (simp add: find_map_same)
  also have "\<dots> = map_option (\<lambda>r. if v = wid then r\<lparr>wr_state := st, wr_updated_at_millis := now\<rparr> else r) (find_workflow d v)"
    by (cases "find_workflow d v") (auto simp: find_workflow_def dest: find_SomeD)
  finally show ?thesis .
qed

lemma update_frame:
  "update_workflow_state wid st now d = Inr (u, d') \<Longrightarrow> schema d' = schema d \<and> t_events d' = t_events d \<and>
     t_truncations d' = t_truncations d \<and> t_outbox d' = t_outbox d \<and> t_bindings d' = t_bindings d \<and>
     t_requests d' = t_requests d"
  by (auto simp: update_workflow_state_def split: if_splits)

definition restated :: "string \<Rightarrow> WorkflowState \<Rightarrow> WorkflowRow \<Rightarrow> database \<Rightarrow> database \<Rightarrow> bool" where
  "restated wid st x d d' \<longleftrightarrow> wf_db d' \<and> schema d' \<and> t_events d' = t_events d \<and> t_truncations d' = t_truncations d \<and>
     t_outbox d' = t_outbox d \<and> t_bindings d' = t_bindings d \<and> t_requests d' = t_requests d \<and>
     find_workflow d' wid = Some x \<and> wr_state x = WorkflowState_i32 st \<and>
     (\<exists>row now. find_workflow d wid = Some row \<and> x = row\<lparr>wr_state := WorkflowState_i32 st, wr_updated_at_millis := now\<rparr>) \<and>
     (\<forall>v. v \<noteq> wid \<longrightarrow> find_workflow d' v = find_workflow d v)"

lemma set_state_restated:
  assumes "wf_db (db w)" "set_workflow_state wid st w = (Inr x, w')"
  shows "restated wid st x (db w) (db w')"
proof -
  obtain now row where s: "is_persistable st" "schema (db w)" "find_workflow (db w) wid = Some row"
    "wr_state row \<notin> set TERMINAL_STATES"
    "update_workflow_state wid (WorkflowState_i32 st) now (db w) = Inr ((), db w')" "find_workflow (db w') wid = Some x"
    using assms(2) by (rule set_workflow_state_okE)
  have "x = row\<lparr>wr_state := WorkflowState_i32 st, wr_updated_at_millis := now\<rparr>"
    using find_workflow_update [OF s(5), of wid] s(3,6) by simp
  moreover have "v \<noteq> wid \<Longrightarrow> find_workflow (db w') v = find_workflow (db w) v" for v
    using find_workflow_update [OF s(5), of v] by (simp add: option.map_ident)
  moreover have "wf_db (db w')" using safe_update_state [OF s(5,1,3,4)] assms(1) by (simp add: safe_def)
  ultimately show ?thesis
    using s(2,3,6) update_frame [OF s(5)] by (auto simp: restated_def)
qed

lemma works_set_state:
  assumes "schema d0" "wf_db d0" "is_persistable st" "find_workflow d0 wid = Some row"
    "wr_state row \<notin> set TERMINAL_STATES"
  shows "works (\<lambda>d. d = d0) (set_workflow_state wid st) (\<lambda>x d. restated wid st x d0 d)"
  unfolding works_def
proof (intro allI impI)
  fix w :: "database world" assume q: "quiet w" "db w = d0"
  have st: "WorkflowState_i32 st \<notin> {0, 7}" using assms(3) by (cases st) (simp_all add: is_persistable_def)
  have "\<exists>u d'. update_workflow_state wid (WorkflowState_i32 st) now d0 = Inr (u, d') \<and> schema d' \<and> find_workflow d' wid \<noteq> None" for now
  proof -
    obtain d' where d': "update_workflow_state wid (WorkflowState_i32 st) now d0 = Inr ((), d')"
      using st by (simp add: update_workflow_state_def)
    have "schema d' \<and> find_workflow d' wid \<noteq> None"
      using update_frame [OF d'] find_workflow_update [OF d', of wid] assms(1,4) by simp
    then show ?thesis using d' by blast
  qed
  note upd = this
  have np: "(\<not> is_persistable st) = False" using assms(3) by simp
  have "works (\<lambda>d. d = d0) (set_workflow_state wid st) (\<lambda>_ _. True)"
    unfolding set_workflow_state_def np if_False
  proof (rule works_andthen [where R = "\<lambda>f d. f = Some row \<and> d = d0"], rule works_get_workflow, simp add: assms(1,4))
    fix f
    show "works (\<lambda>d. f = Some row \<and> d = d0) (case f of
          None \<Rightarrow> fail (NotFound (''workflow '' @ wid))
        | Some current \<Rightarrow>
            if wr_state current \<in> set TERMINAL_STATES then
              fail (InvalidState (''workflow '' @ wid @ '' is in terminal state ''
                @ show_int (wr_state current) @ ''; no transitions out''))
            else
              andthen now_millis (\<lambda>now.
              andthen (stmt (update_workflow_state wid (WorkflowState_i32 st) now)) (\<lambda>_.
              andthen (get_workflow wid) (\<lambda>again. case again of
                None \<Rightarrow> fail (NotFound (''workflow '' @ wid))
              | Some row \<Rightarrow> ret row)))) (\<lambda>_ _. True)"
    proof (rule works_assume [where b = "f = Some row"], simp, simp only: option.case if_not_P [OF assms(5)] simp_thms)
      have fin: "works (\<lambda>d. again \<noteq> None \<and> schema d) (case again of None \<Rightarrow> fail (NotFound (''workflow '' @ wid)) | Some row \<Rightarrow> ret row) (\<lambda>_ _. True)" for again :: "WorkflowRow option"
        by (rule works_assume [where b = "again \<noteq> None"]) (auto intro: works_ret)
      show "works (\<lambda>d. d = d0) (andthen now_millis (\<lambda>now.
              andthen (stmt (update_workflow_state wid (WorkflowState_i32 st) now)) (\<lambda>_.
              andthen (get_workflow wid) (\<lambda>again. case again of
                None \<Rightarrow> fail (NotFound (''workflow '' @ wid))
              | Some row \<Rightarrow> ret row)))) (\<lambda>_ _. True)"
        by (rule works_andthen [where R = "\<lambda>_ d. d = d0"], rule works_now, assumption,
            rule works_andthen [where R = "\<lambda>_ d. schema d \<and> find_workflow d wid \<noteq> None"],
            rule works_stmt, use assms(1) upd in blast,
            rule works_andthen [where R = "\<lambda>f d. f \<noteq> None \<and> schema d"], rule works_get_workflow, simp, rule fin)
    qed
  qed
  then have "\<exists>x w'. set_workflow_state wid st w = (Inr x, w') \<and> quiet w'"
    using q by (auto simp: works_def)
  then show "\<exists>x w'. set_workflow_state wid st w = (Inr x, w') \<and> quiet w' \<and> restated wid st x d0 (db w')"
    using set_state_restated [of w] assms(2) q(2) by blast
qed

end
