(* ===== verification/Config.thy ===== *)
theory Config
  imports Json_Props Lifecycle
begin

text \<open>
  calcar-connect/src/config.rs (the \<open>key=value\<close> file and the token file) and the argument parser of
  main.rs. Reading a file is an argument: the text of the I/O error or the content, which
  \<open>read_to_string\<close> checked to be UTF-8.
\<close>

section \<open>Unsigned numbers\<close>

text \<open>\<open>str::parse\<close> for an unsigned type with the given maximum: digits, a leading plus allowed.\<close>

definition parse_unsigned :: "nat \<Rightarrow> string \<Rightarrow> nat option" where
  "parse_unsigned maximum s =
     (let ds = (case s of c # cs \<Rightarrow> if c = CHR ''+'' then cs else s | [] \<Rightarrow> s) in
      if ds = [] then None
      else case digits_val 0 ds of None \<Rightarrow> None | Some n \<Rightarrow> if n \<le> maximum then Some n else None)"

definition u16_max :: nat where "u16_max = 65535"
definition u64_max :: nat where "u64_max = 18446744073709551615"

section \<open>The configuration\<close>

datatype ConnectError =
    ConfigIo string
  | ConfigProblem string string
  | Bind string string
  | ConnectStorage StorageError
  | ConnectLifecycle LifecycleError

record ConnectConfig =
  cc_port :: nat
  cc_token_file :: string
  cc_db_path :: string
  cc_computer_id :: string
  cc_display_name :: string
  cc_owner_device_id :: string
  cc_pubkey_b64 :: string
  cc_fingerprint :: string
  cc_cpu :: string
  cc_ram :: string
  cc_gpu :: string
  cc_disk :: string
  cc_exec_timeout_secs :: nat

type_synonym settings = "(string \<times> string) list"

text \<open>The loop over the lines, numbered from 1; \<open>Inl n\<close> names the first line that is not \<open>key=value\<close>.\<close>

fun read_settings :: "nat \<Rightarrow> string list \<Rightarrow> settings \<Rightarrow> nat + settings" where
  "read_settings n [] m = Inr m"
| "read_settings n (raw # rest) m =
     (let line = trim raw in
      if line = [] \<or> hd line = CHR ''#'' then read_settings (n + 1) rest m
      else case split_once (CHR ''='') line of
        None \<Rightarrow> Inl n
      | Some (key, value) \<Rightarrow> read_settings (n + 1) rest (btree_insert (trim key) (trim value) m))"

definition required :: "string \<Rightarrow> settings \<Rightarrow> string \<Rightarrow> ConnectError + string" where
  "required path m key = (case map_of m key of
       Some value \<Rightarrow> if value \<noteq> [] then Inr value else Inl (ConfigProblem path (''missing required key '' @ key))
     | None \<Rightarrow> Inl (ConfigProblem path (''missing required key '' @ key)))"

definition optional :: "settings \<Rightarrow> string \<Rightarrow> string" where
  "optional m key = (case map_of m key of Some value \<Rightarrow> value | None \<Rightarrow> [])"

definition parse_port :: "string \<Rightarrow> nat option" where
  "parse_port s = (case parse_unsigned u16_max s of Some port \<Rightarrow> if port \<ge> 1 then Some port else None | None \<Rightarrow> None)"

definition parse_timeout :: "string \<Rightarrow> nat" where
  "parse_timeout s = (case parse_unsigned u64_max s of Some secs \<Rightarrow> if secs \<ge> 1 then secs else 30 | None \<Rightarrow> 30)"

definition settings_config :: "string \<Rightarrow> settings \<Rightarrow> ConnectError + ConnectConfig" where
  "settings_config path m = (case required path m ''port'' of Inl e \<Rightarrow> Inl e | Inr port_text \<Rightarrow>
     (case parse_port port_text of None \<Rightarrow> Inl (ConfigProblem path ''port must be 1..=65535'') | Some port \<Rightarrow>
     (case required path m ''computer_id'' of Inl e \<Rightarrow> Inl e | Inr computer_id \<Rightarrow>
     (case required path m ''token_file'' of Inl e \<Rightarrow> Inl e | Inr token_file \<Rightarrow>
     (case required path m ''db_path'' of Inl e \<Rightarrow> Inl e | Inr db_path \<Rightarrow>
       Inr \<lparr>cc_port = port, cc_token_file = token_file, cc_db_path = db_path, cc_computer_id = computer_id,
            cc_display_name = (if optional m ''display_name'' = [] then computer_id else optional m ''display_name''),
            cc_owner_device_id = optional m ''owner_device_id'', cc_pubkey_b64 = optional m ''pubkey_b64'',
            cc_fingerprint = optional m ''fingerprint'', cc_cpu = optional m ''cpu'', cc_ram = optional m ''ram'',
            cc_gpu = optional m ''gpu'', cc_disk = optional m ''disk'',
            cc_exec_timeout_secs = parse_timeout (optional m ''exec_timeout_secs'')\<rparr>)))))"

definition load :: "string \<Rightarrow> string + string \<Rightarrow> ConnectError + ConnectConfig" where
  "load path file = (case file of
       Inl e \<Rightarrow> Inl (ConfigIo e)
     | Inr text \<Rightarrow>
         (case read_settings 1 (lines text) [] of
            Inl n \<Rightarrow> Inl (ConfigProblem path (''line '' @ show_nat n @ '' is not key=value''))
          | Inr m \<Rightarrow> settings_config path m))"

definition read_token :: "string \<Rightarrow> string + string \<Rightarrow> ConnectError + string" where
  "read_token path file = (case file of
       Inl e \<Rightarrow> Inl (ConfigIo e)
     | Inr raw \<Rightarrow> if trim raw = [] then Inl (ConfigProblem path ''token file is empty'') else Inr (trim raw))"

section \<open>Arguments\<close>

text \<open>The loop of \<open>run\<close> in main.rs over the arguments after the program name.\<close>

fun parse_args :: "string list \<Rightarrow> string option \<Rightarrow> nat option \<Rightarrow> string + (string option \<times> nat option)" where
  "parse_args [] config_path port = Inr (config_path, port)"
| "parse_args (a # args) config_path port =
     (if a = ''--config'' then
        (case args of [] \<Rightarrow> Inl ''--config needs a path'' | p # rest \<Rightarrow> parse_args rest (Some p) port)
      else if a = ''--port'' then
        (case args of
           [] \<Rightarrow> Inl ''--port needs a value''
         | v # rest \<Rightarrow> (case parse_port v of None \<Rightarrow> Inl ''--port must be 1..=65535'' | Some n \<Rightarrow> parse_args rest config_path (Some n)))
      else Inl (''unknown argument '' @ a))"

text \<open>The configuration the server starts with: the file's, with the port of the command line.\<close>

definition boot_config :: "string list \<Rightarrow> (string \<Rightarrow> string + string) \<Rightarrow> (string \<Rightarrow> ConnectError \<Rightarrow> string) \<Rightarrow> string + ConnectConfig" where
  "boot_config args read describe = (case parse_args args None None of
       Inl e \<Rightarrow> Inl e
     | Inr (None, _) \<Rightarrow> Inl ''usage: calcar-connect --config <path> [--port <n>]''
     | Inr (Some path, port) \<Rightarrow>
         (case load path (read path) of
            Inl e \<Rightarrow> Inl (describe path e)
          | Inr config \<Rightarrow> Inr (case port of None \<Rightarrow> config | Some n \<Rightarrow> config\<lparr>cc_port := n\<rparr>)))"

section \<open>A configuration that loads is usable\<close>

definition usable :: "ConnectConfig \<Rightarrow> bool" where
  "usable c \<longleftrightarrow> 1 \<le> cc_port c \<and> cc_port c \<le> 65535 \<and> cc_token_file c \<noteq> [] \<and> cc_db_path c \<noteq> [] \<and>
     cc_computer_id c \<noteq> [] \<and> cc_display_name c \<noteq> [] \<and> 1 \<le> cc_exec_timeout_secs c \<and> cc_exec_timeout_secs c \<le> u64_max"

lemma parse_port_bounds: "parse_port s = Some n \<Longrightarrow> 1 \<le> n \<and> n \<le> 65535"
  by (auto simp: parse_port_def parse_unsigned_def u16_max_def Let_def split: option.splits if_splits)

lemma parse_timeout_bounds: "1 \<le> parse_timeout s \<and> parse_timeout s \<le> u64_max"
  by (auto simp: parse_timeout_def parse_unsigned_def u64_max_def Let_def split: option.splits if_splits)

lemma required_ne: "required path m key = Inr v \<Longrightarrow> v \<noteq> []"
  by (auto simp: required_def split: option.splits if_splits)

lemma load_usable: "load path file = Inr c \<Longrightarrow> usable c"
  using parse_timeout_bounds
  by (auto simp: load_def settings_config_def usable_def split: sum.splits option.splits if_splits dest!: required_ne parse_port_bounds)

lemma parse_args_port: "parse_args args cp port = Inr (cp', Some n) \<Longrightarrow> (\<forall>k. port = Some k \<longrightarrow> 1 \<le> k \<and> k \<le> 65535) \<Longrightarrow> 1 \<le> n \<and> n \<le> 65535"
proof (induction args cp port arbitrary: cp' rule: parse_args.induct)
  case (2 a args cp port)
  show ?case
  proof (cases "a = ''--config''")
    case True
    then show ?thesis using 2 by (auto split: list.splits)
  next
    case nc: False
    then obtain v rest k where v: "a = ''--port''" "args = v # rest" "parse_port v = Some k" "parse_args rest cp (Some k) = Inr (cp', Some n)"
      using 2(3) by (auto split: list.splits option.splits if_splits)
    show ?thesis using 2(2) [OF nc v(1,2) v(3) v(4)] parse_port_bounds [OF v(3)] by simp
  qed
qed simp

text \<open>
  The server never starts half configured: a configuration that boots has a port from 1 to
  65535 (from the file or the command line), a token file, a database path, a computer id, a name to
  show and an execution timeout of at least one second.
\<close>

theorem boot_config_usable:
  assumes "boot_config args read describe = Inr c"
  shows "usable c"
proof -
  obtain path port where p: "parse_args args None None = Inr (Some path, port)"
    using assms by (auto simp: boot_config_def split: sum.splits option.splits prod.splits)
  obtain c0 where c0: "load path (read path) = Inr c0" "c = (case port of None \<Rightarrow> c0 | Some n \<Rightarrow> c0\<lparr>cc_port := n\<rparr>)"
    using assms p by (auto simp: boot_config_def split: sum.splits)
  show ?thesis
  proof (cases port)
    case None
    then show ?thesis using load_usable [OF c0(1)] c0(2) by simp
  next
    case (Some n)
    then have "1 \<le> n \<and> n \<le> 65535" using parse_args_port [of args None None "Some path" n] p by simp
    then show ?thesis using load_usable [OF c0(1)] c0(2) Some by (simp add: usable_def)
  qed
qed

theorem boot_config_usable_witness:
  "\<exists>c. boot_config [''--config'', ''c'', ''--port'', ''9'']
       (\<lambda>_. Inr (''port=80'' @ newline # ''computer_id=pc'' @ newline # ''token_file=t'' @ newline # ''db_path=d''))
       (\<lambda>_ _. []) = Inr c \<and> cc_port c = 9 \<and> usable c"
proof -
  let ?c = "\<lparr>cc_port = 9, cc_token_file = ''t'', cc_db_path = ''d'', cc_computer_id = ''pc'', cc_display_name = ''pc'',
    cc_owner_device_id = [], cc_pubkey_b64 = [], cc_fingerprint = [], cc_cpu = [], cc_ram = [], cc_gpu = [], cc_disk = [],
    cc_exec_timeout_secs = 30\<rparr>"
  let ?t = "''port=80'' @ newline # ''computer_id=pc'' @ newline # ''token_file=t'' @ newline # ''db_path=d''"
  have r: "read_settings 1 (lines ?t) [] = Inr [(''computer_id'', ''pc''), (''db_path'', ''d''), (''port'', ''80''), (''token_file'', ''t'')]"
    by code_simp
  have d: "parse_port ''80'' = Some 80" "parse_port ''9'' = Some 9"
    by (simp_all add: parse_port_def parse_unsigned_def u16_max_def digit_val_def)
  have t: "parse_timeout [] = 30" by (simp add: parse_timeout_def parse_unsigned_def)
  have "boot_config [''--config'', ''c'', ''--port'', ''9''] (\<lambda>_. Inr ?t) (\<lambda>_ _. []) = Inr ?c"
    using r by (simp add: boot_config_def load_def settings_config_def required_def optional_def d t)
  with boot_config_usable [OF this] show ?thesis by auto
qed

end
