(* ===== verification/Lifecycle_Props.thy ===== *)
theory Lifecycle_Props
  imports Lifecycle
begin

text \<open>
  Properties of the workflow manager: transitions take effect with their reason on record,
  refusals write nothing, a disconnect neither completes a workflow nor writes, and restart
  recovery decides from the stored binding.
\<close>

section \<open>Recording\<close>

lemma lifecycle_event_type_Some: "is_persistable st \<longleftrightarrow> lifecycle_event_type st \<noteq> None"
  by (cases st) (simp_all add: lifecycle_event_type_def is_persistable_def)

lemma check_storable_persistable: "is_persistable st \<Longrightarrow> check_storable st = ret ()"
  by (cases st) (simp_all add: check_storable_def is_persistable_def)

text \<open>The newest event of \<open>wid\<close> says that the workflow moved to \<open>st\<close> and why.\<close>

definition noted :: "string \<Rightarrow> WorkflowState \<Rightarrow> string \<Rightarrow> database \<Rightarrow> bool" where
  "noted wid st reason d \<longleftrightarrow> (case events_of d wid of [] \<Rightarrow> False
     | r # rs \<Rightarrow> Some (er_type (last (r # rs))) = map_option EventType_i32 (lifecycle_event_type st) \<and>
         er_summary (last (r # rs)) = reason \<and> er_seq_no (last (r # rs)) = high_water d wid)"

lemma appended_noted:
  assumes "appended (lifecycle_draft wid s st t reason occ) d d'" "lifecycle_event_type st = Some t"
  shows "noted wid st reason d'"
  using assms by (cases "events_of d' wid") (auto simp: appended_def noted_def lifecycle_draft_def draft_row_def)

definition recorded :: "string \<Rightarrow> WorkflowState \<Rightarrow> string \<Rightarrow> database \<Rightarrow> database \<Rightarrow> bool" where
  "recorded wid st reason d d' \<longleftrightarrow> wf_db d' \<and> schema d' \<and> t_workflows d' = t_workflows d \<and>
     t_bindings d' = t_bindings d \<and> t_requests d' = t_requests d \<and> noted wid st reason d' \<and>
     high_water d' wid = high_water d wid + 1"

lemma appended_recorded:
  "appended (lifecycle_draft wid s st t reason occ) d d' \<Longrightarrow> lifecycle_event_type st = Some t \<Longrightarrow>
   recorded wid st reason d d'"
  using appended_noted [of wid s st t reason occ d d']
  by (auto simp: appended_def recorded_def lifecycle_draft_def)

lemma works_weaken: "works P m Q \<Longrightarrow> (\<And>x d. Q x d \<Longrightarrow> Q' x d) \<Longrightarrow> works P m Q'"
  unfolding works_def by blast

lemma lifecycle_draft_wid [simp]: "ed_workflow_id (lifecycle_draft wid s st t reason occ) = wid"
  by (simp add: lifecycle_draft_def)

lemma works_record:
  assumes "schema d0" "wf_db d0" "find_workflow d0 wid \<noteq> None" "is_persistable st"
  shows "works (\<lambda>d. d = d0) (lifecycle_record wid s st reason) (\<lambda>_ d. recorded wid st reason d0 d)"
proof -
  obtain t where t: "lifecycle_event_type st = Some t" using assms(4) lifecycle_event_type_Some by auto
  have "works (\<lambda>d. d = d0) (append_event (lifecycle_draft wid s st t reason occ)) (\<lambda>_ d. recorded wid st reason d0 d)" for occ
    by (rule works_weaken [OF works_append [OF assms(1,2)]])
       (use assms(3) t in \<open>auto dest: appended_recorded\<close>)
  then show ?thesis
    unfolding lifecycle_record_def t option.case
    by - (rule works_andthen [where R = "\<lambda>_ d. d = d0"], rule works_now, assumption, rule works_store)
qed

lemma recorded_find: "recorded wid st reason d d' \<Longrightarrow> find_workflow d' v = find_workflow d v"
  by (simp add: recorded_def find_workflow_def)

lemma find_workflow_id: "find_workflow d wid = Some r \<Longrightarrow> wr_workflow_id r = wid"
  unfolding find_workflow_def by (auto dest: find_SomeD)

section \<open>Transitions\<close>

lemma works_transition:
  assumes "schema d0" "wf_db d0" "is_persistable st" "reason \<noteq> []" "find_workflow d0 wid = Some row"
    "wr_state row \<notin> set TERMINAL_STATES"
  shows "works (\<lambda>d. d = d0) (transition wid st reason)
    (\<lambda>x d. \<exists>d1. restated wid st x d0 d1 \<and> recorded wid st reason d1 d)"
  unfolding transition_def check_storable_persistable [OF assms(3)] check_reason_def if_not_P [OF assms(4)]
proof (rule works_andthen [where R = "\<lambda>_ d. d = d0"], rule works_ret, assumption,
    rule works_andthen [where R = "\<lambda>_ d. d = d0"], rule works_ret, assumption,
    rule works_andthen [where R = "\<lambda>x d. restated wid st x d0 d"],
    rule works_store, rule works_set_state [OF assms(1,2,3,5,6)])
  fix x
  have 1: "works (\<lambda>d. d = d1) (lifecycle_record (wr_workflow_id x) (wr_provider_session_id x) st reason)
      (\<lambda>_ d. \<exists>d1. restated wid st x d0 d1 \<and> recorded wid st reason d1 d)" if "restated wid st x d0 d1" for d1
  proof -
    have id: "wr_workflow_id x = wid" using that find_workflow_id by (auto simp: restated_def)
    show ?thesis unfolding id
      by (rule works_weaken [OF works_record]) (use that assms(3) in \<open>auto simp: restated_def\<close>)
  qed
  have "works (\<lambda>d. restated wid st x d0 d) (lifecycle_record (wr_workflow_id x) (wr_provider_session_id x) st reason)
      (\<lambda>_ d. \<exists>d1. restated wid st x d0 d1 \<and> recorded wid st reason d1 d)"
    using 1 unfolding works_def by blast
  then show "works (\<lambda>d. restated wid st x d0 d)
      (andthen (lifecycle_record (wr_workflow_id x) (wr_provider_session_id x) st reason) (\<lambda>_. ret x))
      (\<lambda>x d. \<exists>d1. restated wid st x d0 d1 \<and> recorded wid st reason d1 d)"
    by (rule works_andthen) (rule works_ret)
qed

text \<open>
  C17. A transition of an existing, unfinished workflow to a storable state with a reason takes
  effect: the stored state is the requested one, the row is otherwise unchanged, and the newest
  event of the workflow's ring has the event type of the state and the reason as its summary.
\<close>

theorem transition_takes_effect:
  assumes "quiet w" "schema (db w)" "wf_db (db w)" "is_persistable st" "reason \<noteq> []"
    "find_workflow (db w) wid = Some row" "wr_state row \<notin> set TERMINAL_STATES"
  shows "\<exists>row' w'. transition wid st reason w = (Inr row', w') \<and> find_workflow (db w') wid = Some row' \<and>
    (\<exists>now. row' = row\<lparr>wr_state := WorkflowState_i32 st, wr_updated_at_millis := now\<rparr>) \<and>
    noted wid st reason (db w') \<and> high_water (db w') wid = high_water (db w) wid + 1 \<and> wf_db (db w')"
proof -
  from works_transition [OF assms(2-7)] assms(1) refl
  obtain x w' where "transition wid st reason w = (Inr x, w')" "quiet w'"
    and d1: "\<exists>d1. restated wid st x (db w) d1 \<and> recorded wid st reason d1 (db w')" by (rule worksE)
  moreover obtain d1 where "restated wid st x (db w) d1" "recorded wid st reason d1 (db w')" using d1 by blast
  moreover from this(1) have "high_water d1 wid = high_water (db w) wid"
    by (auto simp: restated_def intro: ring_frame(4))
  ultimately show ?thesis
    using assms(6) recorded_find [of wid st reason d1 "db w'" wid] by (auto simp: restated_def recorded_def)
qed

theorem transition_takes_effect_witness:
  "\<exists>row' w'. transition ''w1'' WaitingInput ''asks'' (calm_world sample_db) = (Inr row', w') \<and>
     wr_state row' = 2 \<and> noted ''w1'' WaitingInput ''asks'' (db w')"
proof -
  obtain row where row: "find_workflow sample_db ''w1'' = Some row" "wr_state row = 1"
    by (simp add: find_workflow_def sample_db_def)
  then show ?thesis
    using transition_takes_effect [of "calm_world sample_db" WaitingInput "''asks''" "''w1''" row]
    by (auto simp: is_persistable_def TERMINAL_STATES_def)
qed

section \<open>Disconnects\<close>

text \<open>An append changes no workflow row, whatever happens to it.\<close>

lemma moves_stmt_keeps:
  assumes "\<And>d x d'. f d = Inr (x, d') \<Longrightarrow> g d' = g d"
  shows "moves (\<lambda>d d'. g d' = g d) (stmt f)"
  by (rule moves_stmt) (auto intro: reflpI assms)

lemma keeps_order: "reflp (\<lambda>d d'. g d' = g d)" "transp (\<lambda>d d'. g d' = g d)"
  by (auto intro: reflpI transpI)

lemma append_keeps_workflows: "moves (\<lambda>d d'. t_workflows d' = t_workflows d) (append_event draft)"
proof -
  note o = keeps_order [of t_workflows]
  have c: "moves (\<lambda>d d'. t_workflows d' = t_workflows d) (cut_ring wid c)" for wid c
    unfolding cut_ring_def
    by (intro moves_intros moves_stmt_keeps o) (auto simp: delete_events_def upsert_truncation_def Let_def)
  have t: "moves (\<lambda>d d'. t_workflows d' = t_workflows d) (trim_ring wid)" for wid
    unfolding trim_ring_def Let_def
    by (intro moves_intros moves_stmt_keeps o c) (auto split: option.splits)
  have "moves (\<lambda>d d'. t_workflows d' = t_workflows d) (append_body draft)"
    unfolding append_body_def
    by (intro moves_intros moves_stmt_keeps o t) (auto dest: insert_event_InrD insert_outbox_InrD)
  then show ?thesis unfolding append_event_def by (intro moves_intros o)
qed

lemma record_keeps_workflows: "moves (\<lambda>d d'. t_workflows d' = t_workflows d) (lifecycle_record wid s st reason)"
  unfolding lifecycle_record_def
  by (intro moves_intros keeps_order append_keeps_workflows)

definition not_completed_by :: "database \<Rightarrow> database \<Rightarrow> bool" where
  "not_completed_by d d' \<longleftrightarrow> (\<forall>v row. find_workflow d v = Some row \<longrightarrow>
     (\<exists>row'. find_workflow d' v = Some row' \<and> (wr_state row' = 4 \<longrightarrow> wr_state row = 4)))"

lemma not_completed_order: "reflp not_completed_by" "transp not_completed_by"
  unfolding not_completed_by_def by (auto intro!: reflpI transpI) metis

lemma set_state_not_completed:
  assumes "st \<noteq> Completed"
  shows "moves not_completed_by (set_workflow_state wid st)"
  unfolding moves_def
proof
  fix w
  obtain r w' where s: "set_workflow_state wid st w = (r, w')" by fastforce
  have "WorkflowState_i32 st \<noteq> 4" using assms by (cases st) auto
  with s have "not_completed_by (db w) (db w')"
  proof (cases rule: set_workflow_state_cases)
    case same
    then show ?thesis using reflpD [OF not_completed_order(1)] by simp
  next
    case (changed now row)
    then show ?thesis using find_workflow_update [OF changed(4)] \<open>WorkflowState_i32 st \<noteq> 4\<close>
      by (auto simp: not_completed_by_def)
  qed
  then show "not_completed_by (db w) (db (snd (set_workflow_state wid st w)))" by (simp add: s)
qed

lemma check_moves: "reflp R \<Longrightarrow> moves R (check_storable st)" "reflp R \<Longrightarrow> moves R (check_reason reason)"
  by (cases st; simp add: check_storable_def check_reason_def moves_ret moves_fail)+

text \<open>
  C18. A phone that disconnects never completes a workflow: whatever is asked on the disconnect
  path, under whatever faults, no workflow that was not completed is stored as completed
  afterwards, and none disappears; asking for completion is refused without a write.
\<close>

theorem disconnect_never_completes:
  assumes "transition_on_disconnect wid st reason w = (r, w')"
  shows "not_completed_by (db w) (db w') \<and>
    (st = Completed \<longrightarrow> (\<exists>m. r = Inl (Refused m)) \<and> w' = w)"
proof -
  have k: "moves not_completed_by (lifecycle_record wid' s st reason)" for wid' s
    by (rule moves_mono [OF record_keeps_workflows]) (auto simp: not_completed_by_def find_workflow_def)
  have "moves not_completed_by (transition_on_disconnect wid st reason)"
    unfolding transition_on_disconnect_def transition_def
    by (intro moves_intros not_completed_order check_moves set_state_not_completed k)
  then have "not_completed_by (db w) (db w')" using assms by (rule movesD)
  moreover have "st = Completed \<Longrightarrow> (\<exists>m. r = Inl (Refused m)) \<and> w' = w"
    using assms by (auto simp: transition_on_disconnect_def fail_def)
  ultimately show ?thesis by blast
qed

theorem disconnect_never_completes_witness:
  "\<exists>m w'. transition_on_disconnect ''w1'' Completed ''gone'' (calm_world sample_db) = (Inl (Refused m), w') \<and>
     w' = calm_world sample_db \<and> not_completed_by sample_db (db w')"
proof -
  obtain r w' where run: "transition_on_disconnect ''w1'' Completed ''gone'' (calm_world sample_db) = (r, w')" by fastforce
  show ?thesis using disconnect_never_completes [OF run] run by auto
qed

section \<open>Projection and recovery\<close>

lemma works_stored_state:
  assumes "schema d0" "find_workflow d0 wid = Some row" "WorkflowState_from_i32 (wr_state row) = Some st"
  shows "works (\<lambda>d. d = d0) (stored_state wid) (\<lambda>x d. x = (row, st) \<and> d = d0)"
  unfolding stored_state_def
proof (rule works_andthen [where R = "\<lambda>f d. f = Some row \<and> d = d0"], rule works_store,
    rule works_get_workflow, simp add: assms)
  fix f
  show "works (\<lambda>d. f = Some row \<and> d = d0) (case f of
       None \<Rightarrow> fail (Storage (NotFound (''workflow '' @ wid)))
     | Some stored \<Rightarrow>
         (case WorkflowState_from_i32 (wr_state stored) of
            None \<Rightarrow> fail (Refused (''stored state '' @ show_int (wr_state stored) @ '' for workflow ''
                      @ wid @ '' is not a known state''))
          | Some state \<Rightarrow> ret (stored, state))) (\<lambda>x d. x = (row, st) \<and> d = d0)"
    by (rule works_assume [where b = "f = Some row"]) (auto simp: assms(3) intro: works_ret)
qed

lemma stored_valid:
  assumes "wf_db d" "find_workflow d wid = Some row"
  obtains st where "WorkflowState_from_i32 (wr_state row) = Some st" "is_persistable st" "wr_state row = WorkflowState_i32 st"
proof -
  have "row \<in> set (t_workflows d)" using assms(2) by (auto simp: find_workflow_def dest: find_SomeD)
  then have "valid_state (wr_state row)" using assms(1) by (simp add: wf_db_def wf_workflows_def)
  then show ?thesis using that
    by (auto simp: valid_state_def WorkflowState_from_i32_def split: option.splits if_splits)
qed

lemma terminal_states: "is_persistable st \<Longrightarrow> st \<in> {Completed, Failed, Stopped} \<longleftrightarrow> WorkflowState_i32 st \<in> set TERMINAL_STATES"
  by (cases st) (simp_all add: TERMINAL_STATES_def is_persistable_def)

text \<open>
  C22. The projection shown while the phone is away: on a well-formed file it exists for every
  workflow, shows a finished workflow in its state and every other one as disconnected-running,
  and writes nothing.
\<close>

theorem projection_correct:
  assumes "quiet w" "schema (db w)" "wf_db (db w)" "find_workflow (db w) wid = Some row"
  shows "\<exists>st view w'. project_on_disconnect wid w = (Inr view, w') \<and> db w' = db w \<and> wv_stored view = row \<and>
    wr_state row = WorkflowState_i32 st \<and>
    wv_projected view = (if wr_state row \<in> set TERMINAL_STATES then st else DisconnectedRunning)"
proof -
  obtain st where st: "WorkflowState_from_i32 (wr_state row) = Some st" "is_persistable st" "wr_state row = WorkflowState_i32 st"
    using assms(3,4) by (rule stored_valid)
  have np: "st \<notin> {WorkflowState.Unspecified, DisconnectedRunning}" using st(2) by (simp add: is_persistable_def)
  let ?Q = "\<lambda>view d. d = db w \<and> wv_stored view = row \<and>
      wv_projected view = (if st \<in> {Completed, Failed, Stopped} then st else DisconnectedRunning)"
  have "works (\<lambda>d. d = db w) (project_on_disconnect wid) ?Q"
    unfolding project_on_disconnect_def
  proof (rule works_andthen [OF works_stored_state [OF assms(2,4) st(1)]])
    fix x
    show "works (\<lambda>d. x = (row, st) \<and> d = db w) (case x of (stored, state) \<Rightarrow>
       if state \<in> {Completed, Failed, Stopped} then ret \<lparr>wv_stored = stored, wv_projected = state\<rparr>
       else if state \<in> {WorkflowState.Unspecified, DisconnectedRunning} then fail (must_never_persist wid state)
       else ret \<lparr>wv_stored = stored, wv_projected = DisconnectedRunning\<rparr>) ?Q"
      by (rule works_assume [where b = "x = (row, st)"]) (use np in \<open>auto intro!: works_ret\<close>)
  qed
  from this assms(1) refl obtain view w' where "project_on_disconnect wid w = (Inr view, w')" "?Q view (db w')"
    by (rule worksE)
  then show ?thesis using st(3) terminal_states [OF st(2)] by auto
qed

theorem projection_correct_witness:
  "\<exists>view w'. project_on_disconnect ''w1'' (calm_world sample_db) = (Inr view, w') \<and> db w' = sample_db \<and>
     wv_projected view = DisconnectedRunning"
proof -
  obtain row where row: "find_workflow sample_db ''w1'' = Some row" "wr_state row = 1"
    by (simp add: find_workflow_def sample_db_def)
  then show ?thesis
    using projection_correct [of "calm_world sample_db" "''w1''" row] by (auto simp: TERMINAL_STATES_def)
qed

lemma events_after_all:
  assumes "wf_db d"
  shows "take (nat u32_max) (sort_key er_seq_no (filter (\<lambda>r. 0 < er_seq_no r) (events_of d wid))) = events_of d wid"
proof -
  note ok = ring_okI [OF assms, of wid]
  have "length (events_of d wid) \<le> nat u32_max"
    using ring_okD(6) [OF ok] by (simp add: ring_count_def MAX_RING_EVENTS_def u32_max_def)
  moreover have "nat (0 - cut_of d wid) = 0" using ring_okD(1) [OF ok] by simp
  ultimately show ?thesis
    using window_filter_after [OF ring_window [OF ok], of 0] window_sorted(1) [OF ring_window [OF ok]] by simp
qed

lemma upto_last: "i \<le> j \<Longrightarrow> last [i..j] = (j :: int)"
  by (simp add: upto_rec2)

lemma last_seq:
  assumes "wf_db d" "events_of d wid \<noteq> []" "high_water d wid \<le> i64_max"
  shows "we_seq_no (last (map map_event (events_of d wid))) = high_water d wid"
proof -
  note ok = ring_okI [OF assms(1), of wid]
  have "er_seq_no (last (events_of d wid)) = last (map er_seq_no (events_of d wid))"
    using assms(2) by (simp add: last_map)
  also have "\<dots> = high_water d wid"
  proof -
    have "1 \<le> int (length (events_of d wid))" using assms(2) by (cases "events_of d wid") simp_all
    then have "last [cut_of d wid + 1 .. cut_of d wid + int (length (events_of d wid))]
        = cut_of d wid + int (length (events_of d wid))" by (intro upto_last) linarith
    then show ?thesis unfolding ring_window [OF ok] by (simp add: high_water_def ring_count_def)
  qed
  finally show ?thesis
    using assms ring_okD(1) [OF ok] by (simp add: last_map map_event_def as_u64_id high_water_def ring_count_def)
qed

definition recovery_spec :: "database \<Rightarrow> string \<Rightarrow> WorkflowState \<Rightarrow> RecoveryDecision" where
  "recovery_spec d wid st =
     (if st \<in> {Completed, Failed, Stopped} then AlreadyTerminal st
      else case find_binding d wid of
        Some b \<Rightarrow> Reattach (sb_provider_session_id b) (sb_resume_pointer b) (length (events_of d wid))
                   (if events_of d wid = [] then None else Some (high_water d wid))
      | None \<Rightarrow> CleanFailed (recovery_reason wid))"

lemma works_clean_fail:
  assumes "schema d0" "wf_db d0" "find_workflow d0 wid = Some row" "wr_state row \<notin> set TERMINAL_STATES"
  shows "works (\<lambda>d. d = d0) (andthen (store (set_workflow_state wid Failed)) (\<lambda>_.
             andthen (lifecycle_record wid s Failed reason) (\<lambda>_. ret (CleanFailed reason))))
    (\<lambda>dec d. dec = CleanFailed reason \<and> (\<exists>x d1. restated wid Failed x d0 d1 \<and> recorded wid Failed reason d1 d))"
proof (rule works_andthen [OF works_store [OF works_set_state [OF assms(1,2) _ assms(3,4)]]])
  show "is_persistable Failed" by (simp add: is_persistable_def)
  fix x
  have "works (\<lambda>d. d = d1) (lifecycle_record wid s Failed reason)
      (\<lambda>_ d. \<exists>x d1. restated wid Failed x d0 d1 \<and> recorded wid Failed reason d1 d)" if "restated wid Failed x d0 d1" for d1
    by (rule works_weaken [OF works_record]) (use that in \<open>auto simp: restated_def is_persistable_def\<close>)
  then have "works (\<lambda>d. restated wid Failed x d0 d) (lifecycle_record wid s Failed reason)
      (\<lambda>_ d. \<exists>x d1. restated wid Failed x d0 d1 \<and> recorded wid Failed reason d1 d)"
    unfolding works_def by blast
  then show "works (\<lambda>d. restated wid Failed x d0 d) (andthen (lifecycle_record wid s Failed reason) (\<lambda>_. ret (CleanFailed reason)))
    (\<lambda>dec d. dec = CleanFailed reason \<and> (\<exists>x d1. restated wid Failed x d0 d1 \<and> recorded wid Failed reason d1 d))"
    by (rule works_andthen) (rule works_ret, simp)
qed

lemma works_reattach_or_fail:
  assumes "schema d0" "wf_db d0" "find_workflow d0 wid = Some row" "wr_state row \<notin> set TERMINAL_STATES"
    "st \<notin> {Completed, Failed, Stopped}" "high_water d0 wid \<le> i64_max"
  shows "works (\<lambda>d. d = d0) (reattach_or_fail wid row
      (map_option (\<lambda>r. (sb_provider_session_id r, sb_resume_pointer r)) (find_binding d0 wid))
      (map map_event (events_of d0 wid))) (\<lambda>dec d. dec = recovery_spec d0 wid st \<and>
    (case dec of CleanFailed reason \<Rightarrow> \<exists>x d1. restated wid Failed x d0 d1 \<and> recorded wid Failed reason d1 d | _ \<Rightarrow> d = d0))"
proof (cases "find_binding d0 wid")
  case None
  then have "recovery_spec d0 wid st = CleanFailed (recovery_reason wid)" using assms(5) by (simp add: recovery_spec_def)
  then show ?thesis unfolding reattach_or_fail_def None option.map option.case
    by (intro works_weaken [OF works_clean_fail [OF assms(1-4)]]) auto
next
  case (Some r)
  let ?es = "map map_event (events_of d0 wid)"
  have "recovery_spec d0 wid st = Reattach (sb_provider_session_id r) (sb_resume_pointer r) (length ?es)
      (if ?es = [] then None else Some (we_seq_no (last ?es)))"
    using Some assms(5) last_seq [OF assms(2) _ assms(6)] by (auto simp: recovery_spec_def)
  then show ?thesis unfolding reattach_or_fail_def Some option.map option.case prod.case by (intro works_ret) simp
qed

lemma works_assume_eq: "works P (k c) Q \<Longrightarrow> works (\<lambda>d. x = c \<and> P d) (k x) Q"
  by (auto simp: works_def)

lemma works_recover_live:
  assumes "schema d0" "wf_db d0" "find_workflow d0 wid = Some row" "wr_state row \<notin> set TERMINAL_STATES"
    "st \<notin> {Completed, Failed, Stopped}" "high_water d0 wid \<le> i64_max"
  shows "works (\<lambda>d. d = d0) (recover_live wid row) (\<lambda>dec d. dec = recovery_spec d0 wid st \<and>
    (case dec of CleanFailed reason \<Rightarrow> \<exists>x d1. restated wid Failed x d0 d1 \<and> recorded wid Failed reason d1 d | _ \<Rightarrow> d = d0))"
  unfolding recover_live_def get_session_binding_def events_after_def
  by (rule works_andthen [where R = "\<lambda>b d. b = map_option (\<lambda>r. (sb_provider_session_id r, sb_resume_pointer r)) (find_binding d0 wid) \<and> d = d0"],
      rule works_store, rule works_query, simp add: assms(1), rule works_assume_eq,
      rule works_andthen [where R = "\<lambda>rs d. rs = map map_event (events_of d0 wid) \<and> d = d0"],
      rule works_store, rule works_query, simp add: assms(1) events_after_all [OF assms(2)],
      rule works_assume_eq, rule works_reattach_or_fail [OF assms])

lemma works_reconcile:
  assumes "schema d0" "wf_db d0" "find_workflow d0 wid = Some row" "WorkflowState_from_i32 (wr_state row) = Some st"
    "is_persistable st" "wr_state row = WorkflowState_i32 st" "high_water d0 wid \<le> i64_max"
  shows "works (\<lambda>d. d = d0) (reconcile wid) (\<lambda>dec d. dec = recovery_spec d0 wid st \<and>
    (case dec of CleanFailed reason \<Rightarrow> \<exists>x d1. restated wid Failed x d0 d1 \<and> recorded wid Failed reason d1 d | _ \<Rightarrow> d = d0))"
    (is "works _ _ ?Q")
  unfolding reconcile_def
proof (rule works_andthen [OF works_stored_state [OF assms(1,3,4)]], rule works_assume_eq, unfold prod.case, rule works_if)
  assume "st \<in> {Completed, Failed, Stopped}"
  then have "recovery_spec d0 wid st = AlreadyTerminal st" by (simp add: recovery_spec_def)
  then show "works (\<lambda>d. d = d0) (ret (AlreadyTerminal st)) ?Q" by (intro works_ret) simp
next
  assume nt: "st \<notin> {Completed, Failed, Stopped}"
  have np: "st \<notin> {WorkflowState.Unspecified, DisconnectedRunning}" using assms(5) by (simp add: is_persistable_def)
  have "wr_state row \<notin> set TERMINAL_STATES" using terminal_states [OF assms(5)] nt assms(6) by simp
  then show "works (\<lambda>d. d = d0) (if st \<in> {WorkflowState.Unspecified, DisconnectedRunning} then
         fail (must_never_persist wid st) else recover_live wid row) ?Q"
    unfolding if_not_P [OF np] using nt assms(7) by (rule works_recover_live [OF assms(1-3)])
qed

text \<open>
  C16. Restart recovery decides from what is stored, in every case and without ever failing on a
  well-formed file: a finished workflow is left alone; with a session binding the caller is told
  to reattach to that session, with the number of stored events and the high-water mark to resume
  from, and nothing is written; without one the workflow is stored as failed, with the reason
  as its newest event, and recovering again then finds it finished.
\<close>

theorem reconcile_correct:
  assumes "quiet w" "schema (db w)" "wf_db (db w)" "find_workflow (db w) wid = Some row"
    "high_water (db w) wid < i64_max"
  shows "\<exists>st dec w'. reconcile wid w = (Inr dec, w') \<and> wr_state row = WorkflowState_i32 st \<and>
    dec = recovery_spec (db w) wid st \<and>
    (case dec of
       CleanFailed reason \<Rightarrow> noted wid Failed reason (db w') \<and>
         (\<exists>row'. find_workflow (db w') wid = Some row' \<and> wr_state row' = 5) \<and>
         (\<exists>w''. reconcile wid w' = (Inr (AlreadyTerminal Failed), w'') \<and> db w'' = db w')
     | _ \<Rightarrow> db w' = db w)"
proof -
  obtain st where st: "WorkflowState_from_i32 (wr_state row) = Some st" "is_persistable st" "wr_state row = WorkflowState_i32 st"
    using assms(3,4) by (rule stored_valid)
  have hw: "high_water (db w) wid \<le> i64_max" using assms(5) by simp
  from works_reconcile [OF assms(2-4) st hw] assms(1) refl
  obtain dec w' where r: "reconcile wid w = (Inr dec, w')" "quiet w'" and q: "dec = recovery_spec (db w) wid st \<and>
      (case dec of CleanFailed reason \<Rightarrow> \<exists>x d1. restated wid Failed x (db w) d1 \<and> recorded wid Failed reason d1 (db w')
       | _ \<Rightarrow> db w' = db w)" by (rule worksE)
  have again: "noted wid Failed reason (db w') \<and> (\<exists>row'. find_workflow (db w') wid = Some row' \<and> wr_state row' = 5) \<and>
      (\<exists>w''. reconcile wid w' = (Inr (AlreadyTerminal Failed), w'') \<and> db w'' = db w')"
    if "restated wid Failed x (db w) d1" "recorded wid Failed reason d1 (db w')" for x d1 reason
  proof -
    have x: "find_workflow (db w') wid = Some x" "wr_state x = 5"
      using that recorded_find [OF that(2), of wid] by (auto simp: restated_def)
    have "high_water d1 wid = high_water (db w) wid"
      using that(1) by (auto simp: restated_def intro: ring_frame(4))
    then have d: "schema (db w')" "wf_db (db w')" "high_water (db w') wid \<le> i64_max" "noted wid Failed reason (db w')"
      using that(2) assms(5) by (simp_all add: recorded_def)
    have f: "WorkflowState_from_i32 (wr_state x) = Some Failed" "is_persistable Failed" "wr_state x = WorkflowState_i32 Failed"
      by (simp_all add: x(2) WorkflowState_from_i32_def is_persistable_def)
    from works_reconcile [OF d(1,2) x(1) f d(3)] r(2) refl
    obtain dec' w'' where "reconcile wid w' = (Inr dec', w'')" "dec' = recovery_spec (db w') wid Failed \<and>
      (case dec' of CleanFailed reason \<Rightarrow> \<exists>x d1. restated wid Failed x (db w') d1 \<and> recorded wid Failed reason d1 (db w'')
       | _ \<Rightarrow> db w'' = db w')" by (rule worksE)
    then show ?thesis using x d(4) by (auto simp: recovery_spec_def)
  qed
  show ?thesis using r(1) q st(3) again
    by (intro exI [of _ st] exI [of _ dec] exI [of _ w']) (auto split: RecoveryDecision.splits)
qed

theorem reconcile_correct_witness:
  "\<exists>dec w'. reconcile ''w1'' (calm_world sample_db) = (Inr dec, w') \<and>
     dec = CleanFailed (recovery_reason ''w1'') \<and> noted ''w1'' Failed (recovery_reason ''w1'') (db w')"
proof -
  obtain row where row: "find_workflow sample_db ''w1'' = Some row" "wr_state row = 1"
    by (simp add: find_workflow_def sample_db_def)
  have b: "find_binding sample_db ''w1'' = None" by (simp add: find_binding_def sample_db_def fresh_db_def)
  have run: "WorkflowState_i32 st = 1 \<Longrightarrow> st = Running" for st by (cases st) auto
  show ?thesis
    using reconcile_correct [of "calm_world sample_db" "''w1''" row] row run b
    by (auto simp: i64_max_def recovery_spec_def)
qed

end
