(* ===== verification/Router.thy ===== *)
theory Router
  imports Requests "HOL-Library.AList"
begin

text \<open>
  calcar-workflow/src/router.rs: the input router. Its counters are association lists with one
  entry per key (a \<open>HashMap<String, u64>\<close>); an early return leaves them as they were. Its durable
  state is the pending requests of the storage engine.
\<close>

section \<open>The router\<close>

datatype RouteOutcome = Delivered | Duplicate

type_synonym counts = "(string \<times> nat) list"

record InputRouter =
  ir_delivered :: counts
  ir_duplicates :: counts

definition router_new :: InputRouter where
  "router_new = \<lparr>ir_delivered = [], ir_duplicates = []\<rparr>"

definition count_for :: "counts \<Rightarrow> string \<Rightarrow> nat" where
  "count_for counts workflow_id = (case map_of counts workflow_id of None \<Rightarrow> 0 | Some n \<Rightarrow> n)"

definition bump :: "counts \<Rightarrow> string \<Rightarrow> counts" where
  "bump counts workflow_id = AList.update workflow_id (count_for counts workflow_id + 1) counts"

definition storage_key :: "string \<Rightarrow> string \<Rightarrow> string" where
  "storage_key workflow_id input_id = ''input:'' @ workflow_id @ '':'' @ input_id"

text \<open>Claiming the key found it taken: confirm a half-claimed row or drop the repeat.\<close>

definition redeliver :: "InputRouter \<Rightarrow> string \<Rightarrow> string \<Rightarrow> StorageError \<Rightarrow> (RouteOutcome \<times> InputRouter) store_io" where
  "redeliver router workflow_id key first =
     attempt (resolve_pending_request key []) (\<lambda>resolved. case resolved of
       Inr _ \<Rightarrow> ret (Delivered, router\<lparr>ir_delivered := bump (ir_delivered router) workflow_id\<rparr>)
     | Inl error \<Rightarrow>
         (case error of
            AlreadyResolved _ \<Rightarrow> ret (Duplicate, router\<lparr>ir_duplicates := bump (ir_duplicates router) workflow_id\<rparr>)
          | StorageError.Expired _ \<Rightarrow> ret (Duplicate, router\<lparr>ir_duplicates := bump (ir_duplicates router) workflow_id\<rparr>)
          | _ \<Rightarrow> fail first))"

definition deliver :: "InputRouter \<Rightarrow> string \<Rightarrow> string \<Rightarrow> (RouteOutcome \<times> InputRouter) store_io" where
  "deliver router workflow_id input_id =
     (if workflow_id = [] then fail (InvalidState ''workflow id must not be empty'')
      else if input_id = [] then fail (InvalidState ''input id must not be empty'')
      else
        let key = storage_key workflow_id input_id in
        attempt (create_pending_request key workflow_id Input None) (\<lambda>created. case created of
          Inr _ \<Rightarrow>
            andthen (resolve_pending_request key []) (\<lambda>_.
            ret (Delivered, router\<lparr>ir_delivered := bump (ir_delivered router) workflow_id\<rparr>))
        | Inl first \<Rightarrow> redeliver router workflow_id key first))"

definition delivered_for :: "InputRouter \<Rightarrow> string \<Rightarrow> nat" where
  "delivered_for router workflow_id = count_for (ir_delivered router) workflow_id"

definition duplicates_for :: "InputRouter \<Rightarrow> string \<Rightarrow> nat" where
  "duplicates_for router workflow_id = count_for (ir_duplicates router) workflow_id"

definition totals :: "InputRouter \<Rightarrow> nat \<times> nat" where
  "totals router = (sum_list (map snd (ir_delivered router)), sum_list (map snd (ir_duplicates router)))"

definition forget_workflow :: "InputRouter \<Rightarrow> string \<Rightarrow> (nat \<times> nat) \<times> InputRouter" where
  "forget_workflow router workflow_id =
     ((delivered_for router workflow_id, duplicates_for router workflow_id),
      \<lparr>ir_delivered = AList.delete workflow_id (ir_delivered router),
       ir_duplicates = AList.delete workflow_id (ir_duplicates router)\<rparr>)"

section \<open>What a delivery did\<close>

lemma runs_redeliver [moves_intros]: "moves storage_run (redeliver router wid key first)"
  unfolding redeliver_def
proof (rule moves_attempt [OF transp_run runs_storage(8)])
  fix r :: "StorageError + unit"
  show "moves storage_run (case r of
       Inr _ \<Rightarrow> ret (Delivered, router\<lparr>ir_delivered := bump (ir_delivered router) wid\<rparr>)
     | Inl error \<Rightarrow>
         (case error of
            AlreadyResolved _ \<Rightarrow> ret (Duplicate, router\<lparr>ir_duplicates := bump (ir_duplicates router) wid\<rparr>)
          | StorageError.Expired _ \<Rightarrow> ret (Duplicate, router\<lparr>ir_duplicates := bump (ir_duplicates router) wid\<rparr>)
          | _ \<Rightarrow> fail first))"
    by (auto split: sum.split StorageError.split intro: moves_ret moves_fail)
qed

lemma runs_deliver [moves_intros]: "moves storage_run (deliver router wid iid)"
  unfolding deliver_def Let_def by (intro moves_intros reflp_run transp_run)

text \<open>
  A delivery that reports \<open>Delivered\<close> resolved the key in a file reached from the one it started
  with, and ended right there; one that reports \<open>Duplicate\<close> was refused by a resolve.
\<close>

lemma redeliverE:
  assumes "redeliver router wid key first w = (Inr (outcome, router'), w')"
  obtains (delivered) "outcome = Delivered" "resolve_pending_request key [] w = (Inr (), w')"
      "router' = router\<lparr>ir_delivered := bump (ir_delivered router) wid\<rparr>"
  | (duplicate) e where "outcome = Duplicate" "resolve_pending_request key [] w = (Inl e, w')"
      "router' = router\<lparr>ir_duplicates := bump (ir_duplicates router) wid\<rparr>"
proof -
  obtain r w1 where r: "resolve_pending_request key [] w = (r, w1)" by fastforce
  show ?thesis
  proof (cases r)
    case (Inr u)
    then show ?thesis using assms r delivered by (simp add: redeliver_def attempt_apply ret_apply)
  next
    case (Inl e)
    then show ?thesis using assms r duplicate
      by (cases e) (simp_all add: redeliver_def attempt_apply ret_apply fail_apply)
  qed
qed

lemma deliverE:
  assumes "deliver router wid iid w = (Inr (outcome, router'), w')"
  obtains (delivered) w1 where "outcome = Delivered" "storage_run (db w) (db w1)"
      "resolve_pending_request (storage_key wid iid) [] w1 = (Inr (), w')"
      "router' = router\<lparr>ir_delivered := bump (ir_delivered router) wid\<rparr>"
  | (duplicate) w1 e where "outcome = Duplicate" "storage_run (db w) (db w1)"
      "resolve_pending_request (storage_key wid iid) [] w1 = (Inl e, w')"
      "router' = router\<lparr>ir_duplicates := bump (ir_duplicates router) wid\<rparr>"
proof -
  have ids: "wid \<noteq> []" "iid \<noteq> []" using assms by (auto simp: deliver_def fail_def split: if_splits)
  obtain c w1 where c: "create_pending_request (storage_key wid iid) wid Input None w = (c, w1)" by fastforce
  have run: "storage_run (db w) (db w1)" using runs_storage(7) c by (rule movesD)
  show ?thesis
  proof (cases c)
    case (Inr u)
    then have "andthen (resolve_pending_request (storage_key wid iid) []) (\<lambda>_.
            ret (Delivered, router\<lparr>ir_delivered := bump (ir_delivered router) wid\<rparr>)) w1 = (Inr (outcome, router'), w')"
      using assms c ids by (simp add: deliver_def attempt_apply Let_def)
    then show ?thesis using delivered run by (elim andthen_okE) (auto simp: ret_apply)
  next
    case (Inl e)
    then have "redeliver router wid (storage_key wid iid) e w1 = (Inr (outcome, router'), w')"
      using assms c ids by (simp add: deliver_def attempt_apply Let_def)
    then show ?thesis using run by (cases rule: redeliverE) (auto intro: delivered duplicate)
  qed
qed

text \<open>
  C7. An input is delivered at most once, for good: after a delivery reported \<open>Delivered\<close>, no
  later delivery of the same input id to the same workflow reports it again, whatever ran in
  between, under whatever faults, with the same router or with a fresh one after a restart.
\<close>

theorem deliver_at_most_once:
  assumes "wf_db (db w)" "deliver router wid iid w = (Inr (Delivered, router'), w1)" "storage_run (db w1) (db w2)"
  shows "deliver router2 wid iid w2 \<noteq> (Inr (Delivered, router3), w3)"
proof
  assume d2: "deliver router2 wid iid w2 = (Inr (Delivered, router3), w3)"
  obtain v where v: "storage_run (db w) (db v)" "resolve_pending_request (storage_key wid iid) [] v = (Inr (), w1)"
    using assms(2) by (cases rule: deliverE) auto
  obtain v2 where v2: "storage_run (db w2) (db v2)" "resolve_pending_request (storage_key wid iid) [] v2 = (Inr (), w3)"
    using d2 by (cases rule: deliverE) auto
  have "storage_run (db w1) (db v2)" using assms(3) v2(1) transp_run by (meson transpD)
  then show False
    using requests.resolved_once [OF run_wf [OF v(1) assms(1)] v(2)] v2(2) by blast
qed

text \<open>The answer of a delivery when the engine does not fail.\<close>

definition deliver_answer :: "database \<Rightarrow> string \<Rightarrow> string \<Rightarrow> RouteOutcome" where
  "deliver_answer d wid iid = (if settled d (storage_key wid iid) then Duplicate else Delivered)"

lemma redeliver_quiet:
  assumes "quiet w" "schema (db w)" "wf_db (db w)" "find_request (db w) key = Some r" "pr_expires_at_millis r = None"
  shows "\<exists>router' w'. redeliver router wid key first w =
    (Inr (if settled (db w) key then Duplicate else Delivered, router'), w') \<and> quiet w'"
proof -
  obtain w' where w': "resolve_pending_request key [] w = (resolve_answer (db w) (world_now w) key, w')" "quiet w'"
    using resolve_quiet [OF assms(1-3)] by blast
  have "r \<in> set (t_requests (db w))" using assms(4) by (auto simp: find_request_def dest: find_SomeD)
  then have "pr_state r \<in> {1, 2, 3}" using assms(3) by (simp add: wf_db_def wf_requests_def wf_request_def)
  then show ?thesis using w' assms(4,5)
    by (auto simp: redeliver_def attempt_apply resolve_answer_def settled_def overdue_def ret_apply)
qed

lemma deliver_quiet:
  assumes "quiet w" "schema (db w)" "wf_db (db w)" "find_workflow (db w) wid \<noteq> None" "wid \<noteq> []" "iid \<noteq> []"
    "\<forall>r. find_request (db w) (storage_key wid iid) = Some r \<longrightarrow> pr_expires_at_millis r = None"
  shows "\<exists>router' w'. deliver router wid iid w = (Inr (deliver_answer (db w) wid iid, router'), w') \<and> quiet w'"
proof -
  let ?key = "storage_key wid iid"
  obtain w1 where w1: "create_pending_request ?key wid Input None w =
      (if find_request (db w) ?key = None then Inr () else Inl (Sqlite ConstraintViolation), w1)"
    "quiet w1" "schema (db w1)" "find_request (db w) ?key \<noteq> None \<longrightarrow> db w1 = db w"
    "find_request (db w) ?key = None \<longrightarrow> find_request (db w1) ?key =
         Some \<lparr>pr_request_id = ?key, pr_workflow_id = wid, pr_kind = RequestKind_i32 Input, pr_state = 1,
          pr_created_at_millis = world_now w, pr_expires_at_millis = None, pr_resolved_at_millis = None,
          pr_resolve_payload = None\<rparr>"
    using create_request_quiet [OF assms(1,2,4)] by blast
  have wf1: "wf_db (db w1)" using run_wf [OF movesD [OF runs_storage(7) w1(1)] assms(3)] .
  show ?thesis
  proof (cases "find_request (db w) ?key")
    case None
    obtain w' where "resolve_pending_request ?key [] w1 = (resolve_answer (db w1) (world_now w1) ?key, w')" "quiet w'"
      using resolve_quiet [OF w1(2,3) wf1] by blast
    then show ?thesis
      using assms(5,6) w1(1,5) None
      by (simp add: deliver_def attempt_apply andthen_apply ret_apply resolve_answer_def overdue_def deliver_answer_def
          settled_def Let_def)
  next
    case (Some r)
    then have "db w1 = db w" "pr_expires_at_millis r = None" using w1(4) assms(7) by auto
    then show ?thesis
      using redeliver_quiet [OF w1(2,3) wf1, of ?key r router wid] Some assms(5,6) w1(1)
      by (auto simp: deliver_def attempt_apply deliver_answer_def Let_def)
  qed
qed

text \<open>
  C8. Nothing is lost and nothing is refused for no reason: when the engine does not fail, an
  input with an id for an existing workflow is always answered. It is delivered exactly when its
  key is not settled yet (never seen, or claimed by an attempt that died before confirming) and
  dropped as a duplicate exactly when it is; the matching counter of the workflow rises by one
  and the other counters stay.
\<close>

theorem deliver_answers:
  assumes "quiet w" "schema (db w)" "wf_db (db w)" "find_workflow (db w) wid \<noteq> None" "wid \<noteq> []" "iid \<noteq> []"
    "\<forall>r. find_request (db w) (storage_key wid iid) = Some r \<longrightarrow> pr_expires_at_millis r = None"
  shows "\<exists>outcome router' w'. deliver router wid iid w = (Inr (outcome, router'), w') \<and>
    outcome = deliver_answer (db w) wid iid \<and>
    delivered_for router' v = delivered_for router v + (if v = wid \<and> outcome = Delivered then 1 else 0) \<and>
    duplicates_for router' v = duplicates_for router v + (if v = wid \<and> outcome = Duplicate then 1 else 0)"
proof -
  obtain router' w' where d: "deliver router wid iid w = (Inr (deliver_answer (db w) wid iid, router'), w')"
    using deliver_quiet [OF assms] by blast
  moreover have "delivered_for router' v = delivered_for router v + (if v = wid \<and> deliver_answer (db w) wid iid = Delivered then 1 else 0) \<and>
    duplicates_for router' v = duplicates_for router v + (if v = wid \<and> deliver_answer (db w) wid iid = Duplicate then 1 else 0)"
    using d by (cases rule: deliverE)
      (auto simp: delivered_for_def duplicates_for_def count_for_def bump_def update_conv')
  ultimately show ?thesis by blast
qed

theorem deliver_answers_witness:
  "\<exists>router' w'. deliver router_new ''w1'' ''u'' (calm_world sample_db) = (Inr (Delivered, router'), w') \<and>
     delivered_for router' ''w1'' = 1"
proof -
  have "find_request sample_db k = None" for k by (simp add: find_request_def)
  then show ?thesis
    using deliver_answers [of "calm_world sample_db" "''w1''" "''u''" router_new "''w1''"]
    by (auto simp: deliver_answer_def settled_def delivered_for_def router_new_def count_for_def)
qed

lemma sample_delivery:
  obtains router' w' where "deliver router_new ''w1'' ''u'' (calm_world sample_db) = (Inr (Delivered, router'), w')"
proof -
  obtain w1 where w1: "create_pending_request (storage_key ''w1'' ''u'') ''w1'' Input None (calm_world sample_db) = (Inr (), w1)"
    "quiet w1" "schema (db w1)" "find_request (db w1) (storage_key ''w1'' ''u'') =
         Some \<lparr>pr_request_id = storage_key ''w1'' ''u'', pr_workflow_id = ''w1'', pr_kind = RequestKind_i32 Input, pr_state = 1,
          pr_created_at_millis = world_now (calm_world sample_db), pr_expires_at_millis = None, pr_resolved_at_millis = None,
          pr_resolve_payload = None\<rparr>"
    using create_request_quiet [of "calm_world sample_db" "''w1''"] by (force simp: find_request_def)
  have wf: "wf_db (db w1)" using run_wf [OF movesD [OF runs_storage(7) w1(1)]] by simp
  have "resolve_answer (db w1) (world_now w1) (storage_key ''w1'' ''u'') = Inr ()"
    using w1(4) by (simp add: resolve_answer_def overdue_def)
  then obtain w' where "resolve_pending_request (storage_key ''w1'' ''u'') [] w1 = (Inr (), w')"
    using resolve_quiet [OF w1(2,3) wf, of "storage_key ''w1'' ''u''" "[]"] by auto
  then show ?thesis using that w1(1)
    by (simp add: deliver_def attempt_apply andthen_apply ret_apply Let_def)
qed

theorem deliver_at_most_once_witness:
  "\<exists>router' w1. deliver router_new ''w1'' ''u'' (calm_world sample_db) = (Inr (Delivered, router'), w1) \<and>
     (\<forall>router3 w3. deliver router_new ''w1'' ''u'' w1 \<noteq> (Inr (Delivered, router3), w3))"
proof -
  obtain router' w1 where d: "deliver router_new ''w1'' ''u'' (calm_world sample_db) = (Inr (Delivered, router'), w1)"
    by (rule sample_delivery)
  then show ?thesis
    using deliver_at_most_once [OF _ d, of w1 router_new] by (auto simp: storage_run_def)
qed

section \<open>Keys\<close>

lemma append_colon_inj:
  assumes "CHR '':'' \<notin> set i1" "CHR '':'' \<notin> set i2" "w1 @ CHR '':'' # i1 = w2 @ CHR '':'' # i2"
  shows "w1 = w2 \<and> i1 = i2"
proof -
  have "rev i1 @ CHR '':'' # rev w1 = rev i2 @ CHR '':'' # rev w2"
    using arg_cong [OF assms(3), of rev] by simp
  then have "rev i1 = rev i2 \<and> rev w1 = rev w2"
    using assms(1,2) append_sep_inj [of "CHR '':''" "rev i1" "rev i2" "rev w1" "rev w2"] by simp
  then show ?thesis by simp
qed

text \<open>
  The keys of inputs are independent per workflow as long as no input id contains a colon
  (the server refuses such ids): then two inputs share a key only if they have the same workflow
  and the same id.
\<close>

theorem storage_key_injective:
  assumes "CHR '':'' \<notin> set i1" "CHR '':'' \<notin> set i2"
  shows "storage_key w1 i1 = storage_key w2 i2 \<longleftrightarrow> w1 = w2 \<and> i1 = i2"
  using append_colon_inj [OF assms, of w1 w2] by (auto simp: storage_key_def)

theorem storage_key_injective_witness:
  "storage_key ''a:b'' ''c'' \<noteq> storage_key ''a'' ''c''"
  using storage_key_injective [of "''c''" "''c''" "''a:b''" "''a''"] by simp

definition two_workflows_db :: database where
  "two_workflows_db = sample_db\<lparr>t_workflows := [
     \<lparr>wr_workflow_id = ''a'', wr_provider = 4, wr_state = 1, wr_title = ''t'',
       wr_provider_session_id = None, wr_created_at_millis = 1, wr_updated_at_millis = 1\<rparr>,
     \<lparr>wr_workflow_id = ''a:b'', wr_provider = 4, wr_state = 1, wr_title = ''t'',
       wr_provider_session_id = None, wr_created_at_millis = 1, wr_updated_at_millis = 1\<rparr>]\<rparr>"

text \<open>
  With colons in ids the keys of different workflows collide: input \<open>b:c\<close> delivered to
  workflow \<open>a\<close> makes the first and only input \<open>c\<close> of workflow \<open>a:b\<close> a duplicate, which drops it.
  (The router's documentation says the same id under different workflows is independent.)
\<close>

theorem storage_key_collision:
  "\<exists>router1 w1 router2 w2.
     deliver router_new ''a'' ''b:c'' (calm_world two_workflows_db) = (Inr (Delivered, router1), w1) \<and>
     deliver router1 ''a:b'' ''c'' w1 = (Inr (Duplicate, router2), w2)"
  by (simp add: deliver_def redeliver_def storage_key_def Let_def io_simps create_pending_request_def get_workflow_def
      query_def stmt_def find_workflow_def two_workflows_db_def sample_db_def fresh_db_def insert_request_def
      find_request_def resolve_pending_request_def expire_one_def resolve_one_def overdue_def)

end
