(* ===== verification/Catalog.thy ===== *)
theory Catalog
  imports Config Exec Lifecycle_Props Router
begin

text \<open>
  The host the server runs on, and calcar-connect/src/catalog.rs: the registry of touched workflows
  with its sidecar file, and the bodies of the GET routes.

  The host is the database file, the other files, the registry in memory and the commands handed to
  the executor. Programs over it are those of the theory of worlds, with \<open>host\<close> in the place of the
  database; \<open>on_db\<close> runs a program of the storage layer on the database of the host. A file write
  either happens or fails and leaves anything; \<open>h_fs n\<close> says what the \<open>n\<close>-th one does, \<open>h_runs n\<close>
  what happens to the \<open>n\<close>-th command.
\<close>

section \<open>The host\<close>

datatype write_result = Written | WriteFailed string "string option"

record ResolvedApproval =
  ap_approval_id :: string
  ap_workflow_id :: string
  ap_resolution :: string

record Registry =
  rg_workflows :: "string list"
  rg_approvals :: "ResolvedApproval list"

record host =
  h_db :: database
  h_files :: "string \<Rightarrow> string option"
  h_fs :: "nat \<Rightarrow> write_result"
  h_fs_no :: nat
  h_runs :: "nat \<Rightarrow> run_answer"
  h_run_no :: nat
  h_spawned :: "PlainConfig list"
  h_registry :: Registry

type_synonym ('e, 'a) host_io = "(host, 'e, 'a) io"

definition on_db :: "(database, 'e, 'a) io \<Rightarrow> ('e, 'a) host_io" where
  "on_db m w =
     (let (r, v) = m \<lparr>db = h_db (db w), stmt_no = stmt_no w, stmt_fault = stmt_fault w, clock_no = clock_no w, clock_at = clock_at w\<rparr> in
      (r, \<lparr>db = (db w)\<lparr>h_db := db v\<rparr>, stmt_no = stmt_no v, stmt_fault = stmt_fault v, clock_no = clock_no v, clock_at = clock_at v\<rparr>))"

definition fs_write :: "string \<Rightarrow> string \<Rightarrow> (string, unit) host_io" where
  "fs_write path content = (\<lambda>w. let h = db w; h1 = h\<lparr>h_fs_no := h_fs_no h + 1\<rparr> in
     case h_fs h (h_fs_no h) of
       Written \<Rightarrow> (Inr (), w\<lparr>db := h1\<lparr>h_files := (h_files h)(path := Some content)\<rparr>\<rparr>)
     | WriteFailed e left \<Rightarrow> (Inl e, w\<lparr>db := h1\<lparr>h_files := (h_files h)(path := left)\<rparr>\<rparr>))"

definition create_dir_all :: "string \<Rightarrow> (string, unit) host_io" where
  "create_dir_all path = (\<lambda>w. let h = db w; w1 = w\<lparr>db := h\<lparr>h_fs_no := h_fs_no h + 1\<rparr>\<rparr> in
     case h_fs h (h_fs_no h) of Written \<Rightarrow> (Inr (), w1) | WriteFailed e left \<Rightarrow> (Inl e, w1))"

definition registry_io :: "(Registry \<Rightarrow> 'a \<times> Registry) \<Rightarrow> ('e, 'a) host_io" where
  "registry_io f = (\<lambda>w. case f (h_registry (db w)) of (x, r) \<Rightarrow> (Inr x, w\<lparr>db := (db w)\<lparr>h_registry := r\<rparr>\<rparr>))"

section \<open>Opening the store\<close>

text \<open>\<open>Storage::open\<close>: the directory, the connection and its three pragmas; each may fail.\<close>

definition open_step :: "unit store_io" where
  "open_step = map_err Sqlite (sql (\<lambda>d. Inr ((), d)))"

definition storage_open :: "'f libs \<Rightarrow> unit store_io" where
  "storage_open L =
     andthen (case lib_dir_error L of
                None \<Rightarrow> ret ()
              | Some e \<Rightarrow> map_err (\<lambda>_. StorageError.Io e) (sql (\<lambda>d. Inr ((), d)))) (\<lambda>_.
     andthen open_step (\<lambda>_. andthen open_step (\<lambda>_. andthen open_step (\<lambda>_. open_step))))"

definition open_storage :: "'f libs \<Rightarrow> unit store_io" where
  "open_storage L = andthen (storage_open L) (\<lambda>_. andthen migrate (\<lambda>_. ret ()))"

definition open_manager :: "'f libs \<Rightarrow> unit life_io" where
  "open_manager L = andthen (store (storage_open L)) (\<lambda>_. manager_new)"

text \<open>\<open>Display\<close> of the errors.\<close>

fun StorageError_text :: "'f libs \<Rightarrow> StorageError \<Rightarrow> string" where
  "StorageError_text L (Sqlite e) = ''sqlite error: '' @ lib_sqlite_text L e"
| "StorageError_text L (StorageError.Io e) = ''io error: '' @ e"
| "StorageError_text L (Migration name message) = ''migration '' @ name @ '' failed: '' @ message"
| "StorageError_text L (InvalidState m) = ''invalid state: '' @ m"
| "StorageError_text L (NotFound m) = ''not found: '' @ m"
| "StorageError_text L (AlreadyResolved m) = ''request already resolved: '' @ m"
| "StorageError_text L (StorageError.Expired m) = ''request expired: '' @ m"

fun LifecycleError_text :: "'f libs \<Rightarrow> LifecycleError \<Rightarrow> string" where
  "LifecycleError_text L (Refused m) = ''transition refused: '' @ m"
| "LifecycleError_text L (Storage e) = StorageError_text L e"

fun ConnectError_text :: "'f libs \<Rightarrow> ConnectError \<Rightarrow> string" where
  "ConnectError_text L (ConfigIo e) = ''config io: '' @ e"
| "ConnectError_text L (ConfigProblem path problem) = ''config '' @ path @ '': '' @ problem"
| "ConnectError_text L (Bind addr detail) = ''http bind failed on '' @ addr @ '': '' @ detail"
| "ConnectError_text L (ConnectStorage e) = ''storage: '' @ StorageError_text L e"
| "ConnectError_text L (ConnectLifecycle e) = ''lifecycle: '' @ LifecycleError_text L e"

section \<open>The registry\<close>

definition registry_default :: Registry where
  "registry_default = \<lparr>rg_workflows = [], rg_approvals = []\<rparr>"

definition state_dir :: "'f libs \<Rightarrow> ConnectConfig \<Rightarrow> string" where
  "state_dir L config = (case lib_parent L (cc_db_path config) of None \<Rightarrow> ''.'' | Some p \<Rightarrow> p)"

definition registry_path :: "'f libs \<Rightarrow> ConnectConfig \<Rightarrow> string" where
  "registry_path L config = lib_join L (state_dir L config) ''calcar-connect-known.json''"

definition touch_workflow :: "string \<Rightarrow> Registry \<Rightarrow> Registry" where
  "touch_workflow workflow_id r =
     (if workflow_id = [] then r else r\<lparr>rg_workflows := insort_insert workflow_id (rg_workflows r)\<rparr>)"

definition record_approval :: "ResolvedApproval \<Rightarrow> Registry \<Rightarrow> Registry" where
  "record_approval row r =
     r\<lparr>rg_approvals := filter (\<lambda>kept. ap_approval_id kept \<noteq> ap_approval_id row) (rg_approvals r) @ [row]\<rparr>"

definition field :: "'f Value \<Rightarrow> string \<Rightarrow> string" where
  "field row key = (case str_field row key of None \<Rightarrow> [] | Some s \<Rightarrow> s)"

fun workflows_from :: "'f Value list \<Rightarrow> string list \<Rightarrow> string list" where
  "workflows_from [] ws = ws"
| "workflows_from (v # vs) ws =
     workflows_from vs (case v of Str text \<Rightarrow> if text \<noteq> [] then insort_insert text ws else ws | _ \<Rightarrow> ws)"

fun approvals_from :: "'f Value list \<Rightarrow> ResolvedApproval list" where
  "approvals_from [] = []"
| "approvals_from (row # rows) =
     (if field row ''approval_id'' \<noteq> [] \<and> field row ''workflow_id'' \<noteq> []
      then [\<lparr>ap_approval_id = field row ''approval_id'', ap_workflow_id = field row ''workflow_id'',
             ap_resolution = (if field row ''resolution'' = [] then ''approved'' else field row ''resolution'')\<rparr>]
      else []) @ approvals_from rows"

definition from_value :: "'f Value \<Rightarrow> Registry" where
  "from_value v = (case v of
       Obj m \<Rightarrow> \<lparr>rg_workflows = (case map_of m ''workflows'' of Some (Arr ids) \<Rightarrow> workflows_from ids [] | _ \<Rightarrow> []),
                 rg_approvals = (case map_of m ''approvals'' of Some (Arr rows) \<Rightarrow> approvals_from rows | _ \<Rightarrow> [])\<rparr>
     | _ \<Rightarrow> registry_default)"

definition registry_load :: "'f libs \<Rightarrow> string option \<Rightarrow> Registry" where
  "registry_load L file =
     (let text = (case file of Some t \<Rightarrow> if valid_utf8 t then t else [] | None \<Rightarrow> []) in
      if trim text = [] then registry_default
      else from_value (case parse (lib_f64 L) text of None \<Rightarrow> Null | Some v \<Rightarrow> v))"

definition approval_value :: "ResolvedApproval \<Rightarrow> 'f Value" where
  "approval_value row = obj [(''approval_id'', Str (ap_approval_id row)), (''workflow_id'', Str (ap_workflow_id row)),
     (''resolution'', Str (ap_resolution row))]"

definition registry_value :: "Registry \<Rightarrow> 'f Value" where
  "registry_value r = obj [(''workflows'', Arr (map Str (rg_workflows r))), (''approvals'', Arr (map approval_value (rg_approvals r)))]"

definition registry_save :: "'f libs \<Rightarrow> ConnectConfig \<Rightarrow> (string, unit) host_io" where
  "registry_save L config = (\<lambda>w.
     fs_write (registry_path L config) (render (lib_f64 L) (registry_value (h_registry (db w)))) w)"

section \<open>Bodies\<close>

definition ACTIVITY_CAP :: nat where "ACTIVITY_CAP = 500"
definition RING_READ_LIMIT :: nat where "RING_READ_LIMIT = 5500"

definition status_str :: "int \<Rightarrow> string" where
  "status_str state = (case WorkflowState_from_i32 state of
       Some Running \<Rightarrow> ''running''
     | Some WaitingInput \<Rightarrow> ''waiting_input''
     | Some WaitingApproval \<Rightarrow> ''waiting_approval''
     | Some Completed \<Rightarrow> ''completed''
     | Some Failed \<Rightarrow> ''failed''
     | Some Stopped \<Rightarrow> ''stopped''
     | _ \<Rightarrow> ''unknown_'' @ show_int state)"

definition workflow_row_value :: "ConnectConfig \<Rightarrow> WorkflowRow \<Rightarrow> 'f Value" where
  "workflow_row_value config row = obj [(''workflow_id'', Str (wr_workflow_id row)),
     (''computer_id'', Str (cc_computer_id config)), (''title'', Str (wr_title row)), (''status'', Str (status_str (wr_state row)))]"

fun computer_rows :: "ConnectConfig \<Rightarrow> string list \<Rightarrow> 'f Value list \<Rightarrow> (database, 'e, 'f Value list) io" where
  "computer_rows config [] rows = ret rows"
| "computer_rows config (workflow_id # ids) rows =
     attempt (manager_get_workflow workflow_id) (\<lambda>found. computer_rows config ids
       (case found of
          Inr (Some row) \<Rightarrow> if wr_workflow_id row = [] then rows else rows @ [workflow_row_value config row]
        | _ \<Rightarrow> rows))"

definition computer_body :: "ConnectConfig \<Rightarrow> Registry \<Rightarrow> int \<Rightarrow> (database, 'e, 'f Value) io" where
  "computer_body config registry now = andthen (computer_rows config (rg_workflows registry) []) (\<lambda>rows.
     ret (obj [(''device_id'', Str (cc_computer_id config)), (''display_name'', Str (cc_display_name config)),
       (''online'', Bool True), (''last_seen_millis'', IntV now), (''workflows'', Arr rows)]))"

definition sysinfo_body :: "ConnectConfig \<Rightarrow> 'f Value" where
  "sysinfo_body config = obj [(''cpu'', Str (cc_cpu config)), (''ram'', Str (cc_ram config)),
     (''gpu'', Str (cc_gpu config)), (''disk'', Str (cc_disk config))]"

definition devices_body :: "ConnectConfig \<Rightarrow> 'f Value" where
  "devices_body config = obj [(''devices'', Arr [obj [
     (''device_id'', Str (cc_computer_id config)), (''role'', Str ''computer''), (''display_name'', Str (cc_display_name config)),
     (''pubkey_b64'', Str (cc_pubkey_b64 config)), (''fingerprint'', Str (cc_fingerprint config)), (''revoked'', Bool False),
     (''authorized_by'', Str (cc_owner_device_id config))]])]"

definition activity_value :: "WorkflowEvent \<Rightarrow> 'f Value" where
  "activity_value event = obj [(''event_id'', Str (we_event_id event)), (''event_type'', IntV (EventType_i32 (we_event_type event))),
     (''summary'', Str (we_summary event)), (''occurred_at_millis'', IntV (we_occurred_at_millis event)),
     (''seq_no'', IntV (as_i64 (we_seq_no event)))]"

definition approval_row_value :: "ResolvedApproval \<Rightarrow> 'f Value" where
  "approval_row_value row = obj [(''approval_id'', Str (ap_approval_id row)), (''title'', Str []), (''detail'', Str []),
     (''expires_at_millis'', IntV 0), (''resolution'', Str (ap_resolution row)), (''destructive'', Bool False)]"

definition snapshot_value :: "Registry \<Rightarrow> string \<Rightarrow> string \<Rightarrow> WorkflowRow \<Rightarrow> WorkflowEvent list \<Rightarrow> 'f Value" where
  "snapshot_value registry computer_id workflow_id row events =
     (let last_seq_no = (if events = [] then 0 else as_i64 (we_seq_no (last events)));
          tail_start = length events - ACTIVITY_CAP in
      obj [(''workflow_id'', Str (wr_workflow_id row)), (''computer_id'', Str computer_id),
       (''status'', Str (status_str (wr_state row))), (''last_seq_no'', IntV last_seq_no),
       (''activity'', Arr (map activity_value (drop tail_start events))), (''chat'', Arr []), (''terminal_lines'', Arr []),
       (''terminal_total_lines'', IntV 0), (''files'', Arr []), (''files_truncated'', Bool False),
       (''approvals'', Arr (map approval_row_value (filter (\<lambda>r. ap_workflow_id r = workflow_id) (rg_approvals registry))))])"

definition workflow_snapshot_body :: "Registry \<Rightarrow> string \<Rightarrow> string \<Rightarrow> 'f Value option life_io" where
  "workflow_snapshot_body registry computer_id workflow_id =
     andthen (manager_get_workflow workflow_id) (\<lambda>found. case found of
       None \<Rightarrow> ret None
     | Some row \<Rightarrow>
         andthen (events_since workflow_id 0 RING_READ_LIMIT) (\<lambda>events.
         ret (Some (snapshot_value registry computer_id workflow_id row events))))"

end
