(* ===== verification/Server.thy ===== *)
theory Server
  imports Catalog
begin

text \<open>
  calcar-connect/src/server.rs: the six routes. A handler is a program over the host whose early
  returns are responses; \<open>reply\<close> is one request from the bearer check to the response. Requests are
  served one after the other, so a run of the server is a list of requests.
\<close>

record ConnectServer =
  sv_config :: ConnectConfig
  sv_token :: string

type_synonym 'a handler = "(BodyResponse, 'a) host_io"

text \<open>
  \<open>ConnectServer::new\<close>. The registry of the source's structure is kept in the host, where it is
  loaded from the sidecar file here.
\<close>

definition registry_boot :: "'f libs \<Rightarrow> ConnectConfig \<Rightarrow> ('e, unit) host_io" where
  "registry_boot L config = (\<lambda>w. (Inr (), w\<lparr>db := (db w)\<lparr>h_registry := registry_load L (h_files (db w) (registry_path L config))\<rparr>\<rparr>))"

definition server_new :: "'f libs \<Rightarrow> ConnectConfig \<Rightarrow> string + string \<Rightarrow> (ConnectError, ConnectServer) host_io" where
  "server_new L config token_file = (case read_token (cc_token_file config) token_file of
       Inl e \<Rightarrow> fail e
     | Inr token \<Rightarrow> andthen (registry_boot L config) (\<lambda>_. ret \<lparr>sv_config = config, sv_token = token\<rparr>))"

definition listen_addr :: "ConnectServer \<Rightarrow> string" where
  "listen_addr server = ''127.0.0.1:'' @ show_nat (cc_port (sv_config server))"

text \<open>\<open>Err(error) => return error_body(500, "INTERNAL", \<dots>)\<close>.\<close>

definition or_500 :: "'f libs \<Rightarrow> ('e \<Rightarrow> string) \<Rightarrow> ('e, 'a) host_io \<Rightarrow> 'a handler" where
  "or_500 L text m = map_err (\<lambda>e. error_body L 500 ''INTERNAL'' (short_error (text e))) m"

definition persist_registry :: "'f libs \<Rightarrow> ConnectConfig \<Rightarrow> unit handler" where
  "persist_registry L config = attempt (registry_save L config) (\<lambda>_. ret ())"

definition touch :: "string \<Rightarrow> unit handler" where
  "touch workflow = registry_io (\<lambda>r. ((), touch_workflow workflow r))"

section \<open>The GET routes\<close>

definition handle_devices :: "'f libs \<Rightarrow> ConnectConfig \<Rightarrow> string \<Rightarrow> BodyResponse" where
  "handle_devices L config query_text = (case query_value query_text ''user_id'' of
       Some user \<Rightarrow> if user \<noteq> [] then json_ok L (devices_body config)
         else error_body L 400 ''MISSING_USER_ID'' ''user_id query is required''
     | None \<Rightarrow> error_body L 400 ''MISSING_USER_ID'' ''user_id query is required'')"

definition handle_computer :: "'f libs \<Rightarrow> ConnectConfig \<Rightarrow> string \<Rightarrow> BodyResponse handler" where
  "handle_computer L config ident =
     (if ident \<noteq> cc_computer_id config then fail (error_body L 404 ''COMPUTER_UNKNOWN'' ''unknown computer'')
      else
        andthen (or_500 L (LifecycleError_text L) (on_db (open_manager L))) (\<lambda>_.
        andthen now_millis (\<lambda>now.
        andthen (registry_io (\<lambda>r. (r, r))) (\<lambda>registry.
        andthen (on_db (computer_body config registry now)) (\<lambda>body.
        ret (json_ok L body))))))"

definition handle_sysinfo :: "'f libs \<Rightarrow> ConnectConfig \<Rightarrow> string \<Rightarrow> BodyResponse" where
  "handle_sysinfo L config ident =
     (if ident \<noteq> cc_computer_id config then error_body L 404 ''COMPUTER_UNKNOWN'' ''unknown computer''
      else json_ok L (sysinfo_body config))"

definition handle_workflow_snapshot :: "'f libs \<Rightarrow> ConnectConfig \<Rightarrow> string \<Rightarrow> string \<Rightarrow> BodyResponse handler" where
  "handle_workflow_snapshot L config computer workflow =
     (if computer \<noteq> cc_computer_id config then fail (error_body L 404 ''COMPUTER_UNKNOWN'' ''unknown computer'')
      else
        andthen (or_500 L (LifecycleError_text L) (on_db (open_manager L))) (\<lambda>_.
        andthen (registry_io (\<lambda>r. (r, r))) (\<lambda>registry.
        andthen (or_500 L (LifecycleError_text L) (on_db (workflow_snapshot_body registry computer workflow))) (\<lambda>found.
        case found of
          Some body \<Rightarrow>
            andthen (touch workflow) (\<lambda>_.
            andthen (persist_registry L config) (\<lambda>_.
            ret (json_ok L body)))
        | None \<Rightarrow> fail (error_body L 404 ''WORKFLOW_UNKNOWN'' ''unknown workflow'')))))"

section \<open>The common start of the POST routes\<close>

definition posted_object :: "'f libs \<Rightarrow> Request \<Rightarrow> BodyResponse + 'f Value" where
  "posted_object L request = (case read_body request of
       Inl (status, code, message) \<Rightarrow> Inl (error_body L status code message)
     | Inr body \<Rightarrow> (case parse_object L body of
         None \<Rightarrow> Inl (error_body L 400 ''MALFORMED'' ''body must be a JSON object'')
       | Some v \<Rightarrow> Inr v))"

section \<open>Approvals\<close>

definition approval_request :: "'f libs \<Rightarrow> Request \<Rightarrow> BodyResponse + (string \<times> bool)" where
  "approval_request L request = (case posted_object L request of
       Inl r \<Rightarrow> Inl r
     | Inr parsed \<Rightarrow>
         (case (str_field parsed ''approval_id'', bool_field parsed ''allow'') of
            (Some approval_id, Some allow) \<Rightarrow>
              if approval_id = [] then Inl (error_body L 400 ''MALFORMED'' ''approval_id must not be empty'')
              else if request_id_of L request \<noteq> Some approval_id
              then Inl (error_body L 400 ''MALFORMED'' ''X-Request-ID must equal approval_id'')
              else Inr (approval_id, allow)
          | _ \<Rightarrow> Inl (error_body L 400 ''MALFORMED'' ''approval_id and allow are required'')))"

definition verdict_word :: "bool \<Rightarrow> string" where
  "verdict_word allow = (if allow then ''approved'' else ''rejected'')"

fun resolve_failure :: "'f libs \<Rightarrow> StorageError \<Rightarrow> BodyResponse" where
  "resolve_failure L (NotFound _) = error_body L 404 ''APPROVAL_UNKNOWN'' ''unknown approval''"
| "resolve_failure L (AlreadyResolved _) = error_body L 409 ''ALREADY_RESOLVED'' ''approval already resolved''"
| "resolve_failure L (StorageError.Expired _) = error_body L 410 ''EXPIRED'' ''approval expired''"
| "resolve_failure L error = error_body L 500 ''INTERNAL'' (short_error (StorageError_text L error))"

definition apply_approval :: "'f libs \<Rightarrow> ConnectConfig \<Rightarrow> string \<Rightarrow> string \<Rightarrow> bool \<Rightarrow> BodyResponse handler" where
  "apply_approval L config workflow approval_id allow =
     andthen (map_err (resolve_failure L) (on_db (resolve_pending_request approval_id (verdict_word allow)))) (\<lambda>_.
     andthen (touch workflow) (\<lambda>_.
     andthen (registry_io (\<lambda>r. ((), record_approval
       \<lparr>ap_approval_id = approval_id, ap_workflow_id = workflow, ap_resolution = verdict_word allow\<rparr> r))) (\<lambda>_.
     andthen (persist_registry L config) (\<lambda>_.
     ret (json_ok L (obj [(''approval_id'', Str approval_id), (''resolution'', Str (verdict_word allow))]))))))"

definition handle_approval :: "'f libs \<Rightarrow> ConnectConfig \<Rightarrow> Request \<Rightarrow> string \<Rightarrow> BodyResponse handler" where
  "handle_approval L config request workflow = (case approval_request L request of
       Inl r \<Rightarrow> fail r
     | Inr (approval_id, allow) \<Rightarrow>
         andthen (or_500 L (LifecycleError_text L) (on_db (open_manager L))) (\<lambda>_.
         andthen (or_500 L (LifecycleError_text L) (on_db (manager_get_workflow workflow))) (\<lambda>row.
         if row = None then fail (error_body L 404 ''WORKFLOW_UNKNOWN'' ''unknown workflow'')
         else
           andthen (or_500 L (StorageError_text L) (on_db (open_storage L))) (\<lambda>_.
           apply_approval L config workflow approval_id allow))))"

section \<open>Inputs\<close>

definition input_request :: "'f libs \<Rightarrow> Request \<Rightarrow> BodyResponse + (string \<times> string \<times> bool)" where
  "input_request L request = (case posted_object L request of
       Inl r \<Rightarrow> Inl r
     | Inr parsed \<Rightarrow>
         (case (str_field parsed ''input_id'', str_field parsed ''body'', bool_field parsed ''destructive'') of
            (Some input_id, Some text, Some destructive) \<Rightarrow>
              if request_id_of L request \<noteq> Some input_id
              then Inl (error_body L 400 ''MALFORMED'' ''X-Request-ID must equal input_id'')
              else if \<not> check_input_id input_id
              then Inl (error_body L 400 ''MALFORMED'' ''input_id uses an unsafe alphabet'')
              else if text = [] then Inl (error_body L 400 ''MALFORMED'' ''body must not be empty'')
              else Inr (input_id, text, destructive)
          | _ \<Rightarrow> Inl (error_body L 400 ''MALFORMED'' ''input_id, body, and destructive are required'')))"

definition interactive_refusal :: "'f libs \<Rightarrow> string \<Rightarrow> bool \<Rightarrow> BodyResponse" where
  "interactive_refusal L workflow bound = json_status L 501 (obj [(''code'', Str ''CONPTY_UNAVAILABLE''),
     (''message'', Str ''interactive input needs ConPTY, which is not green''),
     (''workflow_id'', Str workflow), (''has_binding'', Bool bound)])"

fun deliver_failure :: "'f libs \<Rightarrow> StorageError \<Rightarrow> BodyResponse" where
  "deliver_failure L (NotFound _) = error_body L 404 ''WORKFLOW_UNKNOWN'' ''unknown workflow''"
| "deliver_failure L (InvalidState _) = error_body L 400 ''MALFORMED'' ''invalid workflow or input id''"
| "deliver_failure L error = error_body L 500 ''INTERNAL'' (short_error (StorageError_text L error))"

fun exec_failure :: "'f libs \<Rightarrow> ExecError \<Rightarrow> BodyResponse" where
  "exec_failure L ExecTimeout = error_body L 504 ''EXEC_TIMEOUT'' ''command timed out and was killed''"
| "exec_failure L error = error_body L 500 ''INTERNAL'' (short_error (ExecError_text error))"

text \<open>\<open>exec::run_generic\<close> on the host: the next answer of the system, and the log of spawns.\<close>

definition exec_run :: "string \<Rightarrow> nat \<Rightarrow> (ExecError, ExecOutcome) host_io" where
  "exec_run body timeout_secs = (\<lambda>w. let h = db w in
     case run_generic (h_runs h (h_run_no h)) body timeout_secs of (r, spawned) \<Rightarrow>
       (r, w\<lparr>db := h\<lparr>h_run_no := h_run_no h + 1, h_spawned := h_spawned h @ spawned\<rparr>\<rparr>))"

definition write_tail :: "'f libs \<Rightarrow> string \<Rightarrow> string \<Rightarrow> string \<Rightarrow> ExecOutcome \<Rightarrow> (string, string \<times> bool) host_io" where
  "write_tail L dir workflow_id input_id outcome =
     andthen (create_dir_all (lib_join L dir ''tails'')) (\<lambda>_.
     andthen (fs_write (tail_path L dir workflow_id input_id) (fst (tail_body outcome))) (\<lambda>_.
     ret (tail_path L dir workflow_id input_id, snd (tail_body outcome))))"

definition destructive_mark :: "bool \<Rightarrow> string" where
  "destructive_mark destructive = (if destructive then '' (destructive)'' else [])"

definition started_draft :: "string \<Rightarrow> string \<Rightarrow> string option \<Rightarrow> bool \<Rightarrow> int \<Rightarrow> EventDraft" where
  "started_draft workflow input_id session_id destructive now =
     \<lparr>ed_workflow_id = workflow, ed_event_id = ''input-'' @ input_id @ ''-started'', ed_provider_session_id = session_id,
      ed_occurred_at_millis = now, ed_event_type = CommandStarted,
      ed_summary = ''input '' @ input_id @ '' applied'' @ destructive_mark destructive, ed_detail_pointer = None\<rparr>"

definition completed_draft :: "string \<Rightarrow> string \<Rightarrow> string option \<Rightarrow> bool \<Rightarrow> int \<Rightarrow> bool \<Rightarrow> string \<Rightarrow> int \<Rightarrow> EventDraft" where
  "completed_draft workflow input_id session_id destructive exit_code tail_cut path now =
     \<lparr>ed_workflow_id = workflow, ed_event_id = ''input-'' @ input_id @ ''-completed'', ed_provider_session_id = session_id,
      ed_occurred_at_millis = now, ed_event_type = CommandCompleted,
      ed_summary = ''input '' @ input_id @ '' completed with exit code '' @ show_int exit_code @ destructive_mark destructive
        @ (if tail_cut then '' (truncated)'' else []),
      ed_detail_pointer = Some path\<rparr>"

definition record_run ::
  "'f libs \<Rightarrow> ConnectConfig \<Rightarrow> string \<Rightarrow> string \<Rightarrow> string option \<Rightarrow> ExecOutcome \<Rightarrow> bool \<Rightarrow> (string, bool) host_io" where
  "record_run L config workflow input_id session_id outcome destructive =
     andthen (map_err short_error (write_tail L (state_dir L config) workflow input_id outcome)) (\<lambda>(path, tail_cut).
     andthen now_millis (\<lambda>started_at.
     andthen now_millis (\<lambda>completed_at.
     andthen (map_err (\<lambda>e. short_error (StorageError_text L e))
       (on_db (append_event (started_draft workflow input_id session_id destructive started_at)))) (\<lambda>_.
     andthen (map_err (\<lambda>e. short_error (StorageError_text L e))
       (on_db (append_event (completed_draft workflow input_id session_id destructive (eo_exit_code outcome) tail_cut path completed_at)))) (\<lambda>_.
     ret tail_cut)))))"

text \<open>The generic path after the router reported \<open>Delivered\<close>.\<close>

definition execute_input ::
  "'f libs \<Rightarrow> ConnectConfig \<Rightarrow> string \<Rightarrow> string \<Rightarrow> string option \<Rightarrow> string \<Rightarrow> bool \<Rightarrow> BodyResponse handler" where
  "execute_input L config workflow input_id session_id text destructive =
     andthen (map_err (exec_failure L) (exec_run text (cc_exec_timeout_secs config))) (\<lambda>outcome.
     andthen (or_500 L (StorageError_text L) (on_db (open_storage L))) (\<lambda>_.
     andthen (map_err (error_body L 500 ''EXEC_RECORD_FAILED'')
       (record_run L config workflow input_id session_id outcome destructive)) (\<lambda>truncated.
     andthen (touch workflow) (\<lambda>_.
     andthen (persist_registry L config) (\<lambda>_.
     ret (json_ok L (obj [(''input_id'', Str input_id), (''outcome'', Str ''delivered''),
       (''exit_code'', IntV (eo_exit_code outcome)), (''truncated'', Bool truncated)])))))))"

definition duplicate_input :: "'f libs \<Rightarrow> ConnectConfig \<Rightarrow> string \<Rightarrow> string \<Rightarrow> BodyResponse handler" where
  "duplicate_input L config workflow input_id =
     andthen (touch workflow) (\<lambda>_.
     andthen (persist_registry L config) (\<lambda>_.
     ret (json_ok L (obj [(''input_id'', Str input_id), (''outcome'', Str ''duplicate'')]))))"

definition generic_input ::
  "'f libs \<Rightarrow> ConnectConfig \<Rightarrow> string \<Rightarrow> string \<Rightarrow> string option \<Rightarrow> string \<Rightarrow> bool \<Rightarrow> BodyResponse handler" where
  "generic_input L config workflow input_id session_id text destructive =
     andthen (or_500 L (StorageError_text L) (on_db (open_storage L))) (\<lambda>_.
     andthen (map_err (deliver_failure L) (on_db (deliver router_new workflow input_id))) (\<lambda>(outcome, router).
       if outcome \<noteq> Delivered then duplicate_input L config workflow input_id
       else execute_input L config workflow input_id session_id text destructive))"

definition interactive_input :: "'f libs \<Rightarrow> string \<Rightarrow> BodyResponse handler" where
  "interactive_input L workflow =
     andthen (or_500 L (StorageError_text L) (on_db (open_storage L))) (\<lambda>_.
     attempt (on_db (lookup workflow)) (\<lambda>found.
     ret (interactive_refusal L workflow (case found of Inr (Some _) \<Rightarrow> True | _ \<Rightarrow> False))))"

definition handle_input :: "'f libs \<Rightarrow> ConnectConfig \<Rightarrow> Request \<Rightarrow> string \<Rightarrow> BodyResponse handler" where
  "handle_input L config request workflow = (case input_request L request of
       Inl r \<Rightarrow> fail r
     | Inr (input_id, text, destructive) \<Rightarrow>
         andthen (or_500 L (LifecycleError_text L) (on_db (open_manager L))) (\<lambda>_.
         andthen (or_500 L (LifecycleError_text L) (on_db (manager_get_workflow workflow))) (\<lambda>found. case found of
           None \<Rightarrow> fail (error_body L 404 ''WORKFLOW_UNKNOWN'' ''unknown workflow'')
         | Some row \<Rightarrow>
             if Provider_from_i32 (wr_provider row) \<noteq> Some Generic then interactive_input L workflow
             else generic_input L config workflow input_id (wr_provider_session_id row) text destructive)))"

section \<open>Dispatch\<close>

datatype route =
    Devices
  | Computer string
  | Sysinfo string
  | Snapshot string string
  | Approvals string
  | Inputs string
  | NoRoute

definition route_of :: "Method \<Rightarrow> string list \<Rightarrow> route" where
  "route_of method parts = (case (method, parts) of
       (Get, [v, a, d]) \<Rightarrow> if [v, a, d] = [''v1'', ''agent'', ''devices''] then Devices else NoRoute
     | (Get, [v, a, c, ident]) \<Rightarrow> if [v, a, c] = [''v1'', ''agent'', ''computers''] then Computer ident else NoRoute
     | (Get, [v, a, c, ident, s]) \<Rightarrow> if [v, a, c, s] = [''v1'', ''agent'', ''computers'', ''sysinfo''] then Sysinfo ident else NoRoute
     | (Get, [v, a, c, computer, w, workflow]) \<Rightarrow>
         if [v, a, c, w] = [''v1'', ''agent'', ''computers'', ''workflows''] then Snapshot computer workflow else NoRoute
     | (Post, [v, a, w, workflow, s]) \<Rightarrow>
         if [v, a, w, s] = [''v1'', ''agent'', ''workflows'', ''approvals''] then Approvals workflow
         else if [v, a, w, s] = [''v1'', ''agent'', ''workflows'', ''inputs''] then Inputs workflow
         else NoRoute
     | _ \<Rightarrow> NoRoute)"

definition serve_route :: "'f libs \<Rightarrow> ConnectConfig \<Rightarrow> Request \<Rightarrow> string \<Rightarrow> route \<Rightarrow> BodyResponse handler" where
  "serve_route L config request query_text r = (case r of
       Devices \<Rightarrow> ret (handle_devices L config query_text)
     | Computer ident \<Rightarrow> handle_computer L config ident
     | Sysinfo ident \<Rightarrow> ret (handle_sysinfo L config ident)
     | Snapshot computer workflow \<Rightarrow> handle_workflow_snapshot L config computer workflow
     | Approvals workflow \<Rightarrow> handle_approval L config request workflow
     | Inputs workflow \<Rightarrow> handle_input L config request workflow
     | NoRoute \<Rightarrow> ret (error_body L 404 ''NOT_FOUND'' ''unknown route''))"

definition unauthorized :: BodyResponse where
  "unauthorized = \<lparr>rs_status = 401, rs_body = [], rs_json = False\<rparr>"

definition reply :: "'f libs \<Rightarrow> ConnectServer \<Rightarrow> Request \<Rightarrow> host world \<Rightarrow> BodyResponse \<times> host world" where
  "reply L server request w =
     (if \<not> bearer_ok L request (sv_token server) then (unauthorized, w)
      else
        let (path, query_text) = split_path (rq_url request);
            (r, w') = serve_route L (sv_config server) request query_text (route_of (rq_method request) (path_segments path)) w in
        (case r of Inl response \<Rightarrow> response | Inr response \<Rightarrow> response, w'))"

text \<open>The accept loop over a list of requests.\<close>

fun serve :: "'f libs \<Rightarrow> ConnectServer \<Rightarrow> Request list \<Rightarrow> host world \<Rightarrow> BodyResponse list \<times> host world" where
  "serve L server [] w = ([], w)"
| "serve L server (request # requests) w =
     (case reply L server request w of (response, w1) \<Rightarrow>
      case serve L server requests w1 of (responses, w2) \<Rightarrow> (response # responses, w2))"

text \<open>\<open>ConnectServer::run\<close>: the result of binding the address is an argument.\<close>

definition run_server ::
  "'f libs \<Rightarrow> ConnectServer \<Rightarrow> string + unit \<Rightarrow> Request list \<Rightarrow> host world \<Rightarrow> (ConnectError + BodyResponse list) \<times> host world" where
  "run_server L server bound requests w = (case bound of
       Inl detail \<Rightarrow> (Inl (Bind (listen_addr server) detail), w)
     | Inr _ \<Rightarrow> (case serve L server requests w of (responses, w') \<Rightarrow> (Inr responses, w')))"

text \<open>\<open>run\<close> of main.rs: arguments, configuration, start, serve.\<close>

definition connect_run ::
  "'f libs \<Rightarrow> string list \<Rightarrow> (string \<Rightarrow> string + string) \<Rightarrow> string + unit \<Rightarrow> Request list \<Rightarrow> host world \<Rightarrow>
   (string + BodyResponse list) \<times> host world" where
  "connect_run L args read bound requests w =
     (case boot_config args read (\<lambda>path e. ''config '' @ path @ '': '' @ ConnectError_text L e) of
        Inl e \<Rightarrow> (Inl e, w)
      | Inr config \<Rightarrow>
          (case server_new L config (read (cc_token_file config)) w of
             (Inl e, w1) \<Rightarrow> (Inl (''startup: '' @ ConnectError_text L e), w1)
           | (Inr server, w1) \<Rightarrow>
               (case run_server L server bound requests w1 of
                  (Inl e, w2) \<Rightarrow> (Inl (''serve: '' @ ConnectError_text L e), w2)
                | (Inr responses, w2) \<Rightarrow> (Inr responses, w2))))"

end
