(* ===== verification/Catalog_Props.thy ===== *)
theory Catalog_Props
  imports Catalog
begin

text \<open>
  The sidecar file of the registry gives the registry back, whatever the session touched and
  resolved.
\<close>

section \<open>Well-formed registries\<close>

text \<open>A \<open>BTreeSet\<close> of non-empty ids and a list of approvals with non-empty fields, all UTF-8.\<close>

definition name_ok :: "string \<Rightarrow> bool" where
  "name_ok s \<longleftrightarrow> s \<noteq> [] \<and> valid_utf8 s"

definition wf_approval :: "ResolvedApproval \<Rightarrow> bool" where
  "wf_approval a \<longleftrightarrow> name_ok (ap_approval_id a) \<and> name_ok (ap_workflow_id a) \<and> name_ok (ap_resolution a)"

definition wf_registry :: "Registry \<Rightarrow> bool" where
  "wf_registry r \<longleftrightarrow> sorted_wrt (<) (rg_workflows r) \<and> (\<forall>s\<in>set (rg_workflows r). name_ok s) \<and>
     distinct (map ap_approval_id (rg_approvals r)) \<and> (\<forall>a\<in>set (rg_approvals r). wf_approval a)"

lemma sorted_insert:
  fixes xs :: "string list"
  assumes "sorted_wrt (<) xs"
  shows "sorted_wrt (<) (insort_insert x xs)" "set (insort_insert x xs) = insert x (set xs)"
proof -
  have "sorted xs" "distinct xs" using assms strict_sorted_iff by blast+
  then show "sorted_wrt (<) (insort_insert x xs)"
    by (metis distinct_insort_insert sorted_insort_insert strict_sorted_iff)
  show "set (insort_insert x xs) = insert x (set xs)" by (rule set_insort_insert)
qed

lemma insert_last:
  fixes xs :: "string list"
  assumes "sorted_wrt (<) (xs @ [x])"
  shows "insort_insert x xs = xs @ [x]"
proof -
  have x: "\<forall>y\<in>set xs. y < x" and s: "sorted xs"
    using assms strict_sorted_iff by (auto simp: sorted_wrt_append)
  then have "x \<notin> set xs" by blast
  then show ?thesis using s x by (simp add: insort_insert_insort sorted_insort_is_snoc less_imp_le)
qed

text \<open>Touching a workflow and recording an approval keep it well formed.\<close>

lemma touch_wf: "wf_registry r \<Longrightarrow> valid_utf8 wid \<Longrightarrow> wf_registry (touch_workflow wid r)"
  by (auto simp: wf_registry_def touch_workflow_def name_ok_def sorted_insert)

lemma record_wf: "wf_registry r \<Longrightarrow> wf_approval a \<Longrightarrow> wf_registry (record_approval a r)"
  by (auto simp: wf_registry_def record_approval_def distinct_map_filter)

section \<open>Reading the file back\<close>

lemma registry_objects:
  "registry_value r = Obj [(''approvals'', Arr (map approval_value (rg_approvals r))), (''workflows'', Arr (map Str (rg_workflows r)))]"
  "approval_value a = Obj [(''approval_id'', Str (ap_approval_id a)), (''resolution'', Str (ap_resolution a)), (''workflow_id'', Str (ap_workflow_id a))]"
  by (simp_all add: registry_value_def approval_value_def obj_def less_char_def)

lemma workflows_back: "sorted_wrt (<) (acc @ ws) \<Longrightarrow> \<forall>s\<in>set ws. s \<noteq> [] \<Longrightarrow> workflows_from (map Str ws) acc = acc @ ws"
proof (induction ws arbitrary: acc)
  case (Cons x ws)
  then have "insort_insert x acc = acc @ [x]" by (intro insert_last) (auto simp: sorted_wrt_append)
  then show ?case using Cons.IH [of "acc @ [x]"] Cons.prems by simp
qed simp

lemma approvals_back: "\<forall>a\<in>set as. wf_approval a \<Longrightarrow> approvals_from (map approval_value as) = as"
  by (induction as) (auto simp: registry_objects(2) field_def wf_approval_def name_ok_def)

lemma registry_back: "wf_registry r \<Longrightarrow> from_value (registry_value r) = r"
  by (simp add: registry_objects(1) from_value_def wf_registry_def name_ok_def workflows_back [of "[]", simplified] approvals_back)

lemma trim_braces: "trim (CHR ''{'' # s @ ''}'') = CHR ''{'' # s @ ''}''"
proof -
  have "ws_len_rev (CHR ''}'' # t) = 0" for t
    by (cases "CHR ''}'' # t" rule: ws_len_rev.cases) (auto simp: ws1_def ws2_def ws3_def byte_def)
  moreover have "ws_len (CHR ''{'' # t) = 0" for t by (rule ws_len_0) (simp_all add: ws1_def byte_def)
  ultimately show ?thesis by (simp add: trim_def trim_end_def trim_start_id trim_rev.simps)
qed

lemma registry_typed: "wf_registry r \<Longrightarrow> wf_value F (registry_value r)" "nesting (registry_value r) \<le> MAX_DEPTH"
proof -
  have k: "valid_utf8 ''approvals''" "valid_utf8 ''workflows''" "valid_utf8 ''approval_id''" "valid_utf8 ''resolution''" "valid_utf8 ''workflow_id''"
    by (simp_all add: valid_utf8_ascii byte_def)
  have a: "wf_approval a \<Longrightarrow> wf_value F (approval_value a)" for a
    using k by (simp add: registry_objects(2) wf_approval_def name_ok_def less_char_def)
  show "wf_registry r \<Longrightarrow> wf_value F (registry_value r)"
    using k a by (auto simp: registry_objects(1) wf_registry_def name_ok_def less_char_def)
  have "nesting (approval_value a :: 'b Value) = 1" for a by (simp add: registry_objects(2))
  moreover have "foldr max (map (\<lambda>x. c) xs) 0 \<le> c" for c :: nat and xs :: "'x list" by (induction xs) auto
  then have "foldr max (map (\<lambda>x. 2) (rg_approvals r)) 0 \<le> (2::nat)" "foldr max (map (\<lambda>x. 1) (rg_workflows r)) 0 \<le> (1::nat)" by blast+
  ultimately show "nesting (registry_value r :: 'b Value) \<le> MAX_DEPTH"
    by (simp add: registry_objects(1) MAX_DEPTH_def comp_def numeral_2_eq_2)
qed

text \<open>
  C37. The registry survives a restart: whatever well-formed registry is saved to the sidecar file,
  loading that file gives it back, the touched workflows in their order and the resolved approvals
  with their verdicts; and touching a workflow or recording an approval keeps a registry well formed.
\<close>

theorem registry_roundtrip:
  assumes "f64_round_trips (lib_f64 L)" "wf_registry r"
  shows "registry_load L (Some (render (lib_f64 L) (registry_value r))) = r \<and>
    (valid_utf8 wid \<longrightarrow> wf_registry (touch_workflow wid r)) \<and> (wf_approval a \<longrightarrow> wf_registry (record_approval a r))"
proof -
  let ?t = "render (lib_f64 L) (registry_value r)"
  have p: "parse (lib_f64 L) ?t = Some (registry_value r)"
    using assms by (intro parse_render registry_typed)
  have v: "valid_utf8 ?t" unfolding render_def by (rule valid_render [OF assms(1) registry_typed(1) [OF assms(2)]])
  have "trim ?t \<noteq> []" unfolding render_def registry_objects(1) write_value.simps trim_braces by simp
  then show ?thesis using p v registry_back [OF assms(2)] touch_wf [OF assms(2)] record_wf [OF assms(2)]
    by (simp add: registry_load_def Let_def)
qed

definition sample_libs :: "int libs" where
  "sample_libs = \<lparr>lib_f64 = whole_f64, lib_equiv = (=), lib_parent = (\<lambda>_. Some ''state''), lib_join = (\<lambda>a b. a @ ''/'' @ b),
     lib_sqlite_text = (\<lambda>_. ''engine''), lib_dir_error = Some ''denied''\<rparr>"

definition sample_registry :: Registry where
  "sample_registry = \<lparr>rg_workflows = [''a'', ''w1''],
     rg_approvals = [\<lparr>ap_approval_id = ''q'', ap_workflow_id = ''w1'', ap_resolution = ''rejected''\<rparr>]\<rparr>"

theorem registry_roundtrip_witness:
  "registry_load sample_libs (Some (render whole_f64 (registry_value sample_registry))) = sample_registry"
proof -
  have v: "valid_utf8 ''a''" "valid_utf8 ''w1''" "valid_utf8 ''q''" "valid_utf8 ''rejected''"
    by (simp_all add: valid_utf8_ascii byte_def)
  then have "wf_registry sample_registry"
    by (simp add: wf_registry_def sample_registry_def name_ok_def wf_approval_def less_char_def)
  then show ?thesis
    using registry_roundtrip [of sample_libs sample_registry] whole_f64_round_trips by (simp add: sample_libs_def)
qed

end
