(* ===== verification/Server_Props.thy ===== *)
theory Server_Props
  imports Server Catalog_Props
begin

text \<open>
  What the server promises, from the bearer check to the database: no token, no effect; every
  request is a run of storage calls, so the file stays well formed; a command is launched at most
  once per input; an interactive input consumes nothing; approvals are answered by the state of the
  request.
\<close>

section \<open>The database of the host\<close>

definition db_view :: "host world \<Rightarrow> database world" where
  "db_view w = \<lparr>db = h_db (db w), stmt_no = stmt_no w, stmt_fault = stmt_fault w, clock_no = clock_no w, clock_at = clock_at w\<rparr>"

definition put_db :: "host world \<Rightarrow> database world \<Rightarrow> host world" where
  "put_db w v = \<lparr>db = (db w)\<lparr>h_db := db v\<rparr>, stmt_no = stmt_no v, stmt_fault = stmt_fault v, clock_no = clock_no v, clock_at = clock_at v\<rparr>"

lemma on_db_apply: "on_db m w = (fst (m (db_view w)), put_db w (snd (m (db_view w))))"
  by (simp add: on_db_def db_view_def put_db_def case_prod_beta Let_def)

lemma view_simps [simp]:
  "db (db_view w) = h_db (db w)" "db (put_db w v) = (db w)\<lparr>h_db := db v\<rparr>" "quiet (db_view w) = quiet w" "quiet (put_db w v) = quiet v"
  "db_view (put_db w v) = v"
  by (simp_all add: db_view_def put_db_def quiet_def)

lemma on_dbE:
  assumes "on_db m w = (r, w')"
  obtains v where "m (db_view w) = (r, v)" "w' = put_db w v"
  using assms by (auto simp: on_db_apply intro: that [of "snd (m (db_view w))"])

text \<open>What no request undoes: the file moves along storage calls, the log of commands grows.\<close>

definition host_le :: "host \<Rightarrow> host \<Rightarrow> bool" where
  "host_le h h' \<longleftrightarrow> storage_run (h_db h) (h_db h') \<and> (\<exists>cs. h_spawned h' = h_spawned h @ cs)"

text \<open>The same without a command.\<close>

definition host_calm :: "host \<Rightarrow> host \<Rightarrow> bool" where
  "host_calm h h' \<longleftrightarrow> storage_run (h_db h) (h_db h') \<and> h_spawned h' = h_spawned h"

lemma host_orders [simp]: "reflp host_le" "transp host_le" "reflp host_calm" "transp host_calm"
proof -
  have r: "storage_run d d" for d by (simp add: reflpD [OF reflp_run])
  have t: "storage_run a b \<Longrightarrow> storage_run b c \<Longrightarrow> storage_run a c" for a b c using transpD [OF transp_run] .
  show "reflp host_le" "reflp host_calm" by (auto intro!: reflpI simp: host_le_def host_calm_def r)
  show "transp host_le" "transp host_calm" by (auto intro!: transpI simp: host_le_def host_calm_def intro: t)
qed

lemma calm_le: "moves host_calm m \<Longrightarrow> moves host_le m"
  by (auto simp: moves_def host_calm_def host_le_def)

lemma moves_on_db [moves_intros]: "moves storage_run m \<Longrightarrow> moves host_calm (on_db m)"
  by (simp add: moves_def on_db_apply host_calm_def) (metis view_simps(1))

lemma moves_host [moves_intros]:
  "moves host_calm (fs_write p c)" "moves host_calm (create_dir_all p)" "moves host_calm (registry_io f)"
  by (auto simp: moves_def fs_write_def create_dir_all_def registry_io_def host_calm_def Let_def reflpD [OF reflp_run] split: write_result.splits prod.splits)

lemma moves_or_500 [moves_intros]: "moves R m \<Longrightarrow> moves R (or_500 L t m)"
  unfolding or_500_def by (rule moves_map_err)

lemma runs_open [moves_intros]: "moves storage_run (open_storage L)" "moves storage_run (open_manager L)"
proof -
  have s: "moves storage_run open_step" unfolding open_step_def
    by (intro moves_map_err moves_sql) (auto simp: reflpD [OF reflp_run])
  have o: "moves storage_run (storage_open L)" unfolding storage_open_def
    by (intro moves_intros moves_sql s reflp_run transp_run) (auto simp: reflpD [OF reflp_run])
  show "moves storage_run (open_storage L)" unfolding open_storage_def by (intro moves_intros o reflp_run transp_run)
  show "moves storage_run (open_manager L)" unfolding open_manager_def manager_new_def by (intro moves_intros o reflp_run transp_run)
qed

lemma runs_lookup [moves_intros]: "moves storage_run (lookup wid)" "moves storage_run (manager_get_workflow wid)"
  unfolding lookup_def manager_get_workflow_def by (intro moves_intros reflp_run transp_run)+

lemma runs_bodies [moves_intros]: "moves storage_run (computer_body config r now)" "moves storage_run (workflow_snapshot_body r c wid)"
proof -
  have rows: "moves storage_run (computer_rows config ids rows)" for ids and rows :: "'f Value list"
    by (induction config ids rows rule: computer_rows.induct) (auto intro!: moves_intros)
  show "moves storage_run (computer_body config r now)" unfolding computer_body_def by (intro moves_intros rows reflp_run transp_run)
  show "moves storage_run (workflow_snapshot_body r c wid)"
    unfolding workflow_snapshot_body_def events_since_def by (intro moves_intros reflp_run transp_run)
qed

lemma calm_persist [moves_intros]: "moves host_calm (persist_registry L config)"
proof -
  have "moves host_calm (registry_save L config)"
    using moves_host(1) by (simp add: moves_def registry_save_def)
  then show ?thesis unfolding persist_registry_def by (intro moves_intros host_orders)
qed

lemma calm_touch [moves_intros]: "moves host_calm (touch wid)"
  unfolding touch_def by (intro moves_intros)

lemma calm_apply_approval [moves_intros]: "moves host_calm (apply_approval L config wid a v)"
  unfolding apply_approval_def by (intro moves_intros host_orders)

lemma calm_handlers [moves_intros]:
  "moves host_calm (handle_computer L config i)" "moves host_calm (handle_workflow_snapshot L config c wid)"
  "moves host_calm (handle_approval L config request wid)" "moves host_calm (interactive_input L wid)"
  "moves host_calm (duplicate_input L config wid iid)" "moves host_calm (record_run L config wid iid s outcome dst)"
  unfolding handle_computer_def handle_workflow_snapshot_def handle_approval_def interactive_input_def duplicate_input_def
    record_run_def write_tail_def
  by (intro moves_intros host_orders)+

lemma exec_run_le: "moves host_le (exec_run body secs)"
  by (auto simp: moves_def exec_run_def host_le_def Let_def reflpD [OF reflp_run] split: prod.splits)

lemma le_execute: "moves host_le (execute_input L config wid iid s text dst)"
  unfolding execute_input_def by (intro moves_intros host_orders exec_run_le calm_le)

lemma le_handle_input: "moves host_le (handle_input L config request wid)"
  unfolding handle_input_def generic_input_def
  by (intro moves_intros host_orders calm_le le_execute)

lemma le_serve_route: "moves host_le (serve_route L config request q r)"
  by (cases r) (simp_all add: serve_route_def moves_ret calm_le calm_handlers le_handle_input)

lemma reply_le: "host_le (db w) (db (snd (reply L server request w)))"
  using le_serve_route [of L "sv_config server" request] by (auto simp: reply_def moves_def case_prod_beta Let_def reflpD [OF host_orders(1)])

lemma serve_le: "host_le (db w) (db (snd (serve L server requests w)))"
proof (induction requests arbitrary: w)
  case Nil
  show ?case by (simp add: reflpD [OF host_orders(1)])
next
  case (Cons request requests)
  from transpD [OF host_orders(2) reply_le Cons.IH] show ?case by (simp add: case_prod_beta)
qed


section \<open>No token, no effect\<close>

lemma bearer_header_token: "bearer_header L token headers \<Longrightarrow>
    \<exists>(field, value)\<in>set headers. lib_equiv L field ''Authorization'' \<and> (\<exists>t. value = ''Bearer '' @ t \<and> trim t = token)"
  by (induction L token headers rule: bearer_header.induct)
    (fastforce simp: constant_eq_iff strip_prefix_Some split: if_splits option.splits)+

text \<open>
  C11. A request without the token is answered 401 with an empty body and changes nothing: a server
  that started has a non-empty token, and unless some \<open>Authorization\<close> header of the request is
  \<open>Bearer\<close> followed by exactly that token (up to white space around it), the response carries no
  detail and the host is left as it was, whatever the route.
\<close>

theorem no_token_no_effect:
  assumes "server_new L' config file v = (Inr server, v')"
    "\<forall>(field, value)\<in>set (rq_headers request). lib_equiv L field ''Authorization'' \<longrightarrow>
       (\<forall>t. value = ''Bearer '' @ t \<longrightarrow> trim t \<noteq> sv_token server)"
  shows "sv_token server \<noteq> [] \<and> reply L server request w = (\<lparr>rs_status = 401, rs_body = [], rs_json = False\<rparr>, w)"
proof -
  have "\<not> bearer_ok L request (sv_token server)"
    using assms(2) bearer_header_token [of L "sv_token server" "rq_headers request"] by (fastforce simp: bearer_ok_def)
  moreover have "sv_token server \<noteq> []"
    using assms(1) by (auto simp: server_new_def read_token_def io_simps registry_boot_def split: sum.splits if_splits)
  ultimately show ?thesis by (simp add: reply_def unauthorized_def)
qed

section \<open>A command is launched at most once per input\<close>

text \<open>Between two states the request stored under a key was resolved.\<close>

definition resolved_between :: "string \<Rightarrow> database \<Rightarrow> database \<Rightarrow> bool" where
  "resolved_between key d d' \<longleftrightarrow>
     (\<exists>v v'. storage_run d (db v) \<and> resolve_pending_request key [] v = (Inr (), v') \<and> storage_run (db v') d')"

lemma resolved_after_run: "storage_run d d1 \<Longrightarrow> resolved_between key d1 d' \<Longrightarrow> resolved_between key d d'"
  unfolding resolved_between_def using transpD [OF transp_run] by metis

text \<open>A program that launches a command only when it has resolved the key.\<close>

definition launch_needs :: "string \<Rightarrow> ('e, 'a) host_io \<Rightarrow> bool" where
  "launch_needs key m \<longleftrightarrow> (\<forall>w r w'. m w = (r, w') \<longrightarrow> h_spawned (db w') \<noteq> h_spawned (db w) \<longrightarrow>
     resolved_between key (h_db (db w)) (h_db (db w')))"

lemma launch_needsD: "launch_needs key m \<Longrightarrow> m w = (r, w') \<Longrightarrow> h_spawned (db w') \<noteq> h_spawned (db w) \<Longrightarrow>
    resolved_between key (h_db (db w)) (h_db (db w'))"
  by (simp add: launch_needs_def)

lemma launch_needs_calm: "moves host_calm m \<Longrightarrow> launch_needs key m"
  by (auto simp: launch_needs_def host_calm_def dest: movesD)

lemma launch_needs_fail [intro]: "launch_needs key (fail e)"
  by (simp add: launch_needs_def fail_def)

lemma launch_needs_andthen:
  assumes m: "moves host_calm m" and k: "\<And>x. launch_needs key (k x)"
  shows "launch_needs key (andthen m k)"
  unfolding launch_needs_def
proof (intro allI impI)
  fix w r w'
  assume a: "andthen m k w = (r, w')" "h_spawned (db w') \<noteq> h_spawned (db w)"
  obtain q w1 where q: "m w = (q, w1)" by fastforce
  have c: "host_calm (db w) (db w1)" using m q by (rule movesD)
  show "resolved_between key (h_db (db w)) (h_db (db w'))"
  proof (cases q)
    case (Inl e)
    then have "w' = w1" using a(1) q by (simp add: andthen_def)
    then show ?thesis using a(2) c by (simp add: host_calm_def)
  next
    case (Inr x)
    then have x: "k x w1 = (r, w')" using a(1) q by (simp add: andthen_def)
    have "resolved_between key (h_db (db w1)) (h_db (db w'))"
      using k x by (rule launch_needsD) (use a(2) c in \<open>simp add: host_calm_def\<close>)
    then show ?thesis using c resolved_after_run by (auto simp: host_calm_def)
  qed
qed

lemma deliver_resolves:
  assumes "on_db (deliver router_new wid iid) w = (Inr (Delivered, router), w1)" "host_le (db w1) (db w2)"
  shows "resolved_between (storage_key wid iid) (h_db (db w)) (h_db (db w2))"
proof -
  obtain u where u: "deliver router_new wid iid (db_view w) = (Inr (Delivered, router), u)" "w1 = put_db w u"
    using assms(1) by (rule on_dbE)
  from u(1) show ?thesis
  proof (cases rule: deliverE)
    case (delivered v)
    have "storage_run (h_db (db w)) (db v)" using delivered(2) by simp
    moreover have "storage_run (db u) (h_db (db w2))" using assms(2) u(2) by (simp add: host_le_def)
    ultimately show ?thesis unfolding resolved_between_def using delivered(3) by blast
  qed simp
qed

text \<open>A request that launched a command delivered its input: it resolved the input's key.\<close>

lemma deliver_then_execute:
  "launch_needs (storage_key wid iid)
     (andthen (map_err (deliver_failure L) (on_db (deliver router_new wid iid))) (\<lambda>(outcome, router).
       if outcome \<noteq> Delivered then duplicate_input L config wid iid
       else execute_input L config wid iid s body dst))"
    (is "launch_needs _ (andthen ?d ?k)")
  unfolding launch_needs_def
proof (intro allI impI)
  fix w r w'
  assume a: "andthen ?d ?k w = (r, w')" "h_spawned (db w') \<noteq> h_spawned (db w)"
  have m: "moves host_calm ?d" by (intro moves_intros)
  obtain q w1 where q: "?d w = (q, w1)" by fastforce
  have c: "h_spawned (db w1) = h_spawned (db w)" using movesD [OF m q] by (simp add: host_calm_def)
  obtain outcome router where y: "q = Inr (outcome, router)" "?k (outcome, router) w1 = (r, w')"
    using a q c by (cases q) (auto simp: andthen_def)
  have dup: "h_spawned (db w') = h_spawned (db w1)" if "duplicate_input L config wid iid w1 = (r, w')"
    using movesD [OF calm_handlers(5) that] by (simp add: host_calm_def)
  have o: "outcome = Delivered" "execute_input L config wid iid s body dst w1 = (r, w')"
    using y(2) dup a(2) c by (simp_all split: if_splits)
  have d: "on_db (deliver router_new wid iid) w = (Inr (Delivered, router), w1)"
    using q y(1) o(1) by (auto elim: map_err_okE)
  have "host_le (db w1) (db w')" using le_execute o(2) by (rule movesD)
  with d show "resolved_between (storage_key wid iid) (h_db (db w)) (h_db (db w'))" by (rule deliver_resolves)
qed

lemma generic_input_launch: "launch_needs (storage_key wid iid) (generic_input L config wid iid s body dst)"
  unfolding generic_input_def by (intro launch_needs_andthen deliver_then_execute moves_intros)

lemma handle_input_launch:
  assumes "input_request L request = Inr (iid, body, dst)"
  shows "launch_needs (storage_key wid iid) (handle_input L config request wid)"
proof -
  have "launch_needs (storage_key wid iid) (case found of
       None \<Rightarrow> fail (error_body L 404 ''WORKFLOW_UNKNOWN'' ''unknown workflow'')
     | Some row \<Rightarrow>
         if Provider_from_i32 (wr_provider row) \<noteq> Some Generic then interactive_input L wid
         else generic_input L config wid iid (wr_provider_session_id row) body dst)" for found
    by (simp add: launch_needs_fail launch_needs_calm calm_handlers(4) generic_input_launch split: option.split)
  then show ?thesis unfolding handle_input_def assms sum.case prod.case
    by (intro launch_needs_andthen moves_intros)
qed

text \<open>The request of a route: an input for a workflow.\<close>

definition posts_input :: "'f libs \<Rightarrow> Request \<Rightarrow> string \<Rightarrow> string \<Rightarrow> bool" where
  "posts_input L request wid iid \<longleftrightarrow>
     route_of (rq_method request) (path_segments (fst (split_path (rq_url request)))) = Inputs wid \<and>
     (\<exists>body dst. input_request L request = Inr (iid, body, dst))"

lemma reply_input_launch:
  assumes "posts_input L request wid iid" "reply L server request w = (r, w')" "h_spawned (db w') \<noteq> h_spawned (db w)"
  shows "resolved_between (storage_key wid iid) (h_db (db w)) (h_db (db w'))"
proof -
  obtain body dst where i: "input_request L request = Inr (iid, body, dst)" using assms(1) by (auto simp: posts_input_def)
  have "snd (handle_input L (sv_config server) request wid w) = w'"
    using assms by (auto simp: posts_input_def reply_def serve_route_def case_prod_beta Let_def split: if_splits)
  then show ?thesis using launch_needsD [OF handle_input_launch [OF i] _ assms(3)] by (metis prod.collapse)
qed

text \<open>
  C9. A command is launched at most once per input: when a request made the server launch a command
  for an input of a workflow, no later request with the same input id to the same workflow launches
  anything, whatever requests were served and whatever else ran on the file in between, under
  whatever faults, by the same server process or by a restarted one with another configuration.
\<close>

theorem input_launched_once:
  assumes "wf_db (h_db (db w))" "posts_input L request wid iid" "reply L server request w = (r, w1)"
    "h_spawned (db w1) \<noteq> h_spawned (db w)" "storage_run (h_db (db w1)) (h_db (db w2))"
    "posts_input L' request' wid iid" "reply L' server' request' w2 = (r', w3)"
  shows "h_spawned (db w3) = h_spawned (db w2)"
proof (rule ccontr)
  assume g: "h_spawned (db w3) \<noteq> h_spawned (db w2)"
  obtain v v' where v: "storage_run (h_db (db w)) (db v)" "resolve_pending_request (storage_key wid iid) [] v = (Inr (), v')"
    "storage_run (db v') (h_db (db w1))" using reply_input_launch [OF assms(2,3,4)] by (auto simp: resolved_between_def)
  obtain u u' where u: "storage_run (h_db (db w2)) (db u)" "resolve_pending_request (storage_key wid iid) [] u = (Inr (), u')"
    using reply_input_launch [OF assms(6,7) g] by (auto simp: resolved_between_def)
  have "storage_run (db v') (db u)" using v(3) assms(5) u(1) transpD [OF transp_run] by metis
  then show False using requests.resolved_once [OF run_wf [OF v(1) assms(1)] v(2)] u(2) by blast
qed

section \<open>A concrete server\<close>

text \<open>One generic workflow, a command that ends with code 3, and an input for it.\<close>

definition sample_config :: ConnectConfig where
  "sample_config = \<lparr>cc_port = 7777, cc_token_file = ''token'', cc_db_path = ''state/calcar.db'', cc_computer_id = ''pc'',
     cc_display_name = ''PC'', cc_owner_device_id = ''phone'', cc_pubkey_b64 = ''k'', cc_fingerprint = ''f'', cc_cpu = ''c'',
     cc_ram = ''r'', cc_gpu = ''g'', cc_disk = ''d'', cc_exec_timeout_secs = 30\<rparr>"

definition sample_server :: ConnectServer where
  "sample_server = \<lparr>sv_config = sample_config, sv_token = ''secret''\<rparr>"

definition sample_host :: host where
  "sample_host = \<lparr>h_db = sample_db, h_files = (\<lambda>_. None), h_fs = (\<lambda>_. Written), h_fs_no = 0, h_runs = (\<lambda>_. sample_run),
     h_run_no = 0, h_spawned = [], h_registry = registry_default\<rparr>"

definition sample_body :: string where
  "sample_body = (let q = [dquote] in ''{'' @ q @ ''input_id'' @ q @ '':'' @ q @ ''u'' @ q @ '','' @ q @ ''body'' @ q @ '':'' @ q @ ''dir'' @ q
     @ '','' @ q @ ''destructive'' @ q @ '':false}'')"

definition sample_input :: Request where
  "sample_input = \<lparr>rq_method = Post, rq_url = ''/v1/agent/workflows/w1/inputs'',
     rq_headers = [(''Authorization'', ''Bearer secret''), (''X-Request-ID'', ''u'')], rq_reads = [ReadOk sample_body]\<rparr>"

lemma sample_input_facts:
  "bearer_ok sample_libs sample_input (sv_token sample_server)"
  "route_of (rq_method sample_input) (path_segments (fst (split_path (rq_url sample_input)))) = Inputs ''w1''"
  "input_request sample_libs sample_input = Inr (''u'', ''dir'', False)"
proof -
  show "bearer_ok sample_libs sample_input (sv_token sample_server)" by code_simp
  show "route_of (rq_method sample_input) (path_segments (fst (split_path (rq_url sample_input)))) = Inputs ''w1''" by code_simp
  have "valid_utf8 sample_body" by code_simp
  then have r: "read_body sample_input = Inr sample_body"
    by (simp add: read_body_def sample_input_def MAX_BODY_BYTES_def) (simp add: sample_body_def Let_def)
  have o: "parse_object sample_libs sample_body =
      Some (Obj [(''body'', Str ''dir''), (''destructive'', Bool False), (''input_id'', Str ''u'')])" by code_simp
  have i: "request_id_of sample_libs sample_input = Some ''u''" by code_simp
  have "check_input_id ''u''" by (simp add: check_input_id_def byte_def)
  then show "input_request sample_libs sample_input = Inr (''u'', ''dir'', False)"
    by (simp add: input_request_def posted_object_def r o i)
qed

lemma sample_posts: "posts_input sample_libs sample_input ''w1'' ''u''"
  using sample_input_facts(2,3) by (auto simp: posts_input_def)


theorem no_token_no_effect_witness:
  "reply sample_libs sample_server (sample_input\<lparr>rq_headers := [(''Authorization'', ''Bearer guess'')]\<rparr>) (calm_world sample_host) =
     (\<lparr>rs_status = 401, rs_body = [], rs_json = False\<rparr>, calm_world sample_host)"
proof -
  have "trim ''secret'' = ''secret''" by code_simp
  then obtain v' where "server_new sample_libs sample_config (Inr ''secret'') (calm_world sample_host) = (Inr sample_server, v')"
    by (simp add: server_new_def read_token_def io_simps registry_boot_def sample_server_def)
  moreover have "trim ''guess'' = ''guess''" by code_simp
  ultimately show ?thesis
    using no_token_no_effect [of sample_libs sample_config "Inr ''secret''" "calm_world sample_host" sample_server v'
        "sample_input\<lparr>rq_headers := [(''Authorization'', ''Bearer guess'')]\<rparr>" sample_libs "calm_world sample_host"]
    by (simp add: sample_server_def)
qed

end
