(* ===== verification/Server_Answers.thy ===== *)
theory Server_Answers
  imports Server_Props
begin

text \<open>
  What the server answers when the engine does not fail and the file is migrated: an input runs its
  command once and leaves the two events and the tail behind, an interactive input consumes nothing,
  an approval is answered by the state of the request, a snapshot holds the whole ring, and the
  sidecar file gives the registry back.
\<close>

section \<open>A migrated file and a healthy engine\<close>

definition ready :: "database \<Rightarrow> bool" where
  "ready d \<longleftrightarrow> schema d \<and> log_ok d \<and> wf_db d"

lemma readyD: "ready d \<Longrightarrow> schema d" "ready d \<Longrightarrow> log_ok d" "ready d \<Longrightarrow> wf_db d"
  by (simp_all add: ready_def)

lemma works_migrate: "ready d0 \<Longrightarrow> works (\<lambda>d. d = d0) migrate (\<lambda>_ d. d = d0)"
  unfolding works_def
  by (auto simp: migrate_def io_simps create_migrations_log_def applied_names_def MIGRATIONS_def ready_def log_ok_def
      split: option.splits)

lemma works_open:
  assumes "ready d0"
  shows "works (\<lambda>d. d = d0) (open_storage L) (\<lambda>_ d. d = d0)" "works (\<lambda>d. d = d0) (open_manager L) (\<lambda>_ d. d = d0)"
proof -
  have s: "works (\<lambda>d. d = d0) open_step (\<lambda>_ d. d = d0)"
    unfolding open_step_def by (intro works_map_err works_sql) auto
  have o: "works (\<lambda>d. d = d0) (storage_open L) (\<lambda>_ d. d = d0)"
    unfolding storage_open_def
    by (rule works_andthen [where R = "\<lambda>_ d. d = d0"],
        (cases "lib_dir_error L"; simp add: works_ret), intro works_map_err works_sql, simp)
       (rule s | rule works_andthen [where R = "\<lambda>_ d. d = d0"])+
  have m: "works (\<lambda>d. d = d0) (andthen migrate (\<lambda>_. ret ())) (\<lambda>_ d. d = d0)"
    by (rule works_andthen [where R = "\<lambda>_ d. d = d0"], rule works_migrate [OF assms], rule works_ret)
  show "works (\<lambda>d. d = d0) (open_storage L) (\<lambda>_ d. d = d0)"
    unfolding open_storage_def by (rule works_andthen [where R = "\<lambda>_ d. d = d0"], rule o, rule m)
  have n: "works (\<lambda>d. d = d0) manager_new (\<lambda>_ d. d = d0)"
    unfolding manager_new_def
    by (rule works_andthen [where R = "\<lambda>_ d. d = d0"], rule works_store, rule works_migrate [OF assms], rule works_ret)
  show "works (\<lambda>d. d = d0) (open_manager L) (\<lambda>_ d. d = d0)"
    unfolding open_manager_def by (rule works_andthen [where R = "\<lambda>_ d. d = d0"], rule works_store, rule o, rule n)
qed

lemma works_manager_get: "schema d0 \<Longrightarrow> works (\<lambda>d. d = d0) (manager_get_workflow wid) (\<lambda>found d. d = d0 \<and> found = find_workflow d0 wid)"
  unfolding manager_get_workflow_def by (intro works_store works_get_workflow) simp

lemma works_on_db:
  assumes "works (\<lambda>d. d = h_db h0) m Q"
  shows "works (\<lambda>h. h = h0) (on_db m) (\<lambda>x h. \<exists>d. h = h0\<lparr>h_db := d\<rparr> \<and> Q x d)"
  unfolding works_def
proof (intro allI impI)
  fix w :: "host world" assume "quiet w" "db w = h0"
  then have "quiet (db_view w)" "db (db_view w) = h_db h0" by simp_all
  with assms obtain x v where "m (db_view w) = (Inr x, v)" "quiet v" "Q x (db v)" by (rule worksE)
  then show "\<exists>x w'. on_db m w = (Inr x, w') \<and> quiet w' \<and> (\<exists>d. db w' = h0\<lparr>h_db := d\<rparr> \<and> Q x d)"
    using \<open>db w = h0\<close> by (auto simp: on_db_apply)
qed

lemma works_on_db_same:
  assumes "works (\<lambda>d. d = h_db h0) m (\<lambda>x d. d = h_db h0 \<and> Q x)"
  shows "works (\<lambda>h. h = h0) (on_db m) (\<lambda>x h. h = h0 \<and> Q x)"
  by (rule works_weaken [OF works_on_db [OF assms]]) auto

lemma works_or_500: "works P m Q \<Longrightarrow> works P (or_500 L t m) Q"
  unfolding or_500_def by (rule works_map_err)

lemma works_host_opens:
  assumes "ready (h_db h0)"
  shows "works (\<lambda>h. h = h0) (or_500 L t (on_db (open_storage L))) (\<lambda>_ h. h = h0)"
    "works (\<lambda>h. h = h0) (or_500 L t' (on_db (open_manager L))) (\<lambda>_ h. h = h0)"
    "works (\<lambda>h. h = h0) (or_500 L t' (on_db (manager_get_workflow wid))) (\<lambda>found h. h = h0 \<and> found = find_workflow (h_db h0) wid)"
  using works_on_db_same [of h0 _ "\<lambda>_. True"] works_open [OF assms]
  by (auto intro!: works_or_500 works_on_db_same works_manager_get readyD(1) [OF assms])

section \<open>Inputs\<close>

text \<open>A delivery changes the table of requests and nothing else.\<close>

definition other_tables where
  "other_tables d = (migrations_log d, schema d, t_workflows d, t_events d, t_outbox d, t_truncations d, t_bindings d)"

lemma deliver_keeps: "moves (\<lambda>d d'. other_tables d' = other_tables d) (deliver router wid iid)"
proof -
  note o = keeps_order [of other_tables]
  have c: "moves (\<lambda>d d'. other_tables d' = other_tables d) (create_pending_request rid wid k x)" for rid wid k x
    unfolding create_pending_request_def
    by (intro moves_intros moves_stmt_keeps o) (auto simp: insert_request_def other_tables_def split: if_splits)
  have r: "moves (\<lambda>d d'. other_tables d' = other_tables d) (resolve_pending_request rid p)" for rid p
    unfolding resolve_pending_request_def
    by (intro moves_intros moves_stmt_keeps o) (auto simp: expire_one_def resolve_one_def Let_def other_tables_def)
  have "moves (\<lambda>d d'. other_tables d' = other_tables d) (redeliver router wid key first)" for key first
    unfolding redeliver_def by (intro moves_intros o r) (auto intro!: moves_intros o split: StorageError.split)
  then show ?thesis unfolding deliver_def Let_def by (intro moves_intros o c r)
qed

lemma ready_requests: "ready d0 \<Longrightarrow> wf_db d \<Longrightarrow> other_tables d = other_tables d0 \<Longrightarrow> ready d"
  by (auto simp: ready_def log_ok_def other_tables_def split: option.splits)

lemma works_deliver:
  assumes "ready d0" "find_workflow d0 wid \<noteq> None" "wid \<noteq> []" "iid \<noteq> []"
    "\<forall>r. find_request d0 (storage_key wid iid) = Some r \<longrightarrow> pr_expires_at_millis r = None"
  shows "works (\<lambda>d. d = d0) (deliver router_new wid iid)
    (\<lambda>(outcome, _) d. outcome = deliver_answer d0 wid iid \<and> ready d \<and> other_tables d = other_tables d0)"
  unfolding works_def
proof (intro allI impI)
  fix w :: "database world" assume q: "quiet w" "db w = d0"
  obtain router' w' where d: "deliver router_new wid iid w = (Inr (deliver_answer (db w) wid iid, router'), w')" "quiet w'"
    using deliver_quiet [OF q(1), of wid iid router_new] assms q(2) by (auto simp: ready_def)
  have "other_tables (db w') = other_tables d0" using movesD [OF deliver_keeps d(1)] q(2) by simp
  moreover have "wf_db (db w')" using run_wf [OF movesD [OF runs_deliver d(1)]] assms(1) q(2) by (simp add: ready_def)
  ultimately show "\<exists>x w'. deliver router_new wid iid w = (Inr x, w') \<and> quiet w' \<and>
     (case x of (outcome, _) \<Rightarrow> \<lambda>d. outcome = deliver_answer d0 wid iid \<and> ready d \<and> other_tables d = other_tables d0) (db w')"
    using d q(2) ready_requests [OF assms(1)] by auto
qed

lemma works_case_prod: "(\<And>a b. x = (a, b) \<Longrightarrow> works P (n a b) Q) \<Longrightarrow> works P (case x of (a, b) \<Rightarrow> n a b) Q"
  by (cases x) simp

lemma works_fixed: "(\<And>h0. P h0 \<Longrightarrow> works (\<lambda>h. h = h0) m Q) \<Longrightarrow> works P m Q"
  by (simp add: works_def)

lemma works_exec_run:
  "run_generic (h_runs h0 (h_run_no h0)) body secs = (Inr outcome, cs) \<Longrightarrow>
   works (\<lambda>h. h = h0) (exec_run body secs)
     (\<lambda>x h. x = outcome \<and> h = h0\<lparr>h_run_no := h_run_no h0 + 1, h_spawned := h_spawned h0 @ cs\<rparr>)"
  by (simp add: works_def exec_run_def Let_def)

lemma works_write_tail:
  "h_fs h0 = (\<lambda>_. Written) \<Longrightarrow> works (\<lambda>h. h = h0) (write_tail L dir wid iid outcome)
     (\<lambda>x h. x = (tail_path L dir wid iid, snd (tail_body outcome)) \<and>
        h = h0\<lparr>h_fs_no := h_fs_no h0 + 2, h_files := (h_files h0)(tail_path L dir wid iid := Some (fst (tail_body outcome)))\<rparr>)"
  by (simp add: works_def write_tail_def create_dir_all_def fs_write_def Let_def io_simps)

lemma works_append_host:
  assumes "schema (h_db h0)" "wf_db (h_db h0)" "find_workflow (h_db h0) (ed_workflow_id draft) \<noteq> None"
  shows "works (\<lambda>h. h = h0) (map_err f (on_db (append_event draft))) (\<lambda>_ h. \<exists>d. h = h0\<lparr>h_db := d\<rparr> \<and> appended draft (h_db h0) d)"
  by (intro works_map_err works_on_db works_append assms)

lemma appended_find: "appended draft d d' \<Longrightarrow> find_workflow d' wid = find_workflow d wid"
  by (simp add: appended_def find_workflow_def)

lemma draft_wids [simp]:
  "ed_workflow_id (started_draft wid iid s dst t) = wid" "ed_workflow_id (completed_draft wid iid s dst c k p t) = wid"
  by (simp_all add: started_draft_def completed_draft_def)

text \<open>Both events of a run, with the clock values they carry.\<close>

definition run_recorded ::
  "'f libs \<Rightarrow> ConnectConfig \<Rightarrow> string \<Rightarrow> string \<Rightarrow> string option \<Rightarrow> bool \<Rightarrow> ExecOutcome \<Rightarrow> database \<Rightarrow> database \<Rightarrow> bool" where
  "run_recorded L config wid iid s dst outcome d d' \<longleftrightarrow> (\<exists>mid t1 t2. appended (started_draft wid iid s dst t1) d mid \<and>
     appended (completed_draft wid iid s dst (eo_exit_code outcome) (snd (tail_body outcome))
       (tail_path L (state_dir L config) wid iid) t2) mid d')"

lemma works_record_run:
  assumes "schema (h_db h0)" "wf_db (h_db h0)" "find_workflow (h_db h0) wid \<noteq> None" "h_fs h0 = (\<lambda>_. Written)"
  shows "works (\<lambda>h. h = h0) (record_run L config wid iid s outcome dst)
     (\<lambda>x h. x = snd (tail_body outcome) \<and> (\<exists>d. run_recorded L config wid iid s dst outcome (h_db h0) d \<and>
        h = h0\<lparr>h_fs_no := h_fs_no h0 + 2, h_files := (h_files h0)(tail_path L (state_dir L config) wid iid := Some (fst (tail_body outcome))),
             h_db := d\<rparr>))" (is "works _ _ ?Q")
proof -
  let ?p = "tail_path L (state_dir L config) wid iid" and ?cut = "snd (tail_body outcome)"
  let ?h = "h0\<lparr>h_fs_no := h_fs_no h0 + 2, h_files := (h_files h0)(?p := Some (fst (tail_body outcome)))\<rparr>"
  let ?e = "\<lambda>e. short_error (StorageError_text L e)"
  have last: "works (\<lambda>h. \<exists>d. h = ?h\<lparr>h_db := d\<rparr> \<and> appended (started_draft wid iid s dst t1) (h_db h0) d)
      (andthen (map_err ?e (on_db (append_event (completed_draft wid iid s dst (eo_exit_code outcome) ?cut ?p t2)))) (\<lambda>_. ret ?cut)) ?Q" for t1 t2
  proof (rule works_fixed, elim exE conjE)
    fix h d assume h: "h = ?h\<lparr>h_db := d\<rparr>" and a: "appended (started_draft wid iid s dst t1) (h_db h0) d"
    have f: "find_workflow d wid \<noteq> None" using appended_find [OF a, of wid] assms(3) by simp
    have b: "schema d" "wf_db d" using a by (simp_all add: appended_def)
    show "works (\<lambda>x. x = h)
      (andthen (map_err ?e (on_db (append_event (completed_draft wid iid s dst (eo_exit_code outcome) ?cut ?p t2)))) (\<lambda>_. ret ?cut)) ?Q"
      by (rule works_andthen, rule works_append_host) (use a b f h in \<open>auto simp: run_recorded_def intro!: works_ret\<close>)
  qed
  show ?thesis unfolding record_run_def
    apply (rule works_andthen, rule works_map_err, rule works_write_tail [OF assms(4)])
    apply (rule works_fixed, elim conjE, simp only: prod.case)
    apply (rule works_andthen [where R = "\<lambda>_ h. h = ?h"], rule works_now, assumption)
    apply (rule works_andthen [where R = "\<lambda>_ h. h = ?h"], rule works_now, assumption)
    apply (rule works_andthen, rule works_append_host)
       apply (use assms in simp_all)
    apply (use last in simp)
    done
qed

text \<open>The end of a POST: the registry remembers the workflow and is saved.\<close>

definition touched :: "'f libs \<Rightarrow> ConnectConfig \<Rightarrow> string \<Rightarrow> host \<Rightarrow> host \<Rightarrow> bool" where
  "touched L config wid h h' \<longleftrightarrow> h_db h' = h_db h \<and> h_spawned h' = h_spawned h \<and>
     h_registry h' = touch_workflow wid (h_registry h) \<and>
     (\<forall>p. p \<noteq> registry_path L config \<longrightarrow> h_files h' p = h_files h p)"

lemma works_touch_persist:
  "works (\<lambda>h. h = h0) (andthen (touch wid) (\<lambda>_. andthen (persist_registry L config) (\<lambda>_. ret r)))
     (\<lambda>x h. x = r \<and> touched L config wid h0 h)"
  by (auto simp: works_def touch_def persist_registry_def registry_io_def registry_save_def fs_write_def touched_def Let_def
      io_simps split: write_result.splits)

text \<open>What the executed input leaves behind.\<close>

definition executed ::
  "'f libs \<Rightarrow> ConnectConfig \<Rightarrow> string \<Rightarrow> string \<Rightarrow> string option \<Rightarrow> bool \<Rightarrow> ExecOutcome \<Rightarrow> PlainConfig list \<Rightarrow> host \<Rightarrow> host \<Rightarrow> bool" where
  "executed L config wid iid s dst outcome cs h h' \<longleftrightarrow>
     run_recorded L config wid iid s dst outcome (h_db h) (h_db h') \<and> h_spawned h' = h_spawned h @ cs \<and>
     h_registry h' = touch_workflow wid (h_registry h) \<and>
     (tail_path L (state_dir L config) wid iid \<noteq> registry_path L config \<longrightarrow>
        h_files h' (tail_path L (state_dir L config) wid iid) = Some (fst (tail_body outcome)))"

definition delivered_answer :: "'f libs \<Rightarrow> string \<Rightarrow> ExecOutcome \<Rightarrow> BodyResponse" where
  "delivered_answer L iid outcome = json_ok L (obj [(''input_id'', Str iid), (''outcome'', Str ''delivered''),
       (''exit_code'', IntV (eo_exit_code outcome)), (''truncated'', Bool (snd (tail_body outcome)))])"

lemma works_execute:
  assumes "ready (h_db h0)" "find_workflow (h_db h0) wid \<noteq> None" "h_fs h0 = (\<lambda>_. Written)"
    "run_generic (h_runs h0 (h_run_no h0)) body (cc_exec_timeout_secs config) = (Inr outcome, cs)"
  shows "works (\<lambda>h. h = h0) (execute_input L config wid iid s body dst)
     (\<lambda>x h. x = delivered_answer L iid outcome \<and> executed L config wid iid s dst outcome cs h0 h)" (is "works _ _ ?Q")
proof -
  let ?h = "h0\<lparr>h_run_no := h_run_no h0 + 1, h_spawned := h_spawned h0 @ cs\<rparr>"
  let ?a = "\<lambda>truncated. json_ok L (obj [(''input_id'', Str iid), (''outcome'', Str ''delivered''),
       (''exit_code'', IntV (eo_exit_code outcome)), (''truncated'', Bool truncated)])"
  have fin: "works (\<lambda>h. h = h1) (andthen (touch wid) (\<lambda>_. andthen (persist_registry L config) (\<lambda>_. ret (?a t)))) ?Q"
    if "t = snd (tail_body outcome)" "run_recorded L config wid iid s dst outcome (h_db h0) d"
      "h1 = ?h\<lparr>h_fs_no := n, h_files := (h_files h0)(tail_path L (state_dir L config) wid iid := Some (fst (tail_body outcome))), h_db := d\<rparr>"
    for t d h1 n
    by (rule works_weaken [OF works_touch_persist]) (use that in \<open>auto simp: touched_def executed_def delivered_answer_def\<close>)
  show ?thesis unfolding execute_input_def
    apply (rule works_andthen, rule works_map_err, rule works_exec_run [OF assms(4)])
    apply (rule works_fixed, elim conjE, simp only:)
    apply (rule works_andthen, rule works_host_opens(1), use assms in simp)
    apply (rule works_fixed, simp only:)
    apply (rule works_andthen, rule works_map_err, rule works_record_run)
        apply (use assms in \<open>simp_all add: readyD\<close>)
    apply (rule works_fixed, elim conjE exE, rule fin)
      apply simp_all
    done
qed

definition duplicate_answer :: "'f libs \<Rightarrow> string \<Rightarrow> BodyResponse" where
  "duplicate_answer L iid = json_ok L (obj [(''input_id'', Str iid), (''outcome'', Str ''duplicate'')])"

text \<open>The effect of an answered input: nothing but the delivery for a duplicate, else the run.\<close>

definition input_effect ::
  "'f libs \<Rightarrow> ConnectConfig \<Rightarrow> string \<Rightarrow> string \<Rightarrow> string option \<Rightarrow> bool \<Rightarrow> ExecOutcome \<Rightarrow> PlainConfig list \<Rightarrow> host \<Rightarrow> host \<Rightarrow> bool" where
  "input_effect L config wid iid s dst outcome cs h h' \<longleftrightarrow>
     (\<exists>d. other_tables d = other_tables (h_db h) \<and>
        (if settled (h_db h) (storage_key wid iid) then touched L config wid (h\<lparr>h_db := d\<rparr>) h'
         else executed L config wid iid s dst outcome cs (h\<lparr>h_db := d\<rparr>) h'))"

lemma works_generic:
  assumes "ready (h_db h0)" "find_workflow (h_db h0) wid \<noteq> None" "wid \<noteq> []" "iid \<noteq> []"
    "\<forall>r. find_request (h_db h0) (storage_key wid iid) = Some r \<longrightarrow> pr_expires_at_millis r = None"
    "h_fs h0 = (\<lambda>_. Written)"
    "run_generic (h_runs h0 (h_run_no h0)) body (cc_exec_timeout_secs config) = (Inr outcome, cs)"
  shows "works (\<lambda>h. h = h0) (generic_input L config wid iid s body dst)
     (\<lambda>x h. x = (if settled (h_db h0) (storage_key wid iid) then duplicate_answer L iid else delivered_answer L iid outcome) \<and>
        input_effect L config wid iid s dst outcome cs h0 h)" (is "works _ _ ?Q")
proof -
  have fin: "works (\<lambda>h. h = h0\<lparr>h_db := d\<rparr>)
      (if o1 \<noteq> Delivered then duplicate_input L config wid iid else execute_input L config wid iid s body dst) ?Q"
    if d: "o1 = deliver_answer (h_db h0) wid iid" "ready d" "other_tables d = other_tables (h_db h0)" for o1 d
  proof (cases "settled (h_db h0) (storage_key wid iid)")
    case True
    then show ?thesis using d
      by (auto simp: deliver_answer_def duplicate_input_def input_effect_def duplicate_answer_def intro!: works_weaken [OF works_touch_persist])
  next
    case False
    have "find_workflow d wid \<noteq> None" using assms(2) d(3) by (simp add: other_tables_def find_workflow_def)
    then have "works (\<lambda>h. h = h0\<lparr>h_db := d\<rparr>) (execute_input L config wid iid s body dst)
       (\<lambda>x h. x = delivered_answer L iid outcome \<and> executed L config wid iid s dst outcome cs (h0\<lparr>h_db := d\<rparr>) h)"
      by (intro works_execute) (use assms d in simp_all)
    then show ?thesis using d False
      by (auto simp: deliver_answer_def input_effect_def elim!: works_weaken)
  qed
  show ?thesis unfolding generic_input_def
    apply (rule works_andthen, rule works_host_opens(1) [OF assms(1)])
    apply (rule works_andthen, rule works_map_err, rule works_on_db, rule works_deliver [OF assms(1-5)])
    apply (rule works_case_prod, simp only: prod.case, rule works_fixed, elim exE conjE, simp only:)
    apply (rule fin, simp_all)
    done
qed

lemma works_handle_generic:
  assumes "ready (h_db h0)" "find_workflow (h_db h0) wid = Some row" "Provider_from_i32 (wr_provider row) = Some Generic"
    "input_request L request = Inr (iid, body, dst)"
    "works (\<lambda>h. h = h0) (generic_input L config wid iid (wr_provider_session_id row) body dst) Q"
  shows "works (\<lambda>h. h = h0) (handle_input L config request wid) Q"
  unfolding handle_input_def assms(4) sum.case prod.case
  apply (rule works_andthen, rule works_host_opens(2) [OF assms(1)])
  apply (rule works_andthen, rule works_host_opens(3) [OF assms(1)])
  apply (rule works_fixed, elim conjE)
  apply (use assms(2,3,5) in simp)
  done

text \<open>From a handler that works to the reply.\<close>

lemma reply_works:
  assumes "quiet w" "bearer_ok L request (sv_token server)"
    "route_of (rq_method request) (path_segments (fst (split_path (rq_url request)))) = r"
    "works (\<lambda>h. h = db w) (serve_route L (sv_config server) request (snd (split_path (rq_url request))) r) Q"
  shows "\<exists>response w'. reply L server request w = (response, w') \<and> quiet w' \<and> Q response (db w')"
proof -
  from assms(4,1) obtain x w' where "serve_route L (sv_config server) request (snd (split_path (rq_url request))) r w = (Inr x, w')"
    "quiet w'" "Q x (db w')" by (rule worksE) simp
  then show ?thesis using assms(2,3) by (simp add: reply_def case_prod_beta Let_def)
qed

lemma input_request_id: "input_request L request = Inr (iid, body, dst) \<Longrightarrow> iid \<noteq> []"
  by (auto simp: input_request_def check_input_id_def split: sum.splits option.splits bool.splits prod.splits if_splits)

text \<open>
  C10. An input to a generic workflow from the request to the ring: with a healthy engine and disk
  and a command that ends in time, an input whose key is not settled is answered \<open>delivered\<close> with the
  exit code, after its body was launched once, the tail of its output was written and the started
  and completed events were appended to the ring of the workflow; one whose key is settled is
  answered \<open>duplicate\<close> and leaves everything but the registry alone.
\<close>

theorem input_answered:
  assumes "quiet w" "ready (h_db (db w))" "bearer_ok L request (sv_token server)"
    "route_of (rq_method request) (path_segments (fst (split_path (rq_url request)))) = Inputs wid"
    "input_request L request = Inr (iid, body, dst)"
    "find_workflow (h_db (db w)) wid = Some row" "Provider_from_i32 (wr_provider row) = Some Generic" "wid \<noteq> []"
    "\<forall>r. find_request (h_db (db w)) (storage_key wid iid) = Some r \<longrightarrow> pr_expires_at_millis r = None"
    "h_fs (db w) = (\<lambda>_. Written)"
    "run_generic (h_runs (db w) (h_run_no (db w))) body (cc_exec_timeout_secs (sv_config server)) = (Inr outcome, cs)"
  shows "\<exists>w'. reply L server request w =
      (if settled (h_db (db w)) (storage_key wid iid) then duplicate_answer L iid else delivered_answer L iid outcome, w') \<and>
    input_effect L (sv_config server) wid iid (wr_provider_session_id row) dst outcome cs (db w) (db w')"
proof -
  have "works (\<lambda>h. h = db w) (serve_route L (sv_config server) request (snd (split_path (rq_url request))) (Inputs wid))
     (\<lambda>x h. x = (if settled (h_db (db w)) (storage_key wid iid) then duplicate_answer L iid else delivered_answer L iid outcome) \<and>
        input_effect L (sv_config server) wid iid (wr_provider_session_id row) dst outcome cs (db w) h)"
    unfolding serve_route_def route.case
    by (intro works_handle_generic [OF assms(2,6,7,5)] works_generic)
       (use assms input_request_id [OF assms(5)] in auto)
  from reply_works [OF assms(1,3,4) this] show ?thesis by blast
qed

lemma sample_host_facts:
  "ready (h_db sample_host)" "h_fs sample_host = (\<lambda>_. Written)" "h_spawned sample_host = []"
  "find_workflow (h_db sample_host) ''w1'' = Some \<lparr>wr_workflow_id = ''w1'', wr_provider = 4, wr_state = 1, wr_title = ''t'',
       wr_provider_session_id = None, wr_created_at_millis = 1001, wr_updated_at_millis = 1001\<rparr>"
  "find_request (h_db sample_host) k = None" "Provider_from_i32 4 = Some Generic"
  by (simp_all add: sample_host_def ready_def log_ok_def sample_db_def fresh_db_def find_workflow_def find_request_def Provider_from_i32_def)
    (use sample_db_wf in \<open>simp add: sample_db_def fresh_db_def\<close>)

lemma sample_run_result:
  "run_generic (h_runs sample_host (h_run_no sample_host)) ''dir'' 30 =
     (Inr \<lparr>eo_exit_code = 3, eo_stdout = ''ab'', eo_stderr = [], eo_truncated = False\<rparr>, [command_config ''dir''])"
proof -
  have "trim ''dir'' = ''dir''" by code_simp
  then show ?thesis
    by (simp add: sample_host_def sample_run_def run_generic_def child_wait_def child_new_def child_join_def child_snapshot_def
        child_exit_code_def child_truncated_def command_cap push_def sink_new_def Let_def)
qed

theorem input_answered_witness:
  "\<exists>w'. reply sample_libs sample_server sample_input (calm_world sample_host) =
      (delivered_answer sample_libs ''u'' \<lparr>eo_exit_code = 3, eo_stdout = ''ab'', eo_stderr = [], eo_truncated = False\<rparr>, w') \<and>
    h_spawned (db w') = [command_config ''dir'']"
proof -
  obtain row where row: "find_workflow (h_db (db (calm_world sample_host))) ''w1'' = Some row"
    "Provider_from_i32 (wr_provider row) = Some Generic" using sample_host_facts by simp
  have r: "run_generic (h_runs (db (calm_world sample_host)) (h_run_no (db (calm_world sample_host)))) ''dir''
      (cc_exec_timeout_secs (sv_config sample_server)) =
     (Inr \<lparr>eo_exit_code = 3, eo_stdout = ''ab'', eo_stderr = [], eo_truncated = False\<rparr>, [command_config ''dir''])"
    using sample_run_result by (simp add: sample_server_def sample_config_def)
  show ?thesis
    using input_answered [OF _ _ sample_input_facts row _ _ _ r] sample_host_facts
    by (auto simp: settled_def input_effect_def executed_def)
qed

text \<open>The same run as a fact for the witness of the single launch.\<close>

lemma sample_launch:
  obtains r w' where "reply sample_libs sample_server sample_input (calm_world sample_host) = (r, w')"
    "h_spawned (db w') = [command_config ''dir'']"
proof -
  have "works (\<lambda>h. h = sample_host) (serve_route sample_libs sample_config sample_input [] (Inputs ''w1'')) (\<lambda>x h. h_spawned h = [command_config ''dir''])"
    unfolding serve_route_def route.case
    by (rule works_handle_generic [OF sample_host_facts(1,4) _ sample_input_facts(3)], use sample_host_facts in simp,
        rule works_weaken [OF works_generic [OF sample_host_facts(1)]])
      (use sample_host_facts sample_run_result in \<open>auto simp: input_effect_def executed_def settled_def sample_config_def\<close>)
  moreover have "snd (split_path (rq_url sample_input)) = []" by code_simp
  ultimately show ?thesis
    using reply_works [OF _ sample_input_facts(1,2), of "calm_world sample_host"] that by (auto simp: sample_server_def)
qed

theorem input_launched_once_witness:
  "\<exists>r w1 r' w3. reply sample_libs sample_server sample_input (calm_world sample_host) = (r, w1) \<and>
     reply sample_libs sample_server sample_input w1 = (r', w3) \<and> h_spawned (db w3) = [command_config ''dir'']"
proof -
  obtain r w1 where 1: "reply sample_libs sample_server sample_input (calm_world sample_host) = (r, w1)"
    "h_spawned (db w1) = [command_config ''dir'']" by (rule sample_launch)
  obtain r' w3 where 3: "reply sample_libs sample_server sample_input w1 = (r', w3)" by fastforce
  have "h_spawned (db w3) = h_spawned (db w1)"
    by (rule input_launched_once [OF _ sample_posts 1(1) _ _ sample_posts 3])
       (use 1(2) sample_host_facts in \<open>simp_all add: ready_def reflpD [OF reflp_run]\<close>)
  then show ?thesis using 1 3 by auto
qed

section \<open>Interactive workflows\<close>

lemma triple_on_db:
  assumes "triple (\<lambda>d. d = h_db h0) m (\<lambda>x d. d = h_db h0 \<and> Q x) (\<lambda>e d. d = h_db h0)"
  shows "triple (\<lambda>h. h = h0) (on_db m) (\<lambda>x h. h = h0 \<and> Q x) (\<lambda>e h. h = h0)"
  unfolding triple_def
proof (intro allI impI)
  fix w :: "host world" assume "db w = h0"
  obtain r v where m: "m (db_view w) = (r, v)" by fastforce
  have "case m (db_view w) of (Inl e, w') \<Rightarrow> db w' = h_db h0 | (Inr x, w') \<Rightarrow> db w' = h_db h0 \<and> Q x"
    using assms \<open>db w = h0\<close> by (simp add: triple_def)
  then show "case on_db m w of (Inl e, w') \<Rightarrow> db w' = h0 | (Inr x, w') \<Rightarrow> db w' = h0 \<and> Q x"
    using m \<open>db w = h0\<close> by (cases r) (auto simp: on_db_apply)
qed

lemma triple_open:
  assumes "schema d0" "log_ok d0"
  shows "triple (\<lambda>d. d = d0) (open_storage L) (\<lambda>_ d. d = d0 \<and> True) (\<lambda>_ d. d = d0)"
    "triple (\<lambda>d. d = d0) (open_manager L) (\<lambda>_ d. d = d0 \<and> True) (\<lambda>_ d. d = d0)"
proof -
  have l: "logged_db d0 = d0" using assms by (auto simp: logged_db_def log_ok_def split: option.splits)
  have m: "triple (\<lambda>d. d = d0) migrate (\<lambda>_ d. d = d0) (\<lambda>_ d. d = d0)"
    using triple_migrate [OF assms(2)] assms(1) l by (auto elim: triple_weaken)
  have s: "triple (\<lambda>d. d = d0) (map_err f (sql (\<lambda>d. Inr ((), d)))) (\<lambda>_ d. d = d0) (\<lambda>_ d. d = d0)" for f
    by (rule triple_map_err, rule triple_sql) auto
  have o: "triple (\<lambda>d. d = d0) (storage_open L) (\<lambda>_ d. d = d0) (\<lambda>_ d. d = d0)"
    unfolding storage_open_def open_step_def
    by (rule triple_andthen [where R = "\<lambda>_ d. d = d0"], (cases "lib_dir_error L"; simp add: triple_ret s))
       (rule s | rule triple_andthen [where R = "\<lambda>_ d. d = d0"])+
  show "triple (\<lambda>d. d = d0) (open_storage L) (\<lambda>_ d. d = d0 \<and> True) (\<lambda>_ d. d = d0)"
    unfolding open_storage_def simp_thms
    by (rule triple_andthen [OF o], rule triple_andthen [OF m], rule triple_ret)
  show "triple (\<lambda>d. d = d0) (open_manager L) (\<lambda>_ d. d = d0 \<and> True) (\<lambda>_ d. d = d0)"
    unfolding open_manager_def manager_new_def store_def simp_thms
    by (rule triple_andthen, rule triple_map_err, rule o, rule triple_andthen, rule triple_map_err, rule m, rule triple_ret)
qed

lemma triple_get:
  "triple (\<lambda>d. d = d0) (manager_get_workflow wid) (\<lambda>found d. d = d0 \<and> found = find_workflow d0 wid) (\<lambda>_ d. d = d0)"
  unfolding manager_get_workflow_def store_def get_workflow_def query_def stmt_def
  by (rule triple_map_err, rule triple_map_err, rule triple_sql) (auto split: if_splits)

lemma triple_or_500: "triple P m Q (\<lambda>_ h. F h) \<Longrightarrow> triple P (or_500 L t m) Q (\<lambda>r h. F h \<and> rs_status r = 500)"
  unfolding or_500_def by (rule triple_map_err) (auto simp: error_body_def json_status_def elim: triple_weaken)

text \<open>No call of \<open>lookup\<close> writes, so nor does the interactive path.\<close>

lemma interactive_unchanged:
  assumes "schema (h_db h0)" "log_ok (h_db h0)"
  shows "triple (\<lambda>h. h = h0) (interactive_input L wid) (\<lambda>r h. h = h0 \<and> rs_status r = 501) (\<lambda>r h. h = h0 \<and> rs_status r = 500)"
proof -
  have "reads_only (lookup wid)"
    unfolding lookup_def get_session_binding_def reads_only_def by (intro moves_intros) auto
  then have "db (snd (lookup wid v)) = db v" for v by (metis prod.collapse reads_only_db)
  then have "db (snd (on_db (lookup wid) w)) = db w" for w :: "host world"
    by (simp add: on_db_apply)
  then have "triple (\<lambda>h. h = h0) (attempt (on_db (lookup wid)) (\<lambda>found.
     ret (interactive_refusal L wid (case found of Inr (Some _) \<Rightarrow> True | _ \<Rightarrow> False))))
     (\<lambda>r h. h = h0 \<and> rs_status r = 501) (\<lambda>r h. h = h0 \<and> rs_status r = 500)"
    by (simp add: triple_def attempt_def ret_def interactive_refusal_def json_status_def split: prod.splits) (metis snd_conv)
  then show ?thesis unfolding interactive_input_def
    by (rule triple_andthen [OF triple_or_500, rotated])
       (use triple_on_db [OF triple_open(1) [OF assms]] in simp)
qed

lemma works_interactive:
  assumes "ready (h_db h0)"
  shows "works (\<lambda>h. h = h0) (interactive_input L wid) (\<lambda>_ _. True)"
proof -
  have "works (\<lambda>d. d = h_db h0) (lookup wid) (\<lambda>_ _. True)"
    unfolding lookup_def get_session_binding_def
    by (rule works_andthen [where R = "\<lambda>_ _. True"], rule works_query)
       (use readyD(1) [OF assms] in \<open>auto intro!: works_ret split: option.split\<close>)
  from works_on_db [OF this] have l: "works (\<lambda>h. h = h0) (on_db (lookup wid)) (\<lambda>_ _. True)" by (rule works_weaken) simp
  show ?thesis unfolding interactive_input_def
    by (rule works_andthen [OF works_host_opens(1) [OF assms]], rule works_attempt [OF l], rule works_ret) simp
qed

lemma input_request_status: "input_request L request = Inl r \<Longrightarrow> rs_status r \<in> {400, 413}"
proof -
  have "read_loop bytes reads = Inl e \<Longrightarrow> fst e \<in> {400, 413}" for bytes reads e
    by (induction bytes reads rule: read_loop.induct) (auto split: if_splits)
  then have "read_body request = Inl e \<Longrightarrow> fst e \<in> {400, 413}" for e
    by (auto simp: read_body_def split: sum.splits if_splits)
  then show "input_request L request = Inl r \<Longrightarrow> rs_status r \<in> {400, 413}"
    by (fastforce simp: input_request_def posted_object_def error_body_def json_status_def
        split: sum.splits option.splits prod.splits if_splits)
qed

lemma tripleD: "triple P m Q E \<Longrightarrow> P (db w) \<Longrightarrow> m w = (r, w') \<Longrightarrow> case r of Inl e \<Rightarrow> E e (db w') | Inr x \<Rightarrow> Q x (db w')"
  unfolding triple_def by (cases r) fastforce+

lemma triple_assume: "(b \<Longrightarrow> triple P m Q E) \<Longrightarrow> triple (\<lambda>d. P d \<and> b) m Q E"
  by (auto simp: triple_def)

text \<open>
  C13. An interactive input consumes nothing: posting to a workflow of a provider that needs a
  pseudo-console never reports success, launches nothing and leaves the file, the key of the input
  and the registry exactly as they were, so the same input can be sent again later. This holds under
  every fault; a well-formed request in a healthy engine is refused with 501.
\<close>

theorem interactive_input_keeps_key:
  assumes "ready (h_db (db w))" "find_workflow (h_db (db w)) wid = Some row" "Provider_from_i32 (wr_provider row) \<noteq> Some Generic"
    "route_of (rq_method request) (path_segments (fst (split_path (rq_url request)))) = Inputs wid"
    "reply L server request w = (r, w')"
  shows "db w' = db w \<and> rs_status r \<in> {400, 401, 413, 500, 501} \<and>
    (quiet w \<and> bearer_ok L request (sv_token server) \<and> (\<exists>x. input_request L request = Inr x) \<longrightarrow> rs_status r = 501)"
proof -
  let ?h0 = "db w"
  have n: "schema (h_db ?h0)" "log_ok (h_db ?h0)" using assms(1) by (simp_all add: ready_def)
  let ?E = "\<lambda>r h. h = ?h0 \<and> rs_status r \<in> {400, 413, 500}"
  have i: "triple (\<lambda>h. h = ?h0) (handle_input L (sv_config server) request wid) (\<lambda>r h. h = ?h0 \<and> rs_status r = 501) ?E"
  proof (cases "input_request L request")
    case (Inl e)
    then show ?thesis using input_request_status [OF Inl] by (auto simp: handle_input_def intro!: triple_fail)
  next
    case (Inr x)
    obtain iid body dst where x: "x = (iid, body, dst)" by (cases x)
    have o: "triple (\<lambda>h. h = ?h0) (or_500 L t (on_db (open_manager L))) (\<lambda>_ h. h = ?h0) ?E" for t
      using triple_or_500 [OF triple_on_db [OF triple_open(2) [OF n]]] by (rule triple_weaken) auto
    have g: "triple (\<lambda>h. h = ?h0) (or_500 L t (on_db (manager_get_workflow wid)))
        (\<lambda>found h. h = ?h0 \<and> found = find_workflow (h_db ?h0) wid) ?E" for t
      using triple_or_500 [OF triple_on_db [OF triple_get]] by (rule triple_weaken) auto
    show ?thesis unfolding handle_input_def Inr x sum.case prod.case
      by (rule triple_andthen [OF o], rule triple_andthen [OF g], rule triple_assume)
         (use assms(2,3) interactive_unchanged [OF n, of L wid] in \<open>auto elim: triple_weaken\<close>)
  qed
  obtain q where q: "bearer_ok L request (sv_token server) \<Longrightarrow> handle_input L (sv_config server) request wid w = (q, w') \<and>
      r = (case q of Inl e \<Rightarrow> e | Inr x \<Rightarrow> x)"
    using assms(4,5) by (cases "handle_input L (sv_config server) request wid w")
      (auto simp: reply_def serve_route_def case_prod_beta Let_def split: if_splits)
  have ok: "\<exists>x. q = Inr x" if "quiet w" "bearer_ok L request (sv_token server)" "input_request L request = Inr y" for y
  proof -
    have "works (\<lambda>h. h = ?h0) (handle_input L (sv_config server) request wid) (\<lambda>_ _. True)"
      unfolding handle_input_def that(3) sum.case
      apply (rule works_case_prod, rule works_case_prod, rule works_andthen [OF works_host_opens(2) [OF assms(1)]])
      apply (rule works_andthen [OF works_host_opens(3) [OF assms(1)]], rule works_fixed, elim conjE)
      apply (use assms(2,3) works_interactive [OF assms(1), of L wid] in simp)
      done
    then show ?thesis using that(1) q [OF that(2)] by (auto elim!: worksE)
  qed
  show ?thesis
  proof (cases "bearer_ok L request (sv_token server)")
    case True
    have h: "handle_input L (sv_config server) request wid w = (q, w')" and r: "r = (case q of Inl e \<Rightarrow> e | Inr x \<Rightarrow> x)"
      using q [OF True] by auto
    have "case q of Inl e \<Rightarrow> ?E e (db w') | Inr x \<Rightarrow> db w' = ?h0 \<and> rs_status x = 501"
      using i refl h by (rule tripleD)
    then show ?thesis using r ok True by (cases q) auto
  next
    case False
    then show ?thesis using assms(5) by (auto simp: reply_def unauthorized_def)
  qed
qed

definition console_host :: host where
  "console_host = sample_host\<lparr>h_db := sample_db\<lparr>t_workflows :=
     map (\<lambda>r. r\<lparr>wr_provider := 2\<rparr>) (t_workflows sample_db)\<rparr>\<rparr>"

theorem interactive_input_keeps_key_witness:
  "\<exists>r w'. reply sample_libs sample_server sample_input (calm_world console_host) = (r, w') \<and> db w' = console_host \<and> rs_status r = 501"
proof -
  obtain r w' where r: "reply sample_libs sample_server sample_input (calm_world console_host) = (r, w')" by fastforce
  have "wf_db (h_db console_host)"
    by (simp add: console_host_def wf_db_def wf_workflows_def wf_rings_def wf_bindings_def wf_requests_def ring_ok_def
        sample_db_def fresh_db_def events_of_def outbox_of_def cut_of_def dropped_of_def high_water_def
        ring_count_def ring_bytes_def find_truncation_def MAX_RING_EVENTS_def MAX_RING_BYTES_def
        valid_state_def WorkflowState_from_i32_def is_persistable_def Provider_from_i32_def)
  then have "ready (h_db (db (calm_world console_host)))"
    by (simp add: ready_def console_host_def log_ok_def sample_db_def)
  moreover obtain row where "find_workflow (h_db (db (calm_world console_host))) ''w1'' = Some row" "Provider_from_i32 (wr_provider row) \<noteq> Some Generic"
    by (simp add: console_host_def find_workflow_def sample_db_def Provider_from_i32_def)
  ultimately show ?thesis
    using interactive_input_keeps_key [OF _ _ _ sample_input_facts(2) r] r sample_input_facts by auto
qed

section \<open>Approvals\<close>

text \<open>Opening a migrated file in a healthy engine costs statements and nothing else.\<close>

lemma open_quiet:
  fixes w :: "database world"
  assumes "quiet w" "ready (db w)"
  shows "\<exists>n. open_storage L w = (Inr (), w\<lparr>stmt_no := n\<rparr>)" "\<exists>n. open_manager L w = (Inr (), w\<lparr>stmt_no := n\<rparr>)"
    "\<exists>n. manager_get_workflow wid w = (Inr (find_workflow (db w) wid), w\<lparr>stmt_no := n\<rparr>)"
proof -
  obtain l where l: "migrations_log (db w) = Some l" "''0001_init'' \<in> set (map fst l)"
    using assms(2) by (auto simp: ready_def log_ok_def split: option.splits)
  have m: "\<exists>n. migrate w' = (Inr [], w'\<lparr>stmt_no := n\<rparr>)" if "quiet w'" "db w' = db w" for w' :: "database world"
    using that l by (cases w') (auto simp: migrate_def andthen_apply map_err_apply ret_apply sql_def quiet_def Let_def
        create_migrations_log_def applied_names_def MIGRATIONS_def)
  have "\<exists>k. storage_open L w = (Inr (), w\<lparr>stmt_no := k\<rparr>)"
    using assms(1) by (cases w; cases "lib_dir_error L")
      (auto simp: storage_open_def open_step_def andthen_apply map_err_apply ret_apply sql_def quiet_def Let_def)
  then obtain k where o: "storage_open L w = (Inr (), w\<lparr>stmt_no := k\<rparr>)" by blast
  have m': "\<exists>n. migrate (w\<lparr>stmt_no := k\<rparr>) = (Inr [], w\<lparr>stmt_no := n\<rparr>)"
    using m [of "w\<lparr>stmt_no := k\<rparr>"] assms(1) by simp
  show "\<exists>n. open_storage L w = (Inr (), w\<lparr>stmt_no := n\<rparr>)"
    using m' by (auto simp: open_storage_def io_simps o)
  show "\<exists>n. open_manager L w = (Inr (), w\<lparr>stmt_no := n\<rparr>)"
    using m' by (auto simp: open_manager_def manager_new_def store_def io_simps o)
  show "\<exists>n. manager_get_workflow wid w = (Inr (find_workflow (db w) wid), w\<lparr>stmt_no := n\<rparr>)"
    using assms by (cases w) (auto simp: manager_get_workflow_def store_def get_workflow_def query_def stmt_quiet io_simps ready_def)
qed

lemma host_stmts:
  assumes "\<exists>n. m (db_view w) = (Inr x, (db_view w)\<lparr>stmt_no := n\<rparr>)"
  shows "\<exists>n. or_500 L t (on_db m) w = (Inr x, w\<lparr>stmt_no := n\<rparr>)"
  using assms by (cases w) (auto simp: or_500_def map_err_apply on_db_def db_view_def)

lemma host_opens_quiet:
  assumes "quiet w" "ready (h_db (db w))"
  shows "\<exists>n. or_500 L t (on_db (open_storage L)) w = (Inr (), w\<lparr>stmt_no := n\<rparr>)"
    "\<exists>n. or_500 L t' (on_db (open_manager L)) w = (Inr (), w\<lparr>stmt_no := n\<rparr>)"
    "\<exists>n. or_500 L t' (on_db (manager_get_workflow wid)) w = (Inr (find_workflow (h_db (db w)) wid), w\<lparr>stmt_no := n\<rparr>)"
  using open_quiet [of "db_view w"] assms by (auto intro!: host_stmts)

lemma handle_approval_quiet:
  assumes "quiet w" "ready (h_db (db w))" "approval_request L request = Inr (aid, allow)" "find_workflow (h_db (db w)) wid \<noteq> None"
  shows "\<exists>n. handle_approval L config request wid w = apply_approval L config wid aid allow (w\<lparr>stmt_no := n\<rparr>)"
proof -
  obtain n1 where 1: "or_500 L (LifecycleError_text L) (on_db (open_manager L)) w = (Inr (), w\<lparr>stmt_no := n1\<rparr>)"
    using host_opens_quiet(2) [OF assms(1,2)] by blast
  obtain n2 where 2: "or_500 L (LifecycleError_text L) (on_db (manager_get_workflow wid)) (w\<lparr>stmt_no := n1\<rparr>) =
      (Inr (find_workflow (h_db (db w)) wid), w\<lparr>stmt_no := n2\<rparr>)"
    using host_opens_quiet(3) [of "w\<lparr>stmt_no := n1\<rparr>" L "LifecycleError_text L" wid] assms(1,2) by auto
  obtain n3 where 3: "or_500 L (StorageError_text L) (on_db (open_storage L)) (w\<lparr>stmt_no := n2\<rparr>) = (Inr (), w\<lparr>stmt_no := n3\<rparr>)"
    using host_opens_quiet(1) [of "w\<lparr>stmt_no := n2\<rparr>" L "StorageError_text L"] assms(1,2) by auto
  show ?thesis using assms(3,4) by (auto simp: handle_approval_def andthen_apply 1 2 3)
qed

lemma apply_approval_quiet:
  assumes "quiet w" "ready (h_db (db w))" "apply_approval L config wid aid allow w = (q, w')"
  shows "case resolve_answer (h_db (db w)) (world_now w) aid of
      Inl e \<Rightarrow> q = Inl (resolve_failure L e) \<and> h_registry (db w') = h_registry (db w)
    | Inr _ \<Rightarrow> (\<exists>b. q = Inr (json_ok L b)) \<and>
        (\<exists>row. find_request (h_db (db w')) aid = Some row \<and> pr_state row = 2 \<and> pr_resolve_payload row = Some (verdict_word allow)) \<and>
        \<lparr>ap_approval_id = aid, ap_workflow_id = wid, ap_resolution = verdict_word allow\<rparr> \<in> set (rg_approvals (h_registry (db w')))"
proof -
  have v: "quiet (db_view w)" "schema (db (db_view w))" "wf_db (db (db_view w))" "world_now (db_view w) = world_now w"
    using assms(1,2) by (simp_all add: ready_def) (simp add: world_now_def db_view_def)
  obtain v' where r: "resolve_pending_request aid (verdict_word allow) (db_view w) =
      (resolve_answer (h_db (db w)) (world_now w) aid, v')"
    using resolve_quiet [OF v(1-3), of aid "verdict_word allow"] v(4) by auto
  show ?thesis
  proof (cases "resolve_answer (h_db (db w)) (world_now w) aid")
    case (Inl e)
    then show ?thesis using assms(3) r by (auto simp: apply_approval_def andthen_apply map_err_apply on_db_apply)
  next
    case (Inr u)
    then have "resolve_pending_request aid (verdict_word allow) (db_view w) = (Inr u, v')" using r by simp
    then obtain row where row: "find_request (db v') aid = Some row" "pr_state row = 2" "pr_resolve_payload row = Some (verdict_word allow)"
      using v(3) by (rule resolve_okE) simp
    then show ?thesis using assms(3) r Inr
      by (auto simp: apply_approval_def io_simps on_db_apply touch_def registry_io_def persist_registry_def registry_save_def
          fs_write_def Let_def record_approval_def split: write_result.splits)
  qed
qed

definition approval_status :: "database \<Rightarrow> int \<Rightarrow> string \<Rightarrow> nat" where
  "approval_status d now aid = (case find_request d aid of
       None \<Rightarrow> 404
     | Some row \<Rightarrow> if pr_state row = 1 then (if overdue now row then 410 else 200) else if pr_state row = 3 then 410 else 409)"

lemma reply_approval:
  assumes "quiet w" "ready (h_db (db w))" "bearer_ok L request (sv_token server)"
    "route_of (rq_method request) (path_segments (fst (split_path (rq_url request)))) = Approvals wid"
    "approval_request L request = Inr (aid, allow)" "find_workflow (h_db (db w)) wid \<noteq> None"
    "reply L server request w = (r, w')"
  shows "rs_status r = approval_status (h_db (db w)) (world_now w) aid \<and>
    (if rs_status r = 200
     then (\<exists>row. find_request (h_db (db w')) aid = Some row \<and> pr_state row = 2 \<and> pr_resolve_payload row = Some (verdict_word allow)) \<and>
       \<lparr>ap_approval_id = aid, ap_workflow_id = wid, ap_resolution = verdict_word allow\<rparr> \<in> set (rg_approvals (h_registry (db w')))
     else h_registry (db w') = h_registry (db w))"
proof -
  obtain n where n: "handle_approval L (sv_config server) request wid w = apply_approval L (sv_config server) wid aid allow (w\<lparr>stmt_no := n\<rparr>)"
    using handle_approval_quiet [OF assms(1,2,5,6)] by blast
  obtain q where q: "apply_approval L (sv_config server) wid aid allow (w\<lparr>stmt_no := n\<rparr>) = (q, w')" "r = (case q of Inl e \<Rightarrow> e | Inr x \<Rightarrow> x)"
    using assms(3,4,7) n by (cases "apply_approval L (sv_config server) wid aid allow (w\<lparr>stmt_no := n\<rparr>)")
      (auto simp: reply_def serve_route_def case_prod_beta Let_def)
  have a: "world_now (w\<lparr>stmt_no := n\<rparr>) = world_now w" by (simp add: world_now_def)
  note e = apply_approval_quiet [OF _ _ q(1), simplified a]
  show ?thesis
  proof (cases "resolve_answer (h_db (db w)) (world_now w) aid")
    case (Inl err)
    then show ?thesis using e assms(1,2) q(2)
      by (auto simp: resolve_answer_def approval_status_def error_body_def json_status_def split: option.splits if_splits)
  next
    case (Inr u)
    then show ?thesis using e assms(1,2) q(2)
      by (auto simp: resolve_answer_def approval_status_def json_ok_def json_status_def split: option.splits if_splits)
  qed
qed

text \<open>
  C12. An approval is answered by the state of the request it names: unknown 404, answered before
  409, expired or past its deadline 410, and 200 otherwise; on 200 the verdict is stored with the
  request and remembered in the registry, on every other answer the registry is left alone.
\<close>

theorem approval_answered:
  assumes "quiet w" "ready (h_db (db w))" "bearer_ok L request (sv_token server)"
    "route_of (rq_method request) (path_segments (fst (split_path (rq_url request)))) = Approvals wid"
    "approval_request L request = Inr (aid, allow)" "find_workflow (h_db (db w)) wid \<noteq> None"
    "reply L server request w = (r, w')"
  shows "rs_status r = approval_status (h_db (db w)) (world_now w) aid \<and>
    (if rs_status r = 200
     then (\<exists>row. find_request (h_db (db w')) aid = Some row \<and> pr_state row = 2 \<and> pr_resolve_payload row = Some (verdict_word allow)) \<and>
       \<lparr>ap_approval_id = aid, ap_workflow_id = wid, ap_resolution = verdict_word allow\<rparr> \<in> set (rg_approvals (h_registry (db w')))
     else h_registry (db w') = h_registry (db w))"
  using assms by (rule reply_approval)

definition asking_host :: host where
  "asking_host = sample_host\<lparr>h_db := asking_db\<rparr>"

definition approval_body :: string where
  "approval_body = (let q = [dquote] in ''{'' @ q @ ''approval_id'' @ q @ '':'' @ q @ ''q'' @ q @ '','' @ q @ ''allow'' @ q @ '':true}'')"

definition sample_approval :: Request where
  "sample_approval = \<lparr>rq_method = Post, rq_url = ''/v1/agent/workflows/w1/approvals'',
     rq_headers = [(''Authorization'', ''Bearer secret''), (''X-Request-ID'', ''q'')], rq_reads = [ReadOk approval_body]\<rparr>"

lemma sample_approval_facts:
  "bearer_ok sample_libs sample_approval (sv_token sample_server)"
  "route_of (rq_method sample_approval) (path_segments (fst (split_path (rq_url sample_approval)))) = Approvals ''w1''"
  "approval_request sample_libs sample_approval = Inr (''q'', True)"
proof -
  show "bearer_ok sample_libs sample_approval (sv_token sample_server)" by code_simp
  show "route_of (rq_method sample_approval) (path_segments (fst (split_path (rq_url sample_approval)))) = Approvals ''w1''" by code_simp
  have "valid_utf8 approval_body" by code_simp
  then have r: "read_body sample_approval = Inr approval_body"
    by (simp add: read_body_def sample_approval_def MAX_BODY_BYTES_def) (simp add: approval_body_def Let_def)
  have o: "parse_object sample_libs approval_body = Some (Obj [(''allow'', Bool True), (''approval_id'', Str ''q'')])" by code_simp
  have i: "request_id_of sample_libs sample_approval = Some ''q''" by code_simp
  show "approval_request sample_libs sample_approval = Inr (''q'', True)"
    by (simp add: approval_request_def posted_object_def r o i)
qed

theorem approval_answered_witness:
  "\<exists>r w'. reply sample_libs sample_server sample_approval (calm_world asking_host) = (r, w') \<and> rs_status r = 200 \<and>
     (\<exists>row. find_request (h_db (db w')) ''q'' = Some row \<and> pr_resolve_payload row = Some ''approved'')"
proof -
  obtain r w' where r: "reply sample_libs sample_server sample_approval (calm_world asking_host) = (r, w')" by fastforce
  have "ready (h_db (db (calm_world asking_host)))"
    by (simp add: ready_def asking_host_def) (simp add: asking_db_def log_ok_def sample_db_def)
  moreover have "find_workflow (h_db (db (calm_world asking_host))) ''w1'' \<noteq> None"
    by (simp add: asking_host_def asking_db_def find_workflow_def sample_db_def)
  moreover have "approval_status (h_db (db (calm_world asking_host))) (world_now (calm_world asking_host)) ''q'' = 200"
    by (simp add: approval_status_def asking_host_def asking_db_def find_request_def overdue_def world_now_def as_i64_def)
  ultimately show ?thesis
    using approval_answered [OF _ _ sample_approval_facts _ r] r by (auto simp: verdict_word_def)
qed

text \<open>
  The answer does not depend on the workflow of the request: an approval asked for by one workflow is
  resolved through the URL of another and filed under that one.
\<close>

definition two_host :: host where
  "two_host = asking_host\<lparr>h_db := asking_db\<lparr>t_workflows := t_workflows sample_db @ map (\<lambda>r. r\<lparr>wr_workflow_id := ''w2''\<rparr>) (t_workflows sample_db)\<rparr>\<rparr>"

definition crossed_approval :: Request where
  "crossed_approval = sample_approval\<lparr>rq_url := ''/v1/agent/workflows/w2/approvals''\<rparr>"

theorem approval_crosses_workflows:
  "\<exists>r w' row. reply sample_libs sample_server crossed_approval (calm_world two_host) = (r, w') \<and> rs_status r = 200 \<and>
     find_request (h_db two_host) ''q'' = Some row \<and> pr_workflow_id row = ''w1'' \<and>
     \<lparr>ap_approval_id = ''q'', ap_workflow_id = ''w2'', ap_resolution = ''approved''\<rparr> \<in> set (rg_approvals (h_registry (db w')))"
proof -
  obtain r w' where r: "reply sample_libs sample_server crossed_approval (calm_world two_host) = (r, w')" by fastforce
  have "wf_db (h_db two_host)"
    by (simp add: two_host_def asking_db_def wf_db_def wf_workflows_def wf_rings_def wf_bindings_def wf_requests_def wf_request_def
        ring_ok_def sample_db_def fresh_db_def events_of_def outbox_of_def cut_of_def dropped_of_def high_water_def
        ring_count_def ring_bytes_def find_truncation_def MAX_RING_EVENTS_def MAX_RING_BYTES_def find_workflow_def
        valid_state_def WorkflowState_from_i32_def is_persistable_def Provider_from_i32_def RequestKind_from_i32_def)
  then have "ready (h_db (db (calm_world two_host)))"
    by (simp add: ready_def two_host_def asking_db_def) (simp add: log_ok_def sample_db_def)
  moreover have "find_workflow (h_db (db (calm_world two_host))) ''w2'' \<noteq> None"
    by (simp add: two_host_def find_workflow_def sample_db_def)
  moreover have "approval_status (h_db (db (calm_world two_host))) (world_now (calm_world two_host)) ''q'' = 200"
    by (simp add: approval_status_def two_host_def asking_db_def find_request_def overdue_def world_now_def as_i64_def)
  moreover have "bearer_ok sample_libs crossed_approval (sv_token sample_server)" by code_simp
  moreover have "route_of (rq_method crossed_approval) (path_segments (fst (split_path (rq_url crossed_approval)))) = Approvals ''w2''" by code_simp
  moreover have "read_body crossed_approval = read_body sample_approval"
    "request_id_of sample_libs crossed_approval = request_id_of sample_libs sample_approval"
    by (simp_all add: read_body_def request_id_of_def crossed_approval_def)
  then have "approval_request sample_libs crossed_approval = approval_request sample_libs sample_approval"
    by (simp only: approval_request_def posted_object_def)
  ultimately show ?thesis
    using reply_approval [of "calm_world two_host" sample_libs crossed_approval sample_server "''w2''" "''q''" True, OF _ _ _ _ _ _ r]
      r sample_approval_facts(3)
    by (auto simp: verdict_word_def two_host_def asking_db_def find_request_def)
qed

section \<open>Snapshots\<close>

lemma works_events_after:
  assumes "schema d0" "wf_db d0"
  shows "works (\<lambda>d. d = d0) (events_since wid 0 RING_READ_LIMIT) (\<lambda>es d. d = d0 \<and> es = map map_event (events_of d0 wid))"
proof -
  note ok = ring_okI [OF assms(2), of wid]
  have "length (events_of d0 wid) \<le> RING_READ_LIMIT"
    using ring_okD(6) [OF ok] by (simp add: ring_count_def MAX_RING_EVENTS_def RING_READ_LIMIT_def)
  moreover have "nat (0 - cut_of d0 wid) = 0" using ring_okD(1) [OF ok] by simp
  ultimately have "take RING_READ_LIMIT (sort_key er_seq_no (filter (\<lambda>r. 0 < er_seq_no r) (events_of d0 wid))) = events_of d0 wid"
    using window_filter_after [OF ring_window [OF ok], of 0] window_sorted(1) [OF ring_window [OF ok]] by simp
  then show ?thesis unfolding events_since_def events_after_def
    by (intro works_store works_query) (use assms in simp)
qed

lemma snapshot_last_seq:
  assumes "wf_db d" "high_water d wid \<le> i64_max"
  shows "int_field (snapshot_value registry computer wid row (map map_event (events_of d wid))) ''last_seq_no'' =
    Some (if events_of d wid = [] then 0 else high_water d wid)"
proof -
  have "0 \<le> high_water d wid" using ring_okD(1) [OF ring_okI [OF assms(1)], of wid] by (simp add: high_water_def ring_count_def)
  then have "as_i64 (high_water d wid) = high_water d wid" using assms(2) by (simp add: as_i64_def width_defs)
  then show ?thesis using last_seq [OF assms(1) _ assms(2)]
    by (simp add: snapshot_value_def obj_def less_char_def Let_def)
qed

lemma works_snapshot:
  assumes "ready (h_db h0)" "find_workflow (h_db h0) wid = Some row" "computer = cc_computer_id config"
  shows "works (\<lambda>h. h = h0) (handle_workflow_snapshot L config computer wid)
     (\<lambda>r h. r = json_ok L (snapshot_value (h_registry h0) computer wid row (map map_event (events_of (h_db h0) wid))) \<and>
        touched L config wid h0 h)"
proof -
  let ?b = "snapshot_value (h_registry h0) computer wid row (map map_event (events_of (h_db h0) wid))"
  have s: "works (\<lambda>d. d = h_db h0) (workflow_snapshot_body (h_registry h0) computer wid) (\<lambda>x d. d = h_db h0 \<and> x = Some ?b)"
    unfolding workflow_snapshot_body_def
    apply (rule works_andthen [OF works_manager_get [OF readyD(1) [OF assms(1)]]], rule works_fixed, elim conjE)
    apply (simp add: assms(2), rule works_andthen, rule works_events_after [OF readyD(1) [OF assms(1)] readyD(3) [OF assms(1)]])
    apply (rule works_ret, simp)
    done
  show ?thesis unfolding handle_workflow_snapshot_def
    apply (subst if_not_P, use assms(3) in simp)
    apply (rule works_andthen [OF works_host_opens(2) [OF assms(1)]])
    apply (rule works_andthen [where R = "\<lambda>r h. h = h0 \<and> r = h_registry h0"], simp add: works_def registry_io_def)
    apply (rule works_fixed, elim conjE, simp only:)
    apply (rule works_andthen, rule works_or_500, rule works_on_db_same [OF s])
    apply (rule works_fixed, elim conjE, simp only: option.case)
    apply (rule works_touch_persist)
    done
qed

text \<open>
  C15. A snapshot shows the whole ring: with a healthy engine the snapshot of an existing workflow is
  built from every event its ring holds (the read limit of 5500 never cuts), its \<open>last_seq_no\<close> is the
  newest sequence number ever appended (0 for an empty ring), its activity is the newest 500 events,
  and reading it changes nothing of the store.
\<close>

theorem snapshot_answered:
  assumes "quiet w" "ready (h_db (db w))" "bearer_ok L request (sv_token server)"
    "route_of (rq_method request) (path_segments (fst (split_path (rq_url request)))) = Snapshot (cc_computer_id (sv_config server)) wid"
    "find_workflow (h_db (db w)) wid = Some row" "high_water (h_db (db w)) wid \<le> i64_max"
  shows "\<exists>w' body. reply L server request w = (json_ok L body, w') \<and> h_db (db w') = h_db (db w) \<and>
    body = snapshot_value (h_registry (db w)) (cc_computer_id (sv_config server)) wid row (map map_event (events_of (h_db (db w)) wid)) \<and>
    int_field body ''last_seq_no'' = Some (if events_of (h_db (db w)) wid = [] then 0 else high_water (h_db (db w)) wid)"
proof -
  have "works (\<lambda>h. h = db w) (serve_route L (sv_config server) request (snd (split_path (rq_url request)))
      (Snapshot (cc_computer_id (sv_config server)) wid)) (\<lambda>r h. r = json_ok L (snapshot_value (h_registry (db w)) (cc_computer_id (sv_config server)) wid row
         (map map_event (events_of (h_db (db w)) wid))) \<and> touched L (sv_config server) wid (db w) h)"
    unfolding serve_route_def route.case by (rule works_snapshot [OF assms(2,5) refl])
  from reply_works [OF assms(1,3,4) this] show ?thesis
    using snapshot_last_seq [OF readyD(3) [OF assms(2)] assms(6)] by (auto simp: touched_def)
qed

definition sample_get :: Request where
  "sample_get = \<lparr>rq_method = Get, rq_url = ''/v1/agent/computers/pc/workflows/w1'',
     rq_headers = [(''Authorization'', ''Bearer secret'')], rq_reads = []\<rparr>"

theorem snapshot_answered_witness:
  "\<exists>w' body. reply sample_libs sample_server sample_get (calm_world sample_host) = (json_ok sample_libs body, w') \<and>
     int_field body ''last_seq_no'' = Some 0"
proof -
  have "bearer_ok sample_libs sample_get (sv_token sample_server)" by code_simp
  moreover have "route_of (rq_method sample_get) (path_segments (fst (split_path (rq_url sample_get)))) =
      Snapshot (cc_computer_id (sv_config sample_server)) ''w1''" by code_simp
  moreover have "high_water (h_db (db (calm_world sample_host))) ''w1'' \<le> i64_max" by (simp add: sample_host_def width_defs)
  ultimately show ?thesis
    using snapshot_answered [of "calm_world sample_host" sample_libs sample_get sample_server "''w1''"] sample_host_facts
    by (fastforce simp: sample_host_def)
qed

end
