(* ===== verification/Handles.thy ===== *)
theory Handles
  imports Plain World
begin

text \<open>
  The process layer of calcar-pty: \<open>WorkflowPty::spawn\<close> and \<open>PlainChild::spawn\<close> with the drops of
  what they return, over a ledger of kernel objects.

  The kernel counts every object up: a handle, a console and a process are numbers that were never
  given out before. The ledger lists the open handles, the open pseudo consoles, the initialised
  attribute lists, the running processes with the job each is in, and the threads that own a file.
  Closing something that is not open is recorded in \<open>k_bad\<close>. Which of the fallible calls fails is the
  fault schedule of the world (\<open>stmt_fault\<close>), so a theorem about every world is one about every way
  the calls can fail. Closing the last handle of a job that kills on close ends its processes.
\<close>

section \<open>The ledger\<close>

record kernel =
  k_next :: nat
  k_open :: "nat list"
  k_consoles :: "nat list"
  k_attrs :: nat
  k_bad :: bool
  k_procs :: "(nat \<times> nat option) list"
  k_kill_on_close :: "nat list"
  k_threads :: "nat list"
  k_null_thread :: bool
  k_last_error :: "nat \<Rightarrow> string"

type_synonym 'a os = "(kernel, PtyError, 'a) io"

definition end_job :: "nat \<Rightarrow> kernel \<Rightarrow> kernel" where
  "end_job job k = k\<lparr>k_procs := filter (\<lambda>p. snd p \<noteq> Some job) (k_procs k)\<rparr>"

text \<open>\<open>CloseHandle\<close>.\<close>

definition close_handle :: "nat \<Rightarrow> kernel \<Rightarrow> kernel" where
  "close_handle h k =
     (if h \<in> set (k_open k) then
        (let k1 = k\<lparr>k_open := remove1 h (k_open k)\<rparr> in if h \<in> set (k_kill_on_close k) then end_job h k1 else k1)
      else k\<lparr>k_bad := True\<rparr>)"

definition close_handles :: "nat list \<Rightarrow> kernel \<Rightarrow> kernel" where
  "close_handles hs k = fold close_handle hs k"

definition close_console :: "nat \<Rightarrow> kernel \<Rightarrow> kernel" where
  "close_console c k = (if c \<in> set (k_consoles k) then k\<lparr>k_consoles := remove1 c (k_consoles k)\<rparr> else k\<lparr>k_bad := True\<rparr>)"

definition create_pipe :: "kernel \<Rightarrow> (nat \<times> nat) \<times> kernel" where
  "create_pipe k = ((k_next k, k_next k + 1), k\<lparr>k_next := k_next k + 2, k_open := k_next k # (k_next k + 1) # k_open k\<rparr>)"

definition create_console :: "kernel \<Rightarrow> nat \<times> kernel" where
  "create_console k = (k_next k, k\<lparr>k_next := k_next k + 1, k_consoles := k_next k # k_consoles k\<rparr>)"

definition create_job :: "kernel \<Rightarrow> nat \<times> kernel" where
  "create_job k = (k_next k, k\<lparr>k_next := k_next k + 1, k_open := k_next k # k_open k\<rparr>)"

definition set_kill_on_close :: "nat \<Rightarrow> kernel \<Rightarrow> unit \<times> kernel" where
  "set_kill_on_close job k = ((), k\<lparr>k_kill_on_close := job # k_kill_on_close k\<rparr>)"

definition init_attrs :: "kernel \<Rightarrow> unit \<times> kernel" where
  "init_attrs k = ((), k\<lparr>k_attrs := k_attrs k + 1\<rparr>)"

definition delete_attrs :: "kernel \<Rightarrow> kernel" where
  "delete_attrs k = k\<lparr>k_attrs := k_attrs k - 1, k_bad := (k_bad k \<or> k_attrs k = 0)\<rparr>"

definition no_effect :: "kernel \<Rightarrow> unit \<times> kernel" where
  "no_effect k = ((), k)"

text \<open>\<open>CreateProcessW\<close>: the process handle and the thread handle, which may be null.\<close>

definition create_process :: "kernel \<Rightarrow> (nat \<times> nat option) \<times> kernel" where
  "create_process k =
     (let process = k_next k; thread = (if k_null_thread k then None else Some (k_next k + 1)) in
      ((process, thread),
       k\<lparr>k_next := k_next k + 2, k_open := process # (case thread of None \<Rightarrow> [] | Some t \<Rightarrow> [t]) @ k_open k,
         k_procs := (process, None) # k_procs k\<rparr>))"

definition assign_job :: "nat \<Rightarrow> nat \<Rightarrow> kernel \<Rightarrow> unit \<times> kernel" where
  "assign_job job process k = ((), k\<lparr>k_procs := map (\<lambda>p. if fst p = process then (process, Some job) else p) (k_procs k)\<rparr>)"

definition end_process :: "nat \<Rightarrow> kernel \<Rightarrow> kernel" where
  "end_process process k = k\<lparr>k_procs := filter (\<lambda>p. fst p \<noteq> process) (k_procs k)\<rparr>"

text \<open>A thread that owns the file of a handle; when it ends, the file is closed.\<close>

definition start_thread :: "nat \<Rightarrow> kernel \<Rightarrow> unit \<times> kernel" where
  "start_thread h k = ((), k\<lparr>k_threads := h # k_threads k\<rparr>)"

definition join_thread :: "nat \<Rightarrow> kernel \<Rightarrow> kernel" where
  "join_thread h k = (close_handle h k)\<lparr>k_threads := remove1 h (k_threads k)\<rparr>"

text \<open>
  A fallible call: on failure the handler of the source's \<open>if\<close> runs, else the rest of the function.
  The failing path of a \<open>windows\<close> call cleans up and reports \<open>last_error\<close>.
\<close>

definition call :: "(kernel \<Rightarrow> 'a \<times> kernel) \<Rightarrow> 'b os \<Rightarrow> ('a \<Rightarrow> 'b os) \<Rightarrow> 'b os" where
  "call f failed k = (\<lambda>w. let w1 = w\<lparr>stmt_no := stmt_no w + 1\<rparr> in
     if stmt_fault w (stmt_no w) then failed w1
     else case f (db w) of (x, s) \<Rightarrow> k x (w1\<lparr>db := s\<rparr>))"

definition does :: "(kernel \<Rightarrow> kernel) \<Rightarrow> 'a os \<Rightarrow> 'a os" where
  "does f k = (\<lambda>w. k (w\<lparr>db := f (db w)\<rparr>))"

definition windows_error :: "string \<Rightarrow> 'a os" where
  "windows_error name = (\<lambda>w. (Inl (Windows name (k_last_error (db w) (stmt_no w))), w))"

definition io_error :: "'a os" where
  "io_error = (\<lambda>w. (Inl (PtyError.Io (k_last_error (db w) (stmt_no w))), w))"

section \<open>The pseudo console\<close>

definition DEFAULT_OUTPUT_BUFFER_BYTES :: nat where "DEFAULT_OUTPUT_BUFFER_BYTES = 1024 * 1024"

record SpawnConfig =
  sc_argv :: "string list"
  sc_working_dir :: "string option"
  sc_env :: "(string \<times> string) list"
  sc_cols :: int
  sc_rows :: int
  sc_output_buffer_bytes :: nat

definition spawn_config_new :: "string list \<Rightarrow> SpawnConfig" where
  "spawn_config_new argv = \<lparr>sc_argv = argv, sc_working_dir = None, sc_env = [], sc_cols = 120, sc_rows = 30,
     sc_output_buffer_bytes = DEFAULT_OUTPUT_BUFFER_BYTES\<rparr>"

record WorkflowPty =
  wp_job :: nat
  wp_process :: nat
  wp_conpty :: nat
  wp_console_input :: nat
  wp_console_output :: nat
  wp_input :: nat
  wp_pump :: nat

text \<open>The end of \<open>spawn\<close>, from the process on: it joins the job, and the pump is started.\<close>

definition pty_start :: "nat \<Rightarrow> nat \<Rightarrow> nat \<Rightarrow> nat \<times> nat \<Rightarrow> nat \<times> nat \<Rightarrow> WorkflowPty os" where
  "pty_start job process conpty = (\<lambda>(input_read, input_write) (output_read, output_write).
     call (assign_job job process)
       (does (end_job job) (does (close_handle process) (does (close_handle job) (does (close_console conpty) (
         does (close_handles [input_read, input_write, output_read, output_write])
           (windows_error ''AssignProcessToJobObject'')))))) (\<lambda>_.
     call (start_thread output_read)
       (does (close_handle output_read) (does (close_handle input_write) (does (end_job job) (
         does (close_handle process) (does (close_handle job) (does (close_console conpty) (
         does (close_handles [input_read, output_write]) io_error))))))) (\<lambda>_.
     ret \<lparr>wp_job = job, wp_process = process, wp_conpty = conpty, wp_console_input = input_read,
          wp_console_output = output_write, wp_input = input_write, wp_pump = output_read\<rparr>)))"

definition pty_spawn :: "SpawnConfig \<Rightarrow> WorkflowPty os" where
  "pty_spawn config = (case command_line (sc_argv config) of Inl e \<Rightarrow> fail e | Inr text \<Rightarrow>
     call create_pipe (windows_error ''CreatePipe input'') (\<lambda>(input_read, input_write).
     call create_pipe
       (does (close_handles [input_read, input_write]) (windows_error ''CreatePipe output'')) (\<lambda>(output_read, output_write).
     let pipes = [input_read, input_write, output_read, output_write] in
     call create_console
       (does (close_handles pipes) (windows_error ''CreatePseudoConsole'')) (\<lambda>conpty.
     call create_job
       (does (close_console conpty) (does (close_handles pipes) (windows_error ''CreateJobObjectW''))) (\<lambda>job.
     let clean = (\<lambda>name. does (close_handle job) (does (close_console conpty) (does (close_handles pipes) (windows_error name)))) in
     call (set_kill_on_close job) (clean ''SetInformationJobObject'') (\<lambda>_.
     call init_attrs (clean ''InitializeProcThreadAttributeList'') (\<lambda>_.
     call no_effect (does delete_attrs (clean ''UpdateProcThreadAttribute'')) (\<lambda>_.
     call create_process (does delete_attrs (clean ''CreateProcessW'')) (\<lambda>(process, thread).
     does delete_attrs (
     does (case thread of None \<Rightarrow> id | Some t \<Rightarrow> close_handle t) (
     pty_start job process conpty (input_read, input_write) (output_read, output_write))))))))))))"

text \<open>
  \<open>Drop for Inner\<close> and the drops of its fields: the job is ended, the console and its pipe ends are
  closed, the pump is joined; then job, process and input are closed.
\<close>

definition pty_drop :: "WorkflowPty \<Rightarrow> kernel \<Rightarrow> kernel" where
  "pty_drop p k =
     close_handle (wp_input p) (close_handle (wp_process p) (close_handle (wp_job p) (
     join_thread (wp_pump p) (
     close_handle (wp_console_output p) (close_handle (wp_console_input p) (
     close_console (wp_conpty p) (end_job (wp_job p) k)))))))"

text \<open>\<open>kill\<close>, and \<open>wait\<close> over the remembered exit.\<close>

definition pty_kill :: "WorkflowPty \<Rightarrow> kernel \<Rightarrow> kernel" where
  "pty_kill p k = end_job (wp_job p) k"

record pty_exit =
  px_exit_code :: int
  px_exited :: bool

definition pty_wait :: "wait_result \<Rightarrow> pty_exit \<Rightarrow> (PtyError + int option) \<times> pty_exit" where
  "pty_wait os x =
     (if px_exited x then (Inr (Some (px_exit_code x)), x)
      else case os of
        Timeout \<Rightarrow> (Inr None, x)
      | WaitFailed name message \<Rightarrow> (Inl (Windows name message), x)
      | Exited code \<Rightarrow> (Inr (Some code), x\<lparr>px_exit_code := code, px_exited := True\<rparr>))"

section \<open>The plain child\<close>

text \<open>\<open>?\<close> in a function that owns handles: on an error its locals are dropped, the newest first.\<close>

definition try_drop :: "nat list \<Rightarrow> 'a os \<Rightarrow> ('a \<Rightarrow> 'b os) \<Rightarrow> 'b os" where
  "try_drop owned m k = (\<lambda>w. case m w of
       (Inl e, w1) \<Rightarrow> (Inl e, w1\<lparr>db := close_handles owned (db w1)\<rparr>)
     | (Inr x, w1) \<Rightarrow> k x w1)"

definition output_pipe :: "(nat \<times> nat) os" where
  "output_pipe =
     call create_pipe (windows_error ''CreatePipe'') (\<lambda>(read, write).
     call no_effect (does (close_handles [read, write]) (windows_error ''SetHandleInformation'')) (\<lambda>_.
     ret (read, write)))"

definition stdin_pipe :: "(nat \<times> nat) os" where
  "stdin_pipe =
     call create_pipe (windows_error ''CreatePipe stdin'') (\<lambda>(read, write).
     call no_effect (does (close_handles [read, write]) (windows_error ''SetHandleInformation stdin'')) (\<lambda>_.
     ret (read, write)))"

definition kill_on_close_job :: "nat os" where
  "kill_on_close_job =
     call create_job (windows_error ''CreateJobObjectW'') (\<lambda>job.
     call (set_kill_on_close job) (does (close_handle job) (windows_error ''SetInformationJobObject'')) (\<lambda>_.
     ret job))"

record PlainInner =
  pi_job :: nat
  pi_process :: nat
  pi_stdout_pump :: nat
  pi_stderr_pump :: nat
  pi_stdin_writer :: "nat option"

definition stdin_pair :: "string option \<Rightarrow> (nat \<times> nat) option os" where
  "stdin_pair input = (case input of None \<Rightarrow> ret None | Some _ \<Rightarrow> andthen stdin_pipe (\<lambda>p. ret (Some p)))"

text \<open>From \<open>CreateProcessW\<close> on: the writer, then the pumps; \<open>owned\<close> is what the function still owns.\<close>

definition plain_pumps :: "nat \<Rightarrow> nat \<Rightarrow> nat \<Rightarrow> nat \<Rightarrow> nat option \<Rightarrow> PlainInner os" where
  "plain_pumps job process stdout_read stderr_read writer =
     call (start_thread stdout_read)
       (does (close_handle stdout_read) (does (end_job job) (does (close_handles [stderr_read, process, job]) io_error))) (\<lambda>_.
     call (start_thread stderr_read)
       (does (close_handle stderr_read) (does (end_job job) (does (close_handles [process, job]) io_error))) (\<lambda>_.
     ret \<lparr>pi_job = job, pi_process = process, pi_stdout_pump = stdout_read, pi_stderr_pump = stderr_read, pi_stdin_writer = writer\<rparr>))"

definition plain_spawn :: "PlainConfig \<Rightarrow> PlainInner os" where
  "plain_spawn config = (case command_line (pg_argv config) of Inl e \<Rightarrow> fail e | Inr text \<Rightarrow>
     try_drop [] output_pipe (\<lambda>(stdout_read, stdout_write).
     try_drop [stdout_write, stdout_read] output_pipe (\<lambda>(stderr_read, stderr_write).
     let outs = [stderr_write, stderr_read, stdout_write, stdout_read] in
     try_drop outs (stdin_pair (pg_input config)) (\<lambda>pair.
     let ins = (case pair of None \<Rightarrow> [] | Some (read, write) \<Rightarrow> [read, write]) in
     try_drop (ins @ outs) kill_on_close_job (\<lambda>job.
     call create_process (does (close_handles (job # ins @ outs)) (windows_error ''CreateProcessW'')) (\<lambda>(process, thread).
     does (case thread of None \<Rightarrow> id | Some t \<Rightarrow> close_handle t) (
     does (close_handles [stdout_write, stderr_write]) (
     does (close_handles (take 1 ins)) (
     call (assign_job job process)
       (does (end_process process) (does (close_handles (drop 1 ins @ [process, job, stderr_read, stdout_read]))
         (windows_error ''AssignProcessToJobObject''))) (\<lambda>_.
     case pair of
       None \<Rightarrow> plain_pumps job process stdout_read stderr_read None
     | Some (_, write) \<Rightarrow>
         call (start_thread write)
           (does (close_handle write) (does (end_job job) (does (close_handles [process, job, stderr_read, stdout_read]) io_error))) (\<lambda>_.
         plain_pumps job process stdout_read stderr_read (Some write))))))))))))"

text \<open>\<open>Drop for Inner\<close>: end the job, join the writer and the pumps, then the two handles.\<close>

definition plain_drop :: "PlainInner \<Rightarrow> kernel \<Rightarrow> kernel" where
  "plain_drop p k =
     close_handle (pi_process p) (close_handle (pi_job p) (
     join_thread (pi_stderr_pump p) (join_thread (pi_stdout_pump p) (
     (case pi_stdin_writer p of None \<Rightarrow> id | Some t \<Rightarrow> join_thread t) (end_job (pi_job p) k)))))"

definition plain_kill :: "PlainInner \<Rightarrow> kernel \<Rightarrow> kernel" where
  "plain_kill p k = end_job (pi_job p) k"

section \<open>Nothing leaks\<close>

text \<open>Numbers are given out once: no process is in a job with a number that is still to come.\<close>

definition fresh_kernel :: "kernel \<Rightarrow> bool" where
  "fresh_kernel k \<longleftrightarrow> (\<forall>p\<in>set (k_procs k). fst p < k_next k \<and> (\<forall>j. snd p = Some j \<longrightarrow> j < k_next k)) \<and>
     (\<forall>j\<in>set (k_kill_on_close k). j < k_next k)"

definition ledger where
  "ledger k = (k_open k, k_consoles k, k_attrs k, k_bad k, k_procs k, k_threads k)"

text \<open>Every run of \<open>m\<close> from the kernel \<open>k\<close>, whichever calls fail, ends with \<open>Q\<close>.\<close>

definition ensures :: "(PtyError + 'a \<Rightarrow> kernel \<Rightarrow> bool) \<Rightarrow> 'a os \<Rightarrow> kernel \<Rightarrow> bool" where
  "ensures Q m k \<longleftrightarrow> (\<forall>w. db w = k \<longrightarrow> Q (fst (m w)) (db (snd (m w))))"

lemma ensuresD: "ensures Q m (db w) \<Longrightarrow> m w = (r, w') \<Longrightarrow> Q r (db w')"
  unfolding ensures_def by (metis fst_conv snd_conv)

lemma ensures_call: "ensures Q failed k \<Longrightarrow> (case f k of (x, s) \<Rightarrow> ensures Q (c x) s) \<Longrightarrow> ensures Q (call f failed c) k"
  by (auto simp: ensures_def call_def Let_def split: prod.splits)

lemma ensures_does: "ensures Q m (f k) \<Longrightarrow> ensures Q (does f m) k"
  by (simp add: ensures_def does_def)

lemma ensures_ret: "Q (Inr x) k \<Longrightarrow> ensures Q (ret x) k"
  by (simp add: ensures_def ret_def)

lemma ensures_fail: "Q (Inl e) k \<Longrightarrow> ensures Q (fail e) k"
  by (simp add: ensures_def fail_def)

lemma ensures_errors:
  "(\<And>m. Q (Inl (Windows name m)) k) \<Longrightarrow> ensures Q (windows_error name) k"
  "(\<And>m. Q (Inl (PtyError.Io m)) k) \<Longrightarrow> ensures Q io_error k"
  by (simp_all add: ensures_def windows_error_def io_error_def)

lemma ensures_try_drop:
  "ensures (\<lambda>r s. case r of Inl e \<Rightarrow> Q (Inl e) (close_handles owned s) | Inr x \<Rightarrow> ensures Q (c x) s) m k \<Longrightarrow>
   ensures Q (try_drop owned m c) k"
  unfolding ensures_def try_drop_def by (fastforce split: prod.splits sum.splits)

lemma ensures_andthen:
  "ensures (\<lambda>r s. case r of Inl e \<Rightarrow> Q (Inl e) s | Inr x \<Rightarrow> ensures Q (c x) s) m k \<Longrightarrow> ensures Q (andthen m c) k"
  unfolding ensures_def andthen_def by (fastforce split: prod.splits sum.splits)

text \<open>The rules that run a program symbolically, and the results of the calls.\<close>

lemmas ensures_rules = ensures_call ensures_does ensures_ret ensures_fail ensures_errors ensures_try_drop ensures_andthen

lemmas call_results = create_pipe_def create_console_def create_job_def set_kill_on_close_def init_attrs_def no_effect_def
  create_process_def assign_job_def start_thread_def Let_def

lemmas kernel_ops = close_handles_def close_handle_def close_console_def create_pipe_def create_console_def create_job_def
  set_kill_on_close_def init_attrs_def delete_attrs_def no_effect_def create_process_def assign_job_def end_process_def
  end_job_def start_thread_def join_thread_def

lemma fresh_filters:
  assumes "fresh_kernel k" "k_next k \<le> n"
  shows "filter (\<lambda>p. snd p \<noteq> Some n) (k_procs k) = k_procs k" "filter (\<lambda>p. fst p \<noteq> n) (k_procs k) = k_procs k"
    "map (\<lambda>p. if fst p = n then (n, x) else p) (k_procs k) = k_procs k" "n \<notin> set (k_kill_on_close k)"
  using assms by (force simp: fresh_kernel_def filter_id_conv intro!: map_idI)+

definition pty_outcome :: "kernel \<Rightarrow> PtyError + WorkflowPty \<Rightarrow> kernel \<Rightarrow> bool" where
  "pty_outcome k r k' \<longleftrightarrow> (case r of
      Inl e \<Rightarrow> if \<exists>m. e = Windows ''AssignProcessToJobObject'' m
        then \<exists>process. ledger k' = ledger (k\<lparr>k_procs := (process, None) # k_procs k\<rparr>)
        else ledger k' = ledger k
    | Inr p \<Rightarrow> ledger (pty_drop p k') = ledger k \<and> k_bad k' = k_bad k \<and> (wp_process p, Some (wp_job p)) \<in> set (k_procs k'))"

lemma pty_spawn_ensures:
  assumes f: "fresh_kernel k"
  shows "ensures (pty_outcome k) (pty_spawn config) k"
proof (cases "command_line (sc_argv config)")
  case (Inl e)
  then have "e = InvalidConfig ''argv is empty''" by (simp add: command_line_def split: if_splits)
  with Inl show ?thesis by (simp add: pty_spawn_def ensures_fail pty_outcome_def)
next
  case (Inr line)
  show ?thesis
    unfolding pty_spawn_def pty_start_def Inr sum.case
    by (cases "k_null_thread k"; (rule ensures_rules | simp add: call_results
        | (simp add: pty_outcome_def pty_drop_def ledger_def kernel_ops fresh_filters [OF f]; fail))+)
qed

text \<open>The threads started since \<open>k\<close>.\<close>

definition new_threads :: "kernel \<Rightarrow> kernel \<Rightarrow> nat list" where
  "new_threads k k' = take (length (k_threads k') - length (k_threads k)) (k_threads k')"

definition plain_outcome :: "kernel \<Rightarrow> PtyError + PlainInner \<Rightarrow> kernel \<Rightarrow> bool" where
  "plain_outcome k r k' \<longleftrightarrow> (case r of
      Inl e \<Rightarrow> k_procs k' = k_procs k \<and> ledger (fold join_thread (new_threads k k') k') = ledger k
    | Inr p \<Rightarrow> ledger (plain_drop p k') = ledger k \<and> k_bad k' = k_bad k \<and> (pi_process p, Some (pi_job p)) \<in> set (k_procs k'))"

lemma plain_spawn_ensures:
  assumes f: "fresh_kernel k"
  shows "ensures (plain_outcome k) (plain_spawn config) k"
proof (cases "command_line (pg_argv config)")
  case (Inl e)
  then show ?thesis by (simp add: plain_spawn_def ensures_fail plain_outcome_def new_threads_def)
next
  case (Inr line)
  show ?thesis
    unfolding plain_spawn_def Inr sum.case stdin_pair_def output_pipe_def kill_on_close_job_def stdin_pipe_def plain_pumps_def
    by (cases "k_null_thread k"; cases "pg_input config"; (rule ensures_rules | simp add: call_results
        | (simp add: plain_outcome_def plain_drop_def new_threads_def ledger_def kernel_ops fresh_filters [OF f]; fail))+)
qed


text \<open>
  C33. Starting a plain child leaks nothing, whichever of its calls fails: after an error no process runs
  that did not run before, and the only handles still open are those of the writer and pump threads
  that were already started, which are closed when these end. On success the process is in its job,
  and dropping the child gives everything back and ends the process.
\<close>

theorem plain_spawn_leaks_nothing:
  assumes "fresh_kernel (db w)" "plain_spawn config w = (r, w')"
  shows "case r of
      Inl e \<Rightarrow> k_procs (db w') = k_procs (db w) \<and>
        ledger (fold join_thread (new_threads (db w) (db w')) (db w')) = ledger (db w)
    | Inr p \<Rightarrow> ledger (plain_drop p (db w')) = ledger (db w) \<and> k_bad (db w') = k_bad (db w) \<and>
        (pi_process p, Some (pi_job p)) \<in> set (k_procs (db w'))"
  using ensuresD [OF plain_spawn_ensures [OF assms(1)] assms(2)] by (simp add: plain_outcome_def)

definition sample_kernel :: kernel where
  "sample_kernel = \<lparr>k_next = 10, k_open = [3], k_consoles = [], k_attrs = 0, k_bad = False, k_procs = [(4, Some 3)],
     k_kill_on_close = [3], k_threads = [], k_null_thread = False, k_last_error = (\<lambda>_. ''GetLastError=5'')\<rparr>"

text \<open>A world in which exactly the \<open>n\<close>-th call fails.\<close>

definition failing_at :: "nat \<Rightarrow> kernel world" where
  "failing_at n = \<lparr>db = sample_kernel, stmt_no = 0, stmt_fault = (\<lambda>i. i = n), clock_no = 0, clock_at = (\<lambda>_. 0)\<rparr>"

lemma failing_fresh: "fresh_kernel (db (failing_at n))"
  by (simp add: failing_at_def sample_kernel_def fresh_kernel_def)

lemma command_line_cmd: "command_line [''cmd.exe''] = Inr ''cmd.exe''"
  by code_simp


theorem plain_spawn_leaks_nothing_witness:
  "\<exists>p w'. plain_spawn (plain_config_new [''cmd.exe'']) (failing_at 99) = (Inr p, w') \<and>
     ledger (plain_drop p (db w')) = ledger sample_kernel"
proof -
  obtain p w' where r: "plain_spawn (plain_config_new [''cmd.exe'']) (failing_at 99) = (Inr p, w')"
    by (simp add: plain_spawn_def plain_config_new_def command_line_cmd call_def does_def windows_error_def failing_at_def
        call_results try_drop_def output_pipe_def stdin_pair_def kill_on_close_job_def plain_pumps_def ret_def)
  from plain_spawn_leaks_nothing [OF failing_fresh r] r show ?thesis by (auto simp: failing_at_def)
qed

text \<open>
  A process that could not be put into the job keeps running outside of it: the pseudo console ends the
  job, which the process is not in, where the plain child ends the process.
\<close>

theorem pty_spawn_orphan:
  "\<exists>e w' process. pty_spawn (spawn_config_new [''cmd.exe'']) (failing_at 8) = (Inl (Windows ''AssignProcessToJobObject'' e), w') \<and>
     k_procs (db w') = (process, None) # k_procs sample_kernel"
proof -
  obtain e w' where r: "pty_spawn (spawn_config_new [''cmd.exe'']) (failing_at 8) = (Inl (Windows ''AssignProcessToJobObject'' e), w')"
    by (simp add: pty_spawn_def pty_start_def spawn_config_new_def command_line_cmd call_def does_def windows_error_def failing_at_def call_results)
  from ensuresD [OF pty_spawn_ensures [OF failing_fresh] r] r show ?thesis
    by (auto simp: failing_at_def pty_outcome_def ledger_def)
qed

end
