(* ===== verification/Pump.thy ===== *)
theory Pump
  imports Handles
begin

text \<open>
  The output path of a pseudo console (calcar-pty/src/lib.rs): the pump thread, the bounded channel,
  the reads of the consumer and \<open>read_until\<close>, and what joining the pump in \<open>Drop\<close> waits for.

  The thread and the consumer interleave: a step relation. \<open>cn_source\<close> is what the console wrote and
  the pump has not read yet, \<open>cn_held\<close> the chunk the pump is sending, \<open>cn_open\<close> says that a write end of
  the pipe is open, so that an empty source blocks the read; \<open>cn_rx\<close> that the receiver exists. The
  ghost \<open>cn_produced\<close> is everything the console wrote.
\<close>

section \<open>The channel\<close>

definition PUMP_CHUNK_BYTES :: nat where "PUMP_CHUNK_BYTES = 16 * 1024"

definition channel_capacity :: "SpawnConfig \<Rightarrow> nat" where
  "channel_capacity config = max 1 (sc_output_buffer_bytes config div PUMP_CHUNK_BYTES)"

record channel =
  cn_source :: "string list"
  cn_held :: "string option"
  cn_queue :: "string list"
  cn_cap :: nat
  cn_open :: bool
  cn_rx :: bool
  cn_done :: bool
  cn_closed :: bool
  cn_received :: "string list"
  cn_produced :: "string list"

definition channel_new :: "SpawnConfig \<Rightarrow> channel" where
  "channel_new config = \<lparr>cn_source = [], cn_held = None, cn_queue = [], cn_cap = channel_capacity config, cn_open = True,
     cn_rx = True, cn_done = False, cn_closed = False, cn_received = [], cn_produced = []\<rparr>"

text \<open>One step of \<open>pump_output\<close>: a read, the end of the stream, a send with room, a send with no receiver.\<close>

inductive pump_output :: "channel \<Rightarrow> channel \<Rightarrow> bool" where
  read: "\<not> cn_done s \<Longrightarrow> cn_held s = None \<Longrightarrow> cn_source s = c # cs \<Longrightarrow>
    pump_output s (s\<lparr>cn_held := Some c, cn_source := cs\<rparr>)"
| eof: "\<not> cn_done s \<Longrightarrow> cn_held s = None \<Longrightarrow> cn_source s = [] \<Longrightarrow> \<not> cn_open s \<Longrightarrow> pump_output s (s\<lparr>cn_done := True\<rparr>)"
| send: "cn_held s = Some c \<Longrightarrow> cn_rx s \<Longrightarrow> length (cn_queue s) < cn_cap s \<Longrightarrow>
    pump_output s (s\<lparr>cn_queue := cn_queue s @ [c], cn_held := None\<rparr>)"
| gone: "cn_held s = Some c \<Longrightarrow> \<not> cn_rx s \<Longrightarrow> pump_output s (s\<lparr>cn_held := None, cn_done := True\<rparr>)"

text \<open>\<open>try_output\<close>; \<open>recv_output\<close> differs only in how long it waits for the first case.\<close>

definition try_output :: "channel \<Rightarrow> string option \<times> channel" where
  "try_output s = (case cn_queue s of
       c # q \<Rightarrow> (Some c, s\<lparr>cn_queue := q, cn_received := cn_received s @ [c]\<rparr>)
     | [] \<Rightarrow> if cn_done s then (None, s\<lparr>cn_closed := True\<rparr>) else (None, s))"

inductive channel_step :: "channel \<Rightarrow> channel \<Rightarrow> bool" where
  pump: "pump_output s s' \<Longrightarrow> channel_step s s'"
| recv: "channel_step s (snd (try_output s))"
| produce: "cn_open s \<Longrightarrow> c \<noteq> [] \<Longrightarrow> channel_step s (s\<lparr>cn_source := cn_source s @ [c], cn_produced := cn_produced s @ [c]\<rparr>)"
| shut: "channel_step s (s\<lparr>cn_open := False\<rparr>)"

inductive_cases pump_outputE: "pump_output s s'"

definition held :: "channel \<Rightarrow> string list" where
  "held s = (case cn_held s of None \<Rightarrow> [] | Some c \<Rightarrow> [c])"

definition channel_ok :: "channel \<Rightarrow> bool" where
  "channel_ok s \<longleftrightarrow> cn_received s @ cn_queue s @ held s @ cn_source s = cn_produced s \<and> length (cn_queue s) \<le> cn_cap s \<and> cn_rx s \<and>
     (cn_done s \<longrightarrow> cn_held s = None \<and> cn_source s = [] \<and> \<not> cn_open s) \<and> (cn_closed s \<longrightarrow> cn_done s \<and> cn_queue s = [])"

lemma pump_ok: "pump_output s s' \<Longrightarrow> channel_ok s \<Longrightarrow> channel_ok s'"
  by (induction rule: pump_output.induct) (auto simp: channel_ok_def held_def)

lemma channel_step_ok: "channel_step s s' \<Longrightarrow> channel_ok s \<Longrightarrow> channel_ok s'"
proof (induction rule: channel_step.induct)
  case (pump s s')
  then show ?case by (rule pump_ok)
next
  case (recv s)
  then show ?case by (auto simp: channel_ok_def held_def try_output_def split: list.splits)
qed (auto simp: channel_ok_def held_def)

lemma channel_step_cap: "channel_step s s' \<Longrightarrow> cn_cap s' = cn_cap s"
  by (induction rule: channel_step.induct) (auto simp: try_output_def elim: pump_outputE split: list.splits)

interpretation channel_runs: monotone_system channel_step channel_ok "\<lambda>s s'. cn_cap s' = cn_cap s"
  by unfold_locales (auto intro: channel_step_ok simp: channel_step_cap)

lemma channel_reached:
  assumes "channel_step\<^sup>*\<^sup>* (channel_new config) s"
  shows "channel_ok s" "cn_cap s = channel_capacity config"
proof -
  have n: "channel_ok (channel_new config)" by (simp add: channel_ok_def channel_new_def held_def)
  show "channel_ok s" "cn_cap s = channel_capacity config"
    using channel_runs.run_inv [OF assms n] channel_runs.run_le [OF assms n] by (simp_all add: channel_new_def)
qed

text \<open>
  C34. Backpressure without loss: whatever the interleaving of console, pump and consumer, the consumer
  has received a prefix of what the console wrote, in order, the rest is in the channel, in the hand
  of the pump or still in the pipe; the channel never holds more than its capacity; and once the
  output counts as closed everything that was written has been received.
\<close>

theorem channel_exact:
  assumes "channel_step\<^sup>*\<^sup>* (channel_new config) s"
  shows "cn_received s @ cn_queue s @ held s @ cn_source s = cn_produced s \<and>
    length (cn_queue s) \<le> channel_capacity config \<and> (cn_closed s \<longrightarrow> cn_received s = cn_produced s)"
  using channel_reached [OF assms] by (auto simp: channel_ok_def held_def)

section \<open>Dropping the console\<close>

text \<open>
  \<open>Drop\<close> closes the write ends and joins the pump; the receiver is a field of the structure and lives
  until after the join. The pump can then only move by itself.
\<close>

definition outstanding :: "channel \<Rightarrow> nat" where
  "outstanding s = length (cn_queue s) + length (held s) + length (cn_source s)"

lemma pump_outstanding:
  "pump_output s s' \<Longrightarrow> cn_rx s \<Longrightarrow> cn_rx s' \<and> cn_cap s' = cn_cap s \<and> cn_open s' = cn_open s \<and> outstanding s' = outstanding s"
  by (induction rule: pump_output.induct) (auto simp: outstanding_def held_def)

lemma pump_run_outstanding:
  "pump_output\<^sup>*\<^sup>* s s' \<Longrightarrow> cn_rx s \<Longrightarrow> cn_rx s' \<and> cn_cap s' = cn_cap s \<and> cn_open s' = cn_open s \<and> outstanding s' = outstanding s"
proof (induction rule: rtranclp_induct)
  case (step s1 s2)
  then show ?case using pump_outstanding [OF step(2)] by simp
qed simp

lemma pump_finishes:
  assumes "channel_ok s" "\<not> cn_open s" "outstanding s \<le> cn_cap s"
  shows "\<exists>s'. pump_output\<^sup>*\<^sup>* s s' \<and> cn_done s'"
  using assms
proof (induction "2 * length (cn_source s) + length (held s)" arbitrary: s rule: less_induct)
  case (less s)
  show ?case
  proof (cases "cn_done s")
    case True
    then show ?thesis by blast
  next
    case False
    note d = this
    have "\<exists>s1. pump_output s s1 \<and> (cn_done s1 \<or> 2 * length (cn_source s1) + length (held s1) < 2 * length (cn_source s) + length (held s))"
    proof (cases "cn_held s")
      case (Some c)
      then have "pump_output s (s\<lparr>cn_queue := cn_queue s @ [c], cn_held := None\<rparr>)"
        using less.prems by (intro send) (auto simp: channel_ok_def outstanding_def held_def)
      moreover have "length (held (s\<lparr>cn_queue := cn_queue s @ [c], cn_held := None\<rparr>)) < length (held s)" by (simp add: held_def Some)
      ultimately show ?thesis by force
    next
      case None
      note h = this
      show ?thesis
      proof (cases "cn_source s")
        case Nil
        then show ?thesis using eof [OF d h Nil less.prems(2)] by auto
      next
        case (Cons c cs)
        show ?thesis by (rule exI, rule conjI, rule read [OF d h Cons]) (simp add: held_def h Cons)
      qed
    qed
    then obtain s1 where s1: "pump_output s s1"
      "cn_done s1 \<or> 2 * length (cn_source s1) + length (held s1) < 2 * length (cn_source s) + length (held s)" by blast
    then show ?thesis
    proof (elim disjE)
      assume "cn_done s1"
      then show ?thesis using s1(1) by blast
    next
      assume l: "2 * length (cn_source s1) + length (held s1) < 2 * length (cn_source s) + length (held s)"
      have "channel_ok s1" using pump_ok s1(1) less.prems(1) by blast
      moreover have "\<not> cn_open s1" "outstanding s1 \<le> cn_cap s1"
        using pump_outstanding [OF s1(1)] less.prems by (auto simp: channel_ok_def)
      ultimately obtain s' where "pump_output\<^sup>*\<^sup>* s1 s'" "cn_done s'" using less.hyps [OF l] by blast
      then show ?thesis using converse_rtranclp_into_rtranclp [of pump_output, OF s1(1)] by blast
    qed
  qed
qed

text \<open>
  C35. When joining the pump returns: after the write ends are closed, the pump reaches its end exactly
  when what is in the channel, in its hand and in the pipe fits into the channel. With more than
  that the pump blocks on the full channel whose receiver the dropping thread still holds, and the
  join never returns.
\<close>

theorem drop_join_returns_iff:
  assumes "channel_step\<^sup>*\<^sup>* (channel_new config) s" "\<not> cn_open s"
  shows "(\<exists>s'. pump_output\<^sup>*\<^sup>* s s' \<and> cn_done s') \<longleftrightarrow> outstanding s \<le> channel_capacity config"
proof -
  note ok = channel_reached(1) [OF assms(1)] and cap = channel_reached(2) [OF assms(1)]
  have "outstanding s \<le> cn_cap s" if r: "pump_output\<^sup>*\<^sup>* s s'" and d: "cn_done s'" for s'
  proof -
    have "channel_step\<^sup>*\<^sup>* s s'" using r by (rule rtranclp_mono [THEN predicate2D, rotated]) (auto intro: pump)
    then have "channel_ok s'" "cn_cap s' = cn_cap s" using channel_runs.run_inv channel_runs.run_le ok by blast+
    then have "outstanding s' \<le> cn_cap s" using d by (auto simp: channel_ok_def outstanding_def held_def)
    then show ?thesis using pump_run_outstanding [OF r] ok by (simp add: channel_ok_def)
  qed
  then show ?thesis using pump_finishes [OF ok assms(2)] cap by auto
qed

text \<open>A run: two chunks are written, the pump queues one and blocks with the other, and the console is closed.\<close>

definition full_channel :: channel where
  "full_channel = \<lparr>cn_source = [], cn_held = Some ''b'', cn_queue = [''a''], cn_cap = 1, cn_open = False, cn_rx = True, cn_done = False,
     cn_closed = False, cn_received = [], cn_produced = [''a'', ''b'']\<rparr>"

lemma full_channel_reached:
  assumes "channel_capacity config = 1"
  shows "channel_step\<^sup>*\<^sup>* (channel_new config) full_channel"
proof -
  note n = channel_new_def assms
  let ?s1 = "(channel_new config)\<lparr>cn_source := [''a''], cn_produced := [''a'']\<rparr>"
  let ?s2 = "?s1\<lparr>cn_source := [''a'', ''b''], cn_produced := [''a'', ''b'']\<rparr>"
  let ?s3 = "?s2\<lparr>cn_held := Some ''a'', cn_source := [''b'']\<rparr>"
  let ?s4 = "?s3\<lparr>cn_queue := [''a''], cn_held := None\<rparr>"
  let ?s5 = "?s4\<lparr>cn_held := Some ''b'', cn_source := []\<rparr>"
  have "channel_step (channel_new config) ?s1" using produce [of "channel_new config" "''a''"] by (simp add: n)
  moreover have "channel_step ?s1 ?s2" using produce [of ?s1 "''b''"] by (simp add: n)
  moreover have "channel_step ?s2 ?s3" using pump [OF read [of ?s2 "''a''" "[''b'']"]] by (simp add: n)
  moreover have "channel_step ?s3 ?s4" using pump [OF send [of ?s3 "''a''"]] by (simp add: n)
  moreover have "channel_step ?s4 ?s5" using pump [OF read [of ?s4 "''b''" "[]"]] by (simp add: n)
  moreover have "channel_step ?s5 full_channel" using shut [of ?s5] by (simp add: n full_channel_def)
  ultimately show ?thesis by (meson converse_rtranclp_into_rtranclp rtranclp.rtrancl_refl)
qed

definition small_spawn :: SpawnConfig where
  "small_spawn = (spawn_config_new [''cmd.exe''])\<lparr>sc_output_buffer_bytes := 16384\<rparr>"

lemma small_capacity: "channel_capacity small_spawn = 1"
  by (simp add: channel_capacity_def small_spawn_def spawn_config_new_def PUMP_CHUNK_BYTES_def)

theorem channel_exact_witness:
  "channel_step\<^sup>*\<^sup>* (channel_new small_spawn) full_channel \<and> length (cn_queue full_channel) \<le> channel_capacity small_spawn"
  using channel_exact [OF full_channel_reached [OF small_capacity]] full_channel_reached [OF small_capacity] by simp

theorem drop_join_returns_iff_witness:
  "channel_step\<^sup>*\<^sup>* (channel_new small_spawn) full_channel \<and> \<not> (\<exists>s'. pump_output\<^sup>*\<^sup>* full_channel s' \<and> cn_done s')"
  using drop_join_returns_iff [OF full_channel_reached [OF small_capacity]] full_channel_reached [OF small_capacity]
  by (simp add: small_capacity full_channel_def outstanding_def held_def)

section \<open>Reading until a marker\<close>

datatype recv_result = Chunk string | RecvTimeout | Disconnected

fun contains :: "string \<Rightarrow> string \<Rightarrow> bool" where
  "contains marker [] = (marker = [])"
| "contains marker (c # cs) = (take (length marker) (c # cs) = marker \<or> contains marker cs)"

text \<open>
  The loop of \<open>read_until\<close>. Each round takes the next clock reading and the next result of
  \<open>read_timeout\<close>; \<open>None\<close> means that the given rounds were not enough. After \<open>Disconnected\<close> the output
  counts as closed.
\<close>

fun read_until :: "string \<Rightarrow> nat \<Rightarrow> string \<Rightarrow> (nat \<times> recv_result) list \<Rightarrow> string option" where
  "read_until marker deadline collected rounds =
     (if contains marker collected then Some collected
      else case rounds of
        [] \<Rightarrow> None
      | (now, r) # rest \<Rightarrow>
          if deadline \<le> now then Some collected
          else (case r of
            Chunk c \<Rightarrow> read_until marker deadline (collected @ utf8_lossy c) rest
          | RecvTimeout \<Rightarrow> read_until marker deadline collected rest
          | Disconnected \<Rightarrow> Some collected))"

declare read_until.simps [simp del]

lemma read_until_Cons:
  "read_until marker deadline collected ((now, r) # rest) =
     (if contains marker collected \<or> deadline \<le> now then Some collected
      else case r of
          Chunk c \<Rightarrow> read_until marker deadline (collected @ utf8_lossy c) rest
        | RecvTimeout \<Rightarrow> read_until marker deadline collected rest
        | Disconnected \<Rightarrow> Some collected)"
  by (subst read_until.simps) simp

definition chunk_text :: "(nat \<times> recv_result) list \<Rightarrow> string" where
  "chunk_text rounds = concat (map (\<lambda>p. case snd p of Chunk c \<Rightarrow> utf8_lossy c | _ \<Rightarrow> []) rounds)"

text \<open>
  C36. \<open>read_until\<close> returns: as soon as the clock has reached the deadline in some round, or the output
  closed, it has returned; and what it returns is the text of the chunks of the rounds before, which
  holds the marker unless a round ended by the deadline or by the end of the output.
\<close>

theorem read_until_returns:
  assumes "\<exists>(now, r)\<in>set rounds. deadline \<le> now \<or> r = Disconnected"
  shows "\<exists>before after out. rounds = before @ after \<and> read_until marker deadline collected rounds = Some out \<and>
    out = collected @ chunk_text before \<and>
    (contains marker out \<or> (\<exists>now r rest. after = (now, r) # rest \<and> (deadline \<le> now \<or> r = Disconnected)))"
  using assms
proof (induction rounds arbitrary: collected)
  case (Cons p rounds)
  obtain now r where p: "p = (now, r)" by fastforce
  have stop: ?case if "contains marker collected \<or> deadline \<le> now \<or> r = Disconnected"
    by (rule exI [of _ "[]"], rule exI [of _ "p # rounds"], rule exI [of _ collected])
       (use that p in \<open>auto simp: read_until_Cons chunk_text_def\<close>)
  show ?case
  proof (cases "contains marker collected \<or> deadline \<le> now \<or> r = Disconnected")
    case True
    then show ?thesis by (rule stop)
  next
    case False
    let ?c = "case r of Chunk c \<Rightarrow> collected @ utf8_lossy c | _ \<Rightarrow> collected"
    have e: "read_until marker deadline collected (p # rounds) = read_until marker deadline ?c rounds"
      using False p by (simp add: read_until_Cons split: recv_result.split)
    have "\<exists>(now, r)\<in>set rounds. deadline \<le> now \<or> r = Disconnected" using Cons.prems False p by auto
    from Cons.IH [OF this, of ?c] obtain before after out where "rounds = before @ after"
      "read_until marker deadline ?c rounds = Some out" "out = ?c @ chunk_text before"
      "contains marker out \<or> (\<exists>now r rest. after = (now, r) # rest \<and> (deadline \<le> now \<or> r = Disconnected))" by blast
    then show ?thesis using e p
      by (intro exI [of _ "p # before"] exI [of _ after] exI [of _ out])
         (auto simp: chunk_text_def split: recv_result.splits)
  qed
qed simp

theorem read_until_returns_witness:
  "\<exists>out. read_until ''>'' 100 [] [(0, Chunk ''ab''), (50, RecvTimeout), (120, RecvTimeout)] = Some out"
  using read_until_returns [of "[(0, Chunk ''ab''), (50, RecvTimeout), (120, RecvTimeout)]" 100 "''>''" "[]"] by auto

end
