(* ===== verification/Environment.thy ===== *)
theory Environment
  imports Json_Props "HOL-Library.Word"
begin

text \<open>
  \<open>environment_block\<close> of calcar-pty (the same function in lib.rs and plain.rs): the environment of the
  process with overrides, keyed by upper-case names, sorted, in UTF-16 with a null after every entry
  and one at the end. \<open>str::to_uppercase\<close> is a parameter.
\<close>

section \<open>UTF-16\<close>

text \<open>The scalar value of one well-formed UTF-8 sequence.\<close>

fun scalar :: "string \<Rightarrow> nat" where
  "scalar [a] = byte a"
| "scalar [a, b] = (byte a mod 32) * 64 + byte b mod 64"
| "scalar [a, b, c] = (byte a mod 16) * 4096 + (byte b mod 64) * 64 + byte c mod 64"
| "scalar [a, b, c, d] = (byte a mod 8) * 262144 + (byte b mod 64) * 4096 + (byte c mod 64) * 64 + byte d mod 64"
| "scalar _ = 0"

definition utf16_units :: "nat \<Rightarrow> 16 word list" where
  "utf16_units n = (if n < 65536 then [of_nat n]
     else [of_nat (55296 + (n - 65536) div 1024), of_nat (56320 + (n - 65536) mod 1024)])"

function encode_utf16 :: "string \<Rightarrow> 16 word list" where
  "encode_utf16 [] = []"
| "encode_utf16 (c # cs) = (let n = snd (utf8_step (c # cs)) in utf16_units (scalar (take n (c # cs))) @ encode_utf16 (drop n (c # cs)))"
  by pat_completeness auto

termination
proof (relation "measure length")
  show "(drop n (c # cs), c # cs) \<in> measure length" if "n = snd (utf8_step (c # cs))" for n c cs
    using that utf8_step_pos [of c cs] by simp
qed simp

section \<open>The block\<close>

definition environment_map :: "(string \<Rightarrow> string) \<Rightarrow> (string \<times> string) list \<Rightarrow> (string \<times> string) list \<Rightarrow> (string \<times> string) list" where
  "environment_map upper vars overrides =
     fold (\<lambda>(key, value). btree_insert (upper key) value) overrides
       (fold (\<lambda>(k, v). btree_insert (upper k) v) vars [])"

definition environment_block :: "(string \<Rightarrow> string) \<Rightarrow> (string \<times> string) list \<Rightarrow> (string \<times> string) list \<Rightarrow> 16 word list" where
  "environment_block upper vars overrides =
     concat (map (\<lambda>(key, value). encode_utf16 key @ [61] @ encode_utf16 value @ [0]) (environment_map upper vars overrides)) @ [0]"

lemma fold_insert:
  "sorted_wrt (<) (map fst m) \<Longrightarrow>
   sorted_wrt (<) (map fst (fold (\<lambda>(k, v). btree_insert (upper k) v) kvs m)) \<and>
   map_of (fold (\<lambda>(k, v). btree_insert (upper k) v) kvs m) = map_of m ++ map_of (rev (map (\<lambda>(k, v). (upper k, v)) kvs))"
proof (induction kvs arbitrary: m)
  case (Cons kv kvs)
  obtain k v where kv: "kv = (k, v)" by fastforce
  have "sorted_wrt (<) (map fst (btree_insert (upper k) v m))" using Cons.prems by (rule btree_insert_sorted)
  from Cons.IH [OF this] show ?case
    using btree_insert_lookup [OF Cons.prems, of "upper k" v] by (auto simp: kv map_add_def fun_eq_iff split: option.splits)
qed simp

text \<open>
  The child sees every variable once, sorted by name; an override replaces the variable of the same name
  whatever the case it is written in, and of two overrides the later one counts.
\<close>

theorem environment_overrides:
  "sorted_wrt (<) (map fst (environment_map upper vars overrides)) \<and>
   map_of (environment_map upper vars overrides) =
     map_of (rev (map (\<lambda>(k, v). (upper k, v)) vars)) ++ map_of (rev (map (\<lambda>(k, v). (upper k, v)) overrides))"
  using fold_insert [of "fold (\<lambda>(k, v). btree_insert (upper k) v) vars []" upper overrides] fold_insert [of "[]" upper vars]
  by (simp add: environment_map_def)

end
