(* ===== verification/Environment_Props.thy ===== *)
theory Environment_Props
  imports Environment
begin

text \<open>
  What a child process reads of the block and of the wide strings it is started with. The reader is the
  documented convention of \<open>CreateProcessW\<close>: a wide string ends at its first null, a block is a sequence
  of such strings up to an empty one, and an entry splits at the first \<open>=\<close> after its first unit.
\<close>

section \<open>Characters\<close>

definition NUL :: char where "NUL = CHR 0x00"

text \<open>The UTF-8 bytes of a scalar value.\<close>

definition char_utf8 :: "nat \<Rightarrow> string" where
  "char_utf8 n = (if n < 65536 then utf8_encode n
     else [char_of (240 + n div 262144), char_of (128 + n div 4096 mod 64), char_of (128 + n div 64 mod 64), char_of (128 + n mod 64)])"

definition high_half :: "16 word \<Rightarrow> bool" where
  "high_half u \<longleftrightarrow> 55296 \<le> unat u \<and> unat u < 56320"

definition low_half :: "16 word \<Rightarrow> bool" where
  "low_half u \<longleftrightarrow> 56320 \<le> unat u \<and> unat u < 57344"

fun decode_utf16 :: "16 word list \<Rightarrow> string" where
  "decode_utf16 [] = []"
| "decode_utf16 [u] = char_utf8 (unat u)"
| "decode_utf16 (u # v # us) =
     (if high_half u \<and> low_half v then char_utf8 (65536 + (unat u - 55296) * 1024 + (unat v - 56320)) @ decode_utf16 us
      else char_utf8 (unat u) @ decode_utf16 (v # us))"

definition is_scalar :: "nat \<Rightarrow> bool" where
  "is_scalar n \<longleftrightarrow> n < 55296 \<or> 57344 \<le> n \<and> n < 1114112"

lemma char_byte [simp]: "char_of (byte c) = c"
  by (simp add: byte_def)

lemma cont_digit: "cont b \<Longrightarrow> \<exists>y<64. b = 128 + y"
  by (rule exI [of _ "b - 128"]) (auto simp: cont_def)

lemma lead_digit: "m \<le> b \<Longrightarrow> b < m + k \<Longrightarrow> \<exists>x<k. b = m + x" for b m k :: nat
  by (rule exI [of _ "b - m"]) auto

lemma digits64: "(y::nat) < 64 \<Longrightarrow> (x * 64 + y) div 64 = x" "(y::nat) < 64 \<Longrightarrow> (x * 64 + y) mod 64 = y"
  "(n::nat) div 4096 = n div 64 div 64" "(n::nat) div 262144 = n div 64 div 64 div 64"
  by (simp_all flip: div_mult2_eq)

lemma low_bits: "x < 32 \<Longrightarrow> (192 + x) mod 32 = (x::nat)" "x < 16 \<Longrightarrow> (224 + x) mod 16 = (x::nat)"
  "x < 8 \<Longrightarrow> (240 + x) mod 8 = (x::nat)" "x < 64 \<Longrightarrow> (128 + x) mod 64 = (x::nat)"
  using mod_mult_self4 [of 32 6 x] mod_mult_self4 [of 16 14 x] mod_mult_self4 [of 8 30 x] mod_mult_self4 [of 64 2 x] by simp_all

lemma char_of_byte: "byte c = n \<Longrightarrow> char_of n = c"
proof -
  assume n: "byte c = n"
  show "char_of n = c" using char_byte [of c] unfolding n .
qed

text \<open>Every well-formed sequence has a scalar value, and encoding that value gives the sequence back.\<close>

lemma scalar_2:
  assumes "194 \<le> byte a" "byte a \<le> 223" "cont (byte b)"
  shows "is_scalar (scalar [a, b]) \<and> char_utf8 (scalar [a, b]) = [a, b] \<and> 128 \<le> scalar [a, b]"
proof -
  obtain x where x: "byte a = 192 + x" "x < 32" using lead_digit [of 192 "byte a" 32] assms by auto
  obtain y where y: "byte b = 128 + y" "y < 64" using cont_digit [OF assms(3)] by auto
  have s: "scalar [a, b] = x * 64 + y" using x y by (simp add: low_bits)
  define n where "n = scalar [a, b]"
  have d: "n mod 64 = y" "n div 64 = x" using s y unfolding n_def by (simp_all only: digits64)
  have "128 \<le> n" "n < 2048" using s x y assms(1) unfolding n_def by auto
  then show ?thesis
    unfolding n_def [symmetric] char_utf8_def utf8_encode_def is_scalar_def d
    using char_of_byte [OF x(1)] char_of_byte [OF y(1)] by simp
qed

lemma scalar_3:
  assumes "224 \<le> byte a" "byte a \<le> 239" "second_ok (byte a) (byte b)" "cont (byte c)"
  shows "is_scalar (scalar [a, b, c]) \<and> char_utf8 (scalar [a, b, c]) = [a, b, c] \<and> 128 \<le> scalar [a, b, c]"
proof -
  have cb: "cont (byte b)" using assms(3) by (auto simp: second_ok_def cont_def split: if_splits)
  obtain x where x: "byte a = 224 + x" "x < 16" using lead_digit [of 224 "byte a" 16] assms by auto
  obtain y where y: "byte b = 128 + y" "y < 64" using cont_digit [OF cb] by auto
  obtain z where z: "byte c = 128 + z" "z < 64" using cont_digit [OF assms(4)] by auto
  have s: "scalar [a, b, c] = (x * 64 + y) * 64 + z" using x y z by (simp add: low_bits)
  have r: "32 \<le> x * 64 + y" "x * 64 + y < 864 \<or> 896 \<le> x * 64 + y" "x * 64 + y < 1024"
    using assms(3) x y by (auto simp: second_ok_def cont_def split: if_splits)
  define n where "n = scalar [a, b, c]"
  have d: "n mod 64 = z" "n div 64 mod 64 = y" "n div 4096 = x" using s y z unfolding n_def by (simp_all only: digits64)
  have "2048 \<le> n" "n < 55296 \<or> 57344 \<le> n" "n < 65536" using s r z unfolding n_def by auto
  then show ?thesis
    unfolding n_def [symmetric] char_utf8_def utf8_encode_def is_scalar_def d
    using char_of_byte [OF x(1)] char_of_byte [OF y(1)] char_of_byte [OF z(1)] by simp
qed

lemma scalar_4:
  assumes "240 \<le> byte a" "byte a \<le> 244" "second_ok (byte a) (byte b)" "cont (byte c)" "cont (byte d)"
  shows "is_scalar (scalar [a, b, c, d]) \<and> char_utf8 (scalar [a, b, c, d]) = [a, b, c, d] \<and> 128 \<le> scalar [a, b, c, d]"
proof -
  have cb: "cont (byte b)" using assms(3) by (auto simp: second_ok_def cont_def split: if_splits)
  obtain x where x: "byte a = 240 + x" "x < 8" using lead_digit [of 240 "byte a" 8] assms by auto
  obtain y where y: "byte b = 128 + y" "y < 64" using cont_digit [OF cb] by auto
  obtain z where z: "byte c = 128 + z" "z < 64" using cont_digit [OF assms(4)] by auto
  obtain u where u: "byte d = 128 + u" "u < 64" using cont_digit [OF assms(5)] by auto
  have s: "scalar [a, b, c, d] = ((x * 64 + y) * 64 + z) * 64 + u" using x y z u by (simp add: low_bits)
  have r: "16 \<le> x * 64 + y" "x * 64 + y < 272"
    using assms(2,3) x y by (auto simp: second_ok_def cont_def split: if_splits)
  define n where "n = scalar [a, b, c, d]"
  have d: "n mod 64 = u" "n div 64 mod 64 = z" "n div 4096 mod 64 = y" "n div 262144 = x"
    using s y z u unfolding n_def by (simp_all only: digits64)
  have "65536 \<le> n" "n < 1114112" using s r z u unfolding n_def by auto
  then show ?thesis
    unfolding n_def [symmetric] char_utf8_def is_scalar_def d
    using char_of_byte [OF x(1)] char_of_byte [OF y(1)] char_of_byte [OF z(1)] char_of_byte [OF u(1)] by simp
qed

lemma scalar_char:
  assumes "utf8_step ch = (True, length ch)" "ch \<noteq> []"
  shows "is_scalar (scalar ch) \<and> char_utf8 (scalar ch) = ch \<and> (scalar ch < 128 \<longrightarrow> ch = [char_of (scalar ch)])"
proof -
  obtain c cs where ch: "ch = c # cs" using assms(2) by (cases ch) auto
  have "(seq_width (byte c) = 1 \<and> cs = []) \<or>
     (\<exists>c1. cs = [c1] \<and> seq_width (byte c) = 2 \<and> cont (byte c1)) \<or>
     (\<exists>c1 c2. cs = [c1, c2] \<and> seq_width (byte c) = 3 \<and> second_ok (byte c) (byte c1) \<and> cont (byte c2)) \<or>
     (\<exists>c1 c2 c3. cs = [c1, c2, c3] \<and> seq_width (byte c) = 4 \<and> second_ok (byte c) (byte c1) \<and> cont (byte c2) \<and> cont (byte c3))"
    using assms(1) unfolding ch utf8_step.simps(2) Let_def by (auto split: if_splits list.splits)
  then consider "byte c < 128" "cs = []" | c1 where "cs = [c1]" "194 \<le> byte c" "byte c \<le> 223" "cont (byte c1)"
    | c1 c2 where "cs = [c1, c2]" "224 \<le> byte c" "byte c \<le> 239" "second_ok (byte c) (byte c1)" "cont (byte c2)"
    | c1 c2 c3 where "cs = [c1, c2, c3]" "240 \<le> byte c" "byte c \<le> 244" "second_ok (byte c) (byte c1)" "cont (byte c2)" "cont (byte c3)"
    by (auto simp: seq_width_def split: if_splits)
  then show ?thesis
  proof cases
    case 1
    then show ?thesis by (simp add: ch is_scalar_def char_utf8_def utf8_encode_def)
  next
    case 2
    then show ?thesis using scalar_2 [of c c1] by (auto simp: ch)
  next
    case 3
    then show ?thesis using scalar_3 [of c c1 c2] by (auto simp: ch)
  next
    case 4
    then show ?thesis using scalar_4 [of c c1 c2 c3] by (auto simp: ch)
  qed
qed

section \<open>Strings\<close>

lemma unat_of_nat16: "n < 65536 \<Longrightarrow> unat (of_nat n :: 16 word) = n"
  by (simp add: unat_of_nat)

lemma encode_char:
  assumes "utf8_step (ch @ s) = (True, length ch)" "ch \<noteq> []"
  shows "encode_utf16 (ch @ s) = utf16_units (scalar ch) @ encode_utf16 s"
  using assms by (cases ch) (simp_all add: encode_utf16.simps(2) Let_def del: utf8_step.simps)

text \<open>A unit below 128 is an ASCII character on its own; the halves of a pair are above.\<close>

lemma units_shape:
  assumes "is_scalar n"
  obtains "n < 65536" "utf16_units n = [of_nat n]" "\<not> high_half (of_nat n)"
  | u v where "65536 \<le> n" "utf16_units n = [u, v]" "high_half u" "low_half v" "65536 + (unat u - 55296) * 1024 + (unat v - 56320) = n"
proof (cases "n < 65536")
  case True
  then show ?thesis using assms by (intro that(1)) (auto simp: utf16_units_def high_half_def unat_of_nat16 is_scalar_def)
next
  case False
  define m where "m = n - 65536"
  have m: "m < 1048576" "n = 65536 + m" using assms False by (auto simp: is_scalar_def m_def)
  have b: "m div 1024 < 1024" "m mod 1024 < 1024" using m(1) by auto
  show ?thesis
  proof (rule that(2) [of "of_nat (55296 + m div 1024)" "of_nat (56320 + m mod 1024)"])
    show "utf16_units n = [of_nat (55296 + m div 1024), of_nat (56320 + m mod 1024)]"
      using False by (simp add: utf16_units_def m_def)
    have u: "unat (of_nat (55296 + m div 1024) :: 16 word) = 55296 + m div 1024"
      "unat (of_nat (56320 + m mod 1024) :: 16 word) = 56320 + m mod 1024"
      by (rule unat_of_nat16, use b in linarith)+
    show "high_half (of_nat (55296 + m div 1024))" "low_half (of_nat (56320 + m mod 1024))"
      unfolding high_half_def low_half_def u using b by simp_all
    show "65536 + (unat (of_nat (55296 + m div 1024) :: 16 word) - 55296) * 1024 +
        (unat (of_nat (56320 + m mod 1024) :: 16 word) - 56320) = n"
      unfolding u m(2) by simp
  qed (use False in simp)
qed

lemma decode_units: "is_scalar n \<Longrightarrow> decode_utf16 (utf16_units n @ us) = char_utf8 n @ decode_utf16 us"
  by (erule units_shape; cases us) (simp_all add: unat_of_nat16)

theorem decode_encode: "valid_utf8 s \<Longrightarrow> decode_utf16 (encode_utf16 s) = s"
proof (induction rule: utf8_induct)
  case (Char ch c cs s)
  then show ?case using scalar_char [of ch] Char(2) [of "[]"] by (simp add: encode_char decode_units)
qed simp

lemma ascii_units:
  assumes "is_scalar n" "k < 128"
  shows "of_nat k \<in> set (utf16_units n) \<longleftrightarrow> n = k"
  using assms(1)
proof (cases rule: units_shape)
  case 1
  then show ?thesis using assms(2) unat_of_nat16 [of n] unat_of_nat16 [of k] by auto
next
  case (2 u v)
  have "unat (of_nat k :: 16 word) < 128" using assms(2) by (simp add: unat_of_nat16)
  then show ?thesis using 2 assms(2) by (auto simp: high_half_def low_half_def)
qed

lemma ascii_in_char:
  assumes "utf8_step ch = (True, length ch)" "ch = c # cs" "byte a < 128"
  shows "of_nat (byte a) \<in> set (utf16_units (scalar ch)) \<longleftrightarrow> ch = [a]"
proof -
  have sc: "is_scalar (scalar ch)" "char_utf8 (scalar ch) = ch" "scalar ch < 128 \<longrightarrow> ch = [char_of (scalar ch)]"
    using scalar_char [OF assms(1)] assms(2) by simp_all
  have "scalar ch = byte a \<longleftrightarrow> ch = [a]"
    using sc(3) assms(3) by auto
  then show ?thesis using ascii_units [OF sc(1) assms(3)] by simp
qed

lemma encode_ascii_iff: "valid_utf8 s \<Longrightarrow> byte a < 128 \<Longrightarrow> of_nat (byte a) \<in> set (encode_utf16 s) \<longleftrightarrow> a \<in> set s"
proof (induction rule: utf8_induct)
  case (Char ch c cs s)
  have "a \<in> set ch \<longleftrightarrow> ch = [a]" using Char(1,3,6) by fastforce
  moreover have "encode_utf16 (ch @ s) = utf16_units (scalar ch) @ encode_utf16 s"
    using Char(1) by (intro encode_char [OF Char(2)]) simp
  moreover have "of_nat (byte a) \<in> set (utf16_units (scalar ch)) \<longleftrightarrow> ch = [a]"
    using ascii_in_char [OF _ Char(1,6)] Char(2) [of "[]"] by simp
  ultimately show ?case using Char(5) [OF Char(6)] by simp
qed simp

lemma encode_nul_iff: "valid_utf8 s \<Longrightarrow> 0 \<in> set (encode_utf16 s) \<longleftrightarrow> NUL \<in> set s"
  using encode_ascii_iff [of s NUL] by (simp add: NUL_def byte_def)

lemma encode_ascii: "\<forall>c\<in>set s. byte c < 128 \<Longrightarrow> encode_utf16 s = map (\<lambda>c. of_nat (byte c)) s"
proof (induction s)
  case (Cons c s)
  then show ?case using encode_char [of "[c]" s] by (simp add: ascii_step utf16_units_def)
qed simp

section \<open>Wide strings\<close>

definition wide :: "string \<Rightarrow> 16 word list" where
  "wide text = encode_utf16 text @ [0]"

definition read_wide :: "16 word list \<Rightarrow> string" where
  "read_wide us = decode_utf16 (takeWhile (\<lambda>u. u \<noteq> 0) us)"

lemma valid_takeWhile: "valid_utf8 s \<Longrightarrow> valid_utf8 (takeWhile (\<lambda>c. c \<noteq> NUL) s)"
proof (induction rule: utf8_induct)
  case (Char ch c cs s)
  show ?case
  proof (cases "ch = [NUL]")
    case False
    then have "NUL \<notin> set ch" using Char(1,3) by (auto simp: NUL_def byte_def)
    then have "takeWhile (\<lambda>c. c \<noteq> NUL) (ch @ s) = ch @ takeWhile (\<lambda>c. c \<noteq> NUL) s" by (subst takeWhile_append2) auto
    moreover have "valid_utf8 ch" using Char(1) Char(2) [of "[]"] by (simp add: valid_utf8_Cons)
    ultimately show ?thesis using valid_utf8_append [OF _ Char(5)] by simp
  qed simp
qed simp

text \<open>
  A program started with a wide string reads the text up to its first null character: all of it exactly
  when it has none.
\<close>

theorem wide_cut_at_nul:
  assumes "valid_utf8 text"
  shows "read_wide (wide text) = takeWhile (\<lambda>c. c \<noteq> NUL) text"
proof -
  have "takeWhile (\<lambda>u. u \<noteq> 0) (encode_utf16 text @ [0]) = encode_utf16 (takeWhile (\<lambda>c. c \<noteq> NUL) text)"
    using assms
  proof (induction rule: utf8_induct)
    case (Char ch c cs s)
    note e = encode_char [OF Char(2)]
    show ?case
    proof (cases "ch = [NUL]")
      case True
      then show ?thesis using e [of s] by (simp add: utf16_units_def NUL_def byte_def)
    next
      case False
      have n: "NUL \<notin> set ch" using False Char(1,3) by (auto simp: NUL_def byte_def)
      have z: "0 \<notin> set (utf16_units (scalar ch))"
        using ascii_in_char [of ch c cs NUL] Char(1) Char(2) [of "[]"] False by (simp add: NUL_def byte_def)
      have "takeWhile (\<lambda>c. c \<noteq> NUL) (ch @ s) = ch @ takeWhile (\<lambda>c. c \<noteq> NUL) s" using n by (subst takeWhile_append2) auto
      moreover have "takeWhile (\<lambda>u. u \<noteq> 0) (encode_utf16 (ch @ s) @ [0]) = utf16_units (scalar ch) @ takeWhile (\<lambda>u. u \<noteq> 0) (encode_utf16 s @ [0])"
        using e [of s] Char(1) z by (simp, subst takeWhile_append2) auto
      ultimately show ?thesis using e Char(1,5) by simp
    qed
  qed simp
  then show ?thesis by (simp add: read_wide_def wide_def decode_encode valid_takeWhile assms)
qed

section \<open>The block as the child reads it\<close>

function split_block :: "16 word list \<Rightarrow> 16 word list list" where
  "split_block us = (case us of
       [] \<Rightarrow> []
     | u # vs \<Rightarrow> if u = 0 then [] else (u # takeWhile (\<lambda>v. v \<noteq> 0) vs) # split_block (tl (dropWhile (\<lambda>v. v \<noteq> 0) vs)))"
  by pat_completeness auto

termination
proof (relation "measure length")
  show "(tl (dropWhile (\<lambda>v. v \<noteq> 0) vs), us) \<in> measure length" if "us = u # vs" for us vs and u :: "16 word"
    using that length_dropWhile_le [of "\<lambda>v. v \<noteq> 0" vs] by simp
qed simp

declare split_block.simps [simp del]

definition split_entry :: "16 word list \<Rightarrow> string \<times> string" where
  "split_entry e = (decode_utf16 (take 1 e @ takeWhile (\<lambda>u. u \<noteq> 61) (tl e)), decode_utf16 (tl (dropWhile (\<lambda>u. u \<noteq> 61) (tl e))))"

definition read_block :: "16 word list \<Rightarrow> (string \<times> string) list" where
  "read_block us = map split_entry (split_block us)"

text \<open>
  A name a Windows environment can hold: not empty, no null, no \<open>=\<close> after its first character (the
  shell keeps the directory of a drive in names such as \<open>=C:\<close>); and a value without nulls.
\<close>

definition entry_ok :: "string \<times> string \<Rightarrow> bool" where
  "entry_ok = (\<lambda>(key, value). key \<noteq> [] \<and> valid_utf8 key \<and> valid_utf8 value \<and> NUL \<notin> set key \<and> NUL \<notin> set value \<and>
     CHR ''='' \<notin> set (tl key))"

lemma encode_key:
  assumes "valid_utf8 key" "key \<noteq> []" "CHR ''='' \<notin> set (tl key)"
  shows "\<exists>u us. encode_utf16 key = u # us \<and> 61 \<notin> set us"
  using assms
proof (induction rule: utf8_induct)
  case (Char ch c cs s)
  have eq: "byte (CHR ''='') = 61" by (simp add: byte_def)
  have st: "utf8_step ch = (True, length ch)" using Char(2) [of "[]"] by simp
  have e: "encode_utf16 (ch @ s) = utf16_units (scalar ch) @ encode_utf16 s"
    using Char(1) by (intro encode_char [OF Char(2)]) simp
  have s: "61 \<notin> set (encode_utf16 s)"
    using encode_ascii_iff [OF Char(4), of "CHR ''=''"] Char(1,7) by (simp add: eq)
  from scalar_char [OF st] Char(1) have "is_scalar (scalar ch)" by simp
  then have "\<exists>u us. utf16_units (scalar ch) = u # us \<and> 61 \<notin> set us"
  proof (cases rule: units_shape)
    case (2 u v)
    have "unat (61 :: 16 word) = 61" by simp
    then have "v \<noteq> 61" using 2(4) by (auto simp: low_half_def)
    then show ?thesis using 2 by simp
  qed simp
  then show ?case using e s by auto
qed simp

definition block_entry :: "string \<times> string \<Rightarrow> 16 word list" where
  "block_entry = (\<lambda>(key, value). encode_utf16 key @ [61] @ encode_utf16 value)"

lemma split_block_entry:
  assumes "entry_ok e"
  shows "split_block (block_entry e @ 0 # rest) = block_entry e # split_block rest" "split_entry (block_entry e) = e"
proof -
  obtain key val where kv: "e = (key, val)" by fastforce
  have ok: "valid_utf8 key" "valid_utf8 val" "NUL \<notin> set key" "NUL \<notin> set val" "key \<noteq> []" "CHR ''='' \<notin> set (tl key)"
    using assms by (simp_all add: kv entry_ok_def)
  obtain u us where k: "encode_utf16 key = u # us" "61 \<notin> set us" using encode_key [OF ok(1,5,6)] by blast
  have nz: "u \<noteq> 0" "0 \<notin> set us" "0 \<notin> set (encode_utf16 val)"
    using encode_nul_iff [OF ok(1)] encode_nul_iff [OF ok(2)] ok(3,4) k(1) by auto
  have b: "block_entry e = u # us @ 61 # encode_utf16 val" by (simp add: kv block_entry_def k(1))
  have n: "\<forall>w\<in>set (us @ 61 # encode_utf16 val). w \<noteq> 0" using nz by auto
  have "takeWhile (\<lambda>w. w \<noteq> 0) ((us @ 61 # encode_utf16 val) @ 0 # rest) = us @ 61 # encode_utf16 val"
    "dropWhile (\<lambda>w. w \<noteq> 0) ((us @ 61 # encode_utf16 val) @ 0 # rest) = 0 # rest"
    using takeWhile_append2 [of "us @ 61 # encode_utf16 val" "\<lambda>w. w \<noteq> 0"] dropWhile_append2 [of "us @ 61 # encode_utf16 val" "\<lambda>w. w \<noteq> 0"] n
    by auto
  then show "split_block (block_entry e @ 0 # rest) = block_entry e # split_block rest"
    using nz(1) unfolding b by (subst split_block.simps) simp
  have m: "\<forall>w\<in>set us. w \<noteq> 61" using k(2) by auto
  have "takeWhile (\<lambda>w. w \<noteq> 61) (us @ 61 # encode_utf16 val) = us" "dropWhile (\<lambda>w. w \<noteq> 61) (us @ 61 # encode_utf16 val) = 61 # encode_utf16 val"
    using takeWhile_append2 [of us "\<lambda>w. w \<noteq> 61"] dropWhile_append2 [of us "\<lambda>w. w \<noteq> 61"] m by auto
  then show "split_entry (block_entry e) = e"
    using decode_encode [OF ok(1)] decode_encode [OF ok(2)] unfolding split_entry_def b by (simp add: k(1) kv)
qed

lemma read_block_entries: "\<forall>e\<in>set m. entry_ok e \<Longrightarrow> read_block (concat (map (\<lambda>e. block_entry e @ [0]) m) @ [0]) = m"
proof (induction m)
  case Nil
  show ?case by (simp add: read_block_def split_block.simps)
next
  case (Cons e m)
  then show ?case using split_block_entry [of e] by (simp add: read_block_def)
qed

lemma environment_block_entries:
  "environment_block upper vars overrides = concat (map (\<lambda>e. block_entry e @ [0]) (environment_map upper vars overrides)) @ [0]"
  unfolding environment_block_def block_entry_def by (simp add: case_prod_beta cong: map_cong)

text \<open>
  C41. The child gets the environment it was meant to get: when every name and value can be part of an
  environment at all, reading the block back gives each variable once, sorted by its upper-case name,
  with the value of the last override of that name, and where there is none the value the agent has
  itself, for every UTF-8 text, characters outside the basic plane included.
\<close>

theorem environment_roundtrip:
  assumes "\<forall>(key, value)\<in>set (vars @ overrides). entry_ok (upper key, value)"
  shows "sorted_wrt (<) (map fst (read_block (environment_block upper vars overrides))) \<and>
    map_of (read_block (environment_block upper vars overrides)) =
      map_of (rev (map (\<lambda>(k, v). (upper k, v)) vars)) ++ map_of (rev (map (\<lambda>(k, v). (upper k, v)) overrides))"
proof -
  let ?m = "environment_map upper vars overrides"
  have o: "sorted_wrt (<) (map fst ?m)" "map_of ?m = map_of (rev (map (\<lambda>(k, v). (upper k, v)) vars)) ++ map_of (rev (map (\<lambda>(k, v). (upper k, v)) overrides))"
    using environment_overrides [of upper vars overrides] by simp_all
  have "entry_ok (k, v)" if "(k, v) \<in> set ?m" for k v
  proof -
    have "map_of ?m k = Some v" using that o(1) by (simp add: strict_sorted_iff)
    then have "(k, v) \<in> set (map (\<lambda>(k, v). (upper k, v)) (vars @ overrides))"
      using o(2) by (auto dest!: map_of_SomeD)
    then show ?thesis using assms by auto
  qed
  then have "read_block (environment_block upper vars overrides) = ?m"
    unfolding environment_block_entries by (intro read_block_entries) auto
  then show ?thesis using o by simp
qed

theorem environment_roundtrip_witness:
  "map_of (read_block (environment_block id [(''PATH'', ''a''), (''X'', [])] [(''PATH'', ''b=c'')])) ''PATH'' = Some ''b=c''"
  using environment_roundtrip [of "[(''PATH'', ''a''), (''X'', [])]" "[(''PATH'', ''b=c'')]" id]
  by (simp add: entry_ok_def valid_utf8_ascii byte_def NUL_def)

text \<open>
  Nothing looks for nulls: the value of an override that holds one ends there for the child, and what
  follows it becomes a variable of its own.
\<close>

theorem environment_nul_injects:
  "read_block (environment_block id [] [(''A'', ''1'' @ [NUL] @ ''B=2'')]) = [(''A'', ''1''), (''B'', ''2'')]"
proof -
  have e: "encode_utf16 ''A'' = [65]" "encode_utf16 ''1'' = [49]" "encode_utf16 ''B'' = [66]" "encode_utf16 ''2'' = [50]"
    "encode_utf16 (''1'' @ [NUL] @ ''B=2'') = [49, 0, 66, 61, 50]"
    by (simp_all del: encode_utf16.simps add: encode_ascii byte_def NUL_def)
  have "environment_block id [] [(''A'', ''1'' @ [NUL] @ ''B=2'')] =
      concat (map (\<lambda>e. block_entry e @ [0]) [(''A'', ''1''), (''B'', ''2'')]) @ [0]"
    unfolding environment_block_def environment_map_def block_entry_def using e by (simp add: btree_insert.simps)
  moreover have "\<forall>e\<in>set [(''A'', ''1''), (''B'', ''2'')]. entry_ok e"
    by (simp add: entry_ok_def valid_utf8_ascii byte_def NUL_def)
  ultimately show ?thesis using read_block_entries by metis
qed

end
