(* ===== verification/Console.thy ===== *)
theory Console
  imports Pump Environment_Props
begin

text \<open>
  The rest of calcar-pty: what a child is started with, as it reads it itself; the input of a console and
  of a plain child; resizing; the blocking read.
\<close>

section \<open>What a child is started with\<close>

text \<open>
  The quoting of lib.rs, a second copy of the one in plain.rs: \<open>out\<close> is what was pushed so far. It is the
  same function.
\<close>

fun pty_quote_loop :: "string \<Rightarrow> nat \<Rightarrow> string \<Rightarrow> string" where
  "pty_quote_loop out backslashes [] = out @ replicate backslashes backslash @ [dquote]"
| "pty_quote_loop out backslashes (ch # chs) =
     (if ch = backslash then pty_quote_loop (out @ [ch]) (backslashes + 1) chs
      else if ch = dquote then pty_quote_loop (out @ replicate backslashes backslash @ [backslash] @ [dquote]) 0 chs
      else pty_quote_loop (out @ [ch]) 0 chs)"

definition pty_quote_arg :: "string \<Rightarrow> string" where
  "pty_quote_arg arg =
     (if arg \<noteq> [] \<and> \<not> (space \<in> set arg \<or> tab \<in> set arg \<or> dquote \<in> set arg) then arg
      else pty_quote_loop [dquote] 0 arg)"

definition pty_command_line :: "SpawnConfig \<Rightarrow> PtyError + string" where
  "pty_command_line config =
     (if sc_argv config = [] then Inl (InvalidConfig ''argv is empty'')
      else Inr (join_spaces (map pty_quote_arg (sc_argv config))))"

lemma pty_quote_loop_eq: "pty_quote_loop out n chs = out @ quote_loop n chs"
  by (induction out n chs rule: pty_quote_loop.induct) simp_all

lemma pty_quote_arg_eq: "pty_quote_arg arg = quote_arg arg"
  by (simp add: pty_quote_arg_def quote_arg_def needs_quotes_def pty_quote_loop_eq)

lemma pty_command_line_eq: "pty_command_line config = command_line (sc_argv config)"
proof -
  have "map pty_quote_arg = map quote_arg" by (simp add: pty_quote_arg_eq fun_eq_iff)
  then show ?thesis by (simp add: pty_command_line_def command_line_def)
qed

text \<open>
  The three buffers \<open>CreateProcessW\<close> is given; no directory means the one of the agent. \<open>upper\<close> is
  \<open>str::to_uppercase\<close>, \<open>lossy\<close> is \<open>Path::to_string_lossy\<close>, \<open>vars\<close> the variables of the agent.
\<close>

record launch =
  ln_command_line :: "16 word list"
  ln_working_dir :: "16 word list option"
  ln_environment :: "16 word list"

definition pty_launch ::
  "(string \<Rightarrow> string) \<Rightarrow> (string \<Rightarrow> string) \<Rightarrow> (string \<times> string) list \<Rightarrow> SpawnConfig \<Rightarrow> PtyError + launch" where
  "pty_launch upper lossy vars config = (case pty_command_line config of
       Inl e \<Rightarrow> Inl e
     | Inr text \<Rightarrow> Inr
         \<lparr>ln_command_line = wide text,
          ln_working_dir = Some (case sc_working_dir config of Some dir \<Rightarrow> wide (lossy dir) | None \<Rightarrow> wide ''.''),
          ln_environment = environment_block upper vars (sc_env config)\<rparr>)"

text \<open>The copies of \<open>wide\<close> and \<open>environment_block\<close> in plain.rs, the same functions.\<close>

definition plain_wide :: "string \<Rightarrow> 16 word list" where
  "plain_wide text = encode_utf16 text @ [0]"

definition plain_environment_block :: "(string \<Rightarrow> string) \<Rightarrow> (string \<times> string) list \<Rightarrow> (string \<times> string) list \<Rightarrow> 16 word list" where
  "plain_environment_block upper vars overrides =
     concat (map (\<lambda>(key, value). encode_utf16 key @ [61] @ encode_utf16 value @ [0]) (environment_map upper vars overrides)) @ [0]"

lemma plain_copies: "plain_wide = wide" "plain_environment_block = environment_block"
  by (simp_all add: fun_eq_iff plain_wide_def wide_def plain_environment_block_def environment_block_def)

definition plain_launch ::
  "(string \<Rightarrow> string) \<Rightarrow> (string \<Rightarrow> string) \<Rightarrow> (string \<times> string) list \<Rightarrow> PlainConfig \<Rightarrow> PtyError + launch" where
  "plain_launch upper lossy vars config = (case command_line (pg_argv config) of
       Inl e \<Rightarrow> Inl e
     | Inr text \<Rightarrow> Inr
         \<lparr>ln_command_line = plain_wide text,
          ln_working_dir = map_option (\<lambda>dir. plain_wide (lossy dir)) (pg_working_dir config),
          ln_environment = plain_environment_block upper vars (pg_env config)\<rparr>)"

definition from_spawn :: "SpawnConfig \<Rightarrow> string option \<Rightarrow> PlainConfig" where
  "from_spawn config input =
     \<lparr>pg_argv = sc_argv config, pg_working_dir = sc_working_dir config, pg_env = sc_env config, pg_input = input,
      pg_output_cap_bytes = sc_output_buffer_bytes config\<rparr>"

lemma from_spawn_sel:
  "pg_argv (from_spawn config input) = sc_argv config" "pg_working_dir (from_spawn config input) = sc_working_dir config"
  "pg_env (from_spawn config input) = sc_env config"
  by (simp_all add: from_spawn_def)

definition with_input :: "PlainConfig \<Rightarrow> string \<Rightarrow> PlainConfig" where
  "with_input config bytes = config\<lparr>pg_input := Some bytes\<rparr>"

definition stdout_lossy :: "PlainOutput \<Rightarrow> string" where
  "stdout_lossy out = utf8_lossy (po_stdout out)"

definition stderr_lossy :: "PlainOutput \<Rightarrow> string" where
  "stderr_lossy out = utf8_lossy (po_stderr out)"

text \<open>A text that reaches the child whole.\<close>

definition text_ok :: "string \<Rightarrow> bool" where
  "text_ok s \<longleftrightarrow> valid_utf8 s \<and> NUL \<notin> set s"

lemma text_ok_append: "text_ok s \<Longrightarrow> text_ok t \<Longrightarrow> text_ok (s @ t)"
  by (simp add: text_ok_def valid_utf8_append)

lemma text_ok_ascii: "\<forall>c\<in>set s. byte c < 128 \<and> c \<noteq> NUL \<Longrightarrow> text_ok s"
  by (auto simp: text_ok_def intro: valid_utf8_ascii)

lemma text_ok_backslashes: "text_ok (replicate n backslash)"
  by (rule text_ok_ascii) (auto simp: NUL_def backslash_def byte_def)

lemma text_ok_special: "text_ok [dquote]" "text_ok [backslash]" "text_ok [space]" "text_ok []"
  by (rule text_ok_ascii; simp add: NUL_def backslash_def dquote_def space_def byte_def)+

lemma quote_loop_split:
  "dquote \<notin> set ch \<Longrightarrow> backslash \<notin> set ch \<Longrightarrow> ch \<noteq> [] \<Longrightarrow> quote_loop n (ch @ s) = ch @ quote_loop 0 s"
proof (induction ch arbitrary: n)
  case (Cons c ch)
  then have "quote_loop n ((c # ch) @ s) = c # quote_loop 0 (ch @ s)" by auto
  then show ?case using Cons by (cases "ch = []") auto
qed simp

lemma text_ok_quote_loop:
  assumes "valid_utf8 s" "NUL \<notin> set s"
  shows "text_ok (quote_loop n s)"
  using assms
proof (induction arbitrary: n rule: utf8_induct)
  case Nil
  then show ?case using text_ok_append [OF text_ok_backslashes text_ok_special(1)] by simp
next
  case (Char ch c cs s)
  note IH = Char(5)
  have n: "NUL \<notin> set s" "NUL \<notin> set ch" using Char(6) by simp_all
  have t: "text_ok ch"
    using n(2) Char(1) Char(2) [of "[]"] by (simp add: text_ok_def valid_utf8_Cons)
  consider "ch = [backslash]" | "ch = [dquote]" | "dquote \<notin> set ch" "backslash \<notin> set ch"
    using Char(1,3) by fastforce
  then show ?case
  proof cases
    case 1
    then show ?thesis using text_ok_append [OF text_ok_special(2) IH [OF n(1)]] by simp
  next
    case 2
    then show ?thesis
      using text_ok_append [OF text_ok_backslashes text_ok_append [OF text_ok_special(2) text_ok_append [OF text_ok_special(1) IH [OF n(1)]]]]
      by simp
  next
    case 3
    then show ?thesis using quote_loop_split [OF 3] Char(1) text_ok_append [OF t IH [OF n(1)]] by simp
  qed
qed

lemma text_ok_command_line:
  assumes "\<forall>arg\<in>set argv. text_ok arg" "command_line argv = Inr text"
  shows "text_ok text"
proof -
  have q: "text_ok (quote_arg arg)" if "text_ok arg" for arg
    using that text_ok_append [OF text_ok_special(1) text_ok_quote_loop [of arg 0]] by (auto simp: quote_arg_def text_ok_def)
  have "text_ok (join_spaces (map quote_arg argv))"
    using assms(1)
  proof (induction argv)
    case Nil
    show ?case using text_ok_special(4) by (simp add: join_spaces_def)
  next
    case (Cons a as)
    then have "text_ok (quote_arg a)" "text_ok (join_spaces (map quote_arg as))" using q by simp_all
    then show ?case using text_ok_append text_ok_append [OF text_ok_special(3)] by (auto simp: join_spaces_Cons)
  qed
  then show ?thesis using assms(2) by (simp add: command_line_def split: if_splits)
qed

text \<open>What the child makes of the buffers: its arguments, its directory and its variables.\<close>

definition child_argv :: "launch \<Rightarrow> string list" where
  "child_argv l = split_args (read_wide (ln_command_line l))"

definition child_env :: "launch \<Rightarrow> string \<Rightarrow> string option" where
  "child_env l = map_of (read_block (ln_environment l))"

definition intended_env :: "(string \<Rightarrow> string) \<Rightarrow> (string \<times> string) list \<Rightarrow> (string \<times> string) list \<Rightarrow> string \<Rightarrow> string option" where
  "intended_env upper vars env = map_of (rev (map (\<lambda>(k, v). (upper k, v)) vars)) ++ map_of (rev (map (\<lambda>(k, v). (upper k, v)) env))"

lemma read_wide_ok: "text_ok s \<Longrightarrow> read_wide (wide s) = s"
proof -
  assume "text_ok s"
  then have "valid_utf8 s" "takeWhile (\<lambda>c. c \<noteq> NUL) s = s" by (auto simp: text_ok_def takeWhile_eq_all_conv)
  then show ?thesis using wide_cut_at_nul by simp
qed

lemma plain_launch_faithful:
  assumes "\<forall>arg\<in>set (pg_argv config). text_ok arg"
    "\<forall>(key, value)\<in>set (vars @ pg_env config). entry_ok (upper key, value)"
    "\<forall>dir. pg_working_dir config = Some dir \<longrightarrow> text_ok (lossy dir)"
  shows "case plain_launch upper lossy vars config of
      Inl e \<Rightarrow> pg_argv config = [] \<and> e = InvalidConfig ''argv is empty''
    | Inr l \<Rightarrow> pg_argv config \<noteq> [] \<and> child_argv l = pg_argv config \<and> child_env l = intended_env upper vars (pg_env config) \<and>
        map_option read_wide (ln_working_dir l) = map_option lossy (pg_working_dir config)"
proof (cases "command_line (pg_argv config)")
  case (Inl e)
  then show ?thesis using command_line_roundtrip [of "pg_argv config"] by (simp add: plain_launch_def plain_copies)
next
  case (Inr line)
  have "text_ok line" using assms(1) Inr by (rule text_ok_command_line)
  then show ?thesis
    using Inr command_line_roundtrip [of "pg_argv config"] environment_roundtrip [OF assms(2)] assms(3)
    by (cases "pg_working_dir config") (simp_all add: plain_launch_def plain_copies child_argv_def child_env_def intended_env_def read_wide_ok)
qed



text \<open>
  Nothing looks for nulls here either: a null in an argument ends the command line of the child.
\<close>

theorem nul_truncates_command:
  "read_wide (wide (''cmd /C echo a'' @ [NUL] @ '' && b'')) = ''cmd /C echo a''"
proof -
  have "valid_utf8 (''cmd /C echo a'' @ [NUL] @ '' && b'')" by (rule valid_utf8_ascii) (simp add: byte_def NUL_def)
  then show ?thesis by (simp add: wide_cut_at_nul NUL_def)
qed

section \<open>Input\<close>

text \<open>
  \<open>Write::write_all\<close> over the answers of the system: how many bytes a call took, that it was interrupted,
  or that it failed. The second component is what has reached the pipe; \<open>None\<close> is a call that has not
  returned yet. Flushing a file of Windows does nothing.
\<close>

datatype write_answer = Wrote nat | Interrupted | WriteError string

fun write_all :: "string \<Rightarrow> write_answer list \<Rightarrow> (string + unit) option \<times> string" where
  "write_all [] answers = (Some (Inr ()), [])"
| "write_all (b # bs) [] = (None, [])"
| "write_all (b # bs) (a # answers) = (case a of
       Wrote n \<Rightarrow>
         if n = 0 then (Some (Inl ''failed to write whole buffer''), [])
         else (let (r, sent) = write_all (drop n (b # bs)) answers in (r, take n (b # bs) @ sent))
     | Interrupted \<Rightarrow> write_all (b # bs) answers
     | WriteError e \<Rightarrow> (Some (Inl e), []))"

definition write_input :: "string \<Rightarrow> write_answer list \<Rightarrow> (PtyError + unit) option \<times> string" where
  "write_input bytes answers = (let (r, sent) = write_all bytes answers in (map_option (map_sum PtyError.Io id) r, sent))"

definition write_stdin :: "string \<Rightarrow> write_answer list \<Rightarrow> unit option \<times> string" where
  "write_stdin bytes answers = (let (r, sent) = write_all bytes answers in (map_option (\<lambda>_. ()) r, sent))"

text \<open>
  What reaches the pipe is always a prefix of the input, and all of it when the call succeeds; a call
  returns once it got as many answers as there are bytes that are no interruption.
\<close>

lemma write_all_exact:
  "write_all bytes answers = (r, sent) \<Longrightarrow> (\<exists>rest. bytes = sent @ rest) \<and> (r = Some (Inr ()) \<longrightarrow> sent = bytes) \<and>
     (length bytes \<le> length (filter (\<lambda>a. a \<noteq> Interrupted) answers) \<longrightarrow> r \<noteq> None)"
proof (induction bytes answers arbitrary: r sent rule: write_all.induct)
  case (3 b bs a answers)
  show ?case
  proof (cases a)
    case (Wrote n)
    show ?thesis
    proof (cases "n = 0")
      case False
      obtain r' sent' where w: "write_all (drop n (b # bs)) answers = (r', sent')" by fastforce
      have e: "r = r'" "sent = take n (b # bs) @ sent'" using 3(3) Wrote False w by simp_all
      from 3(1) [OF Wrote False w] obtain rest where i: "drop n (b # bs) = sent' @ rest" "r' = Some (Inr ()) \<longrightarrow> sent' = drop n (b # bs)"
        "length (drop n (b # bs)) \<le> length (filter (\<lambda>a. a \<noteq> Interrupted) answers) \<longrightarrow> r' \<noteq> None" by blast
      have "b # bs = sent @ rest" unfolding e(2) append_assoc i(1) [symmetric] by simp
      moreover have "r = Some (Inr ()) \<longrightarrow> sent = b # bs" using i(2) unfolding e by simp
      moreover have "length (drop n (b # bs)) \<le> length bs" using False by (cases n) simp_all
      then have "length (b # bs) \<le> length (filter (\<lambda>a. a \<noteq> Interrupted) (a # answers)) \<longrightarrow> r \<noteq> None"
        using i(3) Wrote e(1) by simp
      ultimately show ?thesis by blast
    qed (use 3(3) Wrote in auto)
  next
    case Interrupted
    then show ?thesis using 3(2,3) by simp
  qed (use 3(3) in auto)
qed auto

theorem write_input_exact:
  assumes "write_input bytes answers = (r, sent)"
  shows "(\<exists>rest. bytes = sent @ rest) \<and> (r = Some (Inr ()) \<longrightarrow> sent = bytes) \<and>
    (length bytes \<le> length (filter (\<lambda>a. a \<noteq> Interrupted) answers) \<longrightarrow> r \<noteq> None)"
proof -
  obtain r' where "write_all bytes answers = (r', sent)" "r = map_option (map_sum PtyError.Io id) r'"
    using assms by (auto simp: write_input_def Let_def split: prod.splits)
  then show ?thesis using write_all_exact [of bytes answers r' sent]
    by (cases r'; cases "the r'") auto
qed

section \<open>Resizing and reading\<close>

text \<open>\<open>{:08X}\<close> of a \<open>u32\<close>.\<close>

definition hex8 :: "32 word \<Rightarrow> string" where
  "hex8 v = map (\<lambda>i. ''0123456789ABCDEF'' ! (unat v div 16 ^ i mod 16)) [7, 6, 5, 4, 3, 2, 1, 0]"

text \<open>\<open>set_size\<close> is \<open>ResizePseudoConsole\<close> with its status.\<close>

definition resize :: "(int \<times> int \<Rightarrow> 32 word) \<Rightarrow> int \<Rightarrow> int \<Rightarrow> PtyError + unit" where
  "resize set_size cols rows = (let result = set_size (max 1 cols, max 1 rows) in
     if result \<noteq> 0 then Inl (Windows ''ResizePseudoConsole'' (''HRESULT 0x'' @ hex8 result)) else Inr ())"

text \<open>
  \<open>recv_output\<close>: \<open>late\<close> says that the deadline has passed; \<open>None\<close> is a read that is still waiting.
\<close>

definition recv_output :: "bool \<Rightarrow> channel \<Rightarrow> (string option \<times> channel) option" where
  "recv_output late s = (case cn_queue s of
       c # q \<Rightarrow> Some (Some c, s\<lparr>cn_queue := q, cn_received := cn_received s @ [c]\<rparr>)
     | [] \<Rightarrow> if cn_done s then Some (None, s\<lparr>cn_closed := True\<rparr>) else if late then Some (None, s) else None)"

definition output_closed :: "channel \<Rightarrow> bool" where
  "output_closed s = cn_closed s"

text \<open>Whenever the blocking read returns, it does what the read that does not block does.\<close>

theorem recv_output_refines: "recv_output late s = Some p \<Longrightarrow> p = try_output s"
  by (auto simp: recv_output_def try_output_def split: list.splits if_splits)

end
