(* ===== verification/Doctor.thy ===== *)
theory Doctor
  imports Catalog_Props Console
begin

text \<open>
  calcar-agent: the five checks of doctor.rs and the exit code of main.rs.

  The machine is an argument: the platform the binary was built for (\<open>cfg(windows)\<close> holds exactly when
  \<open>std::env::consts::OS\<close> is \<open>windows\<close>), what the system registry answers, the error numbers of failed
  calls, the two functions of DPAPI and what binding a port gives. The console probe runs over the
  ledger of kernel objects, with a fault schedule of its own; the buffers DPAPI hands out are a list of
  live addresses; the migrate check runs the storage layer on an empty database in memory.
\<close>

section \<open>The machine\<close>

text \<open>\<open>CRYPT_INTEGER_BLOB\<close>: a length and an address with the bytes found there; \<open>None\<close> is null.\<close>

record blob =
  cb_data :: "32 word"
  pb_data :: "(nat \<times> string) option"

record machine =
  mc_os :: string
  mc_registry :: "string + (string option \<times> string option)"
  mc_last_error :: "nat \<Rightarrow> nat"
  mc_hresult :: "32 word"
  mc_protect :: "string \<Rightarrow> int \<times> blob"
  mc_unprotect :: "blob \<Rightarrow> int \<times> blob"
  mc_bind :: "string + 16 word option"

definition is_windows :: "machine \<Rightarrow> bool" where
  "is_windows M \<longleftrightarrow> mc_os M = ''windows''"

section \<open>The checks\<close>

record Check =
  ck_name :: string
  ck_ok :: bool
  ck_detail :: string

record Report =
  rp_checks :: "Check list"

definition all_ok :: "Report \<Rightarrow> bool" where
  "all_ok report \<longleftrightarrow> list_all ck_ok (rp_checks report)"

definition passed :: "string \<Rightarrow> string \<Rightarrow> Check" where
  "passed name detail = \<lparr>ck_name = name, ck_ok = True, ck_detail = detail\<rparr>"

definition failed :: "string \<Rightarrow> string \<Rightarrow> Check" where
  "failed name detail = \<lparr>ck_name = name, ck_ok = False, ck_detail = detail\<rparr>"

definition os_check :: "machine \<Rightarrow> Check" where
  "os_check M =
     (if is_windows M then
        (case mc_registry M of
           Inr (product, build) \<Rightarrow>
             passed ''os'' ((case product of Some p \<Rightarrow> p | None \<Rightarrow> ''Windows'') @ '', build '' @
                            (case build of Some b \<Rightarrow> b | None \<Rightarrow> ''?''))
         | Inl error \<Rightarrow> failed ''os'' (''registry read failed: '' @ error))
      else failed ''os'' (''platform '' @ mc_os M @ '' is not Windows''))"

definition last_error_check :: "machine \<Rightarrow> string \<Rightarrow> Check os" where
  "last_error_check M what = (\<lambda>w. ret (failed ''conpty'' (what @ '', GetLastError='' @ show_nat (mc_last_error M (stmt_no w)))) w)"

definition conpty_probe :: "machine \<Rightarrow> Check os" where
  "conpty_probe M =
     call create_pipe (last_error_check M ''input pipe creation failed'') (\<lambda>(conpty_read, conpty_write).
     call create_pipe
       (does (close_handle conpty_read) (does (close_handle conpty_write)
         (last_error_check M ''output pipe creation failed''))) (\<lambda>(out_read, out_write).
     let pipes = [conpty_read, conpty_write, out_read, out_write] in
     call create_console
       (does (close_handles pipes)
         (ret (failed ''conpty'' (''CreatePseudoConsole failed, HRESULT 0x'' @ hex8 (mc_hresult M))))) (\<lambda>hpcon.
     does (close_handles pipes) (
     does (close_console hpcon) (
     ret (passed ''conpty'' ''created and closed a 120x30 pseudo console''))))))"

definition conpty_check :: "machine \<Rightarrow> Check os" where
  "conpty_check M =
     (if is_windows M then conpty_probe M
      else ret (failed ''conpty'' (''ConPTY is Windows only, platform is '' @ mc_os M)))"

text \<open>The buffers the system handed out and \<open>LocalFree\<close>.\<close>

definition handed_out :: "blob \<Rightarrow> nat list \<Rightarrow> nat list" where
  "handed_out b live = (case pb_data b of None \<Rightarrow> live | Some (a, _) \<Rightarrow> a # live)"

definition free_blob :: "blob \<Rightarrow> nat list \<Rightarrow> nat list" where
  "free_blob b live = (case pb_data b of None \<Rightarrow> live | Some (a, _) \<Rightarrow> remove1 a live)"

definition SECRET :: string where
  "SECRET = ''calcar-doctor-dpapi-probe''"

text \<open>The length is compared first, then the slice of that many bytes at the address.\<close>

definition blob_is :: "blob \<Rightarrow> string \<Rightarrow> bool" where
  "blob_is b bytes \<longleftrightarrow> cb_data b = word_of_nat (length bytes) \<and>
     (case pb_data b of None \<Rightarrow> False | Some (_, content) \<Rightarrow> take (unat (cb_data b)) content = bytes)"

definition dpapi_probe :: "machine \<Rightarrow> nat list \<Rightarrow> Check \<times> nat list" where
  "dpapi_probe M live =
     (let (protected, encrypted) = mc_protect M SECRET; live1 = handed_out encrypted live in
      if protected = 0 then (failed ''dpapi'' ''CryptProtectData failed'', live1)
      else
        let (unprotected, decrypted) = mc_unprotect M encrypted; live2 = handed_out decrypted live1;
            round_trip = (unprotected \<noteq> 0 \<and> blob_is decrypted SECRET);
            live3 = free_blob encrypted (free_blob decrypted live2) in
        (if round_trip
         then passed ''dpapi'' (''round trip ok, '' @ show_nat (unat (cb_data encrypted)) @ '' encrypted bytes'')
         else failed ''dpapi'' ''CryptUnprotectData output did not match the input'', live3))"

definition dpapi_check :: "machine \<Rightarrow> nat list \<Rightarrow> Check \<times> nat list" where
  "dpapi_check M live =
     (if is_windows M then dpapi_probe M live
      else (failed ''dpapi'' (''DPAPI is Windows only, platform is '' @ mc_os M), live))"

text \<open>\<open>Storage::open_in_memory\<close>: the connection and the three pragmas of \<open>configure\<close>.\<close>

definition open_in_memory :: "unit store_io" where
  "open_in_memory = andthen open_step (\<lambda>_. andthen open_step (\<lambda>_. andthen open_step (\<lambda>_. open_step)))"

fun join_commas :: "string list \<Rightarrow> string" where
  "join_commas [] = []"
| "join_commas [s] = s"
| "join_commas (s # t # ss) = s @ '', '' @ join_commas (t # ss)"

definition migrate_check :: "'f libs \<Rightarrow> Check store_io" where
  "migrate_check L =
     attempt (andthen open_in_memory (\<lambda>_. migrate)) (\<lambda>r. ret (case r of
       Inr applied \<Rightarrow> passed ''migrate'' (''applied '' @ join_commas applied)
     | Inl error \<Rightarrow> failed ''migrate'' (StorageError_text L error)))"

definition bind_check :: "machine \<Rightarrow> Check" where
  "bind_check M = (case mc_bind M of
       Inr port \<Rightarrow> passed ''bind'' (''ephemeral bind ok, got port '' @ show_nat (unat (case port of Some p \<Rightarrow> p | None \<Rightarrow> 0)))
     | Inl error \<Rightarrow> failed ''bind'' error)"

section \<open>The report and the exit code\<close>

text \<open>What the checks run on: the kernel, the buffers of DPAPI and the engine of the memory database.\<close>

record bench =
  bn_kernel :: "kernel world"
  bn_live :: "nat list"
  bn_engine :: "database world"

text \<open>The two programs with effects never return early, so their results are \<open>Inr\<close>.\<close>

definition doctor_run :: "machine \<Rightarrow> 'f libs \<Rightarrow> bench \<Rightarrow> (string + Report) \<times> bench" where
  "doctor_run M L b =
     (let (conpty, kernel) = conpty_check M (bn_kernel b);
          (dpapi, live) = dpapi_check M (bn_live b);
          (migrated, engine) = migrate_check L (bn_engine b) in
      (Inr \<lparr>rp_checks = [os_check M, projr conpty, dpapi, projr migrated, bind_check M]\<rparr>,
       \<lparr>bn_kernel = kernel, bn_live = live, bn_engine = engine\<rparr>))"

definition check_line :: "Check \<Rightarrow> string" where
  "check_line c = (if ck_ok c then ''ok  '' else ''FAIL'') @ ''  '' @
     (ck_name c @ replicate (12 - length (ck_name c)) (CHR '' '')) @ '' '' @ ck_detail c"

text \<open>The lines on the standard output and on the standard error, and the exit code.\<close>

definition agent_main :: "machine \<Rightarrow> 'f libs \<Rightarrow> bench \<Rightarrow> (string list \<times> string list \<times> nat) \<times> bench" where
  "agent_main M L b = (case doctor_run M L b of
       (Inr report, b') \<Rightarrow> ((map check_line (rp_checks report), [], if all_ok report then 0 else 1), b')
     | (Inl error, b') \<Rightarrow> (([], [''doctor failed to run: '' @ error], 1), b'))"

section \<open>What each check proves\<close>

lemma checks_ok [simp]:
  "ck_ok (passed n d)" "\<not> ck_ok (failed n d)" "ck_name (passed n d) = n" "ck_name (failed n d) = n"
  by (simp_all add: passed_def failed_def)

lemma os_check_ok: "ck_ok (os_check M) \<longleftrightarrow> is_windows M \<and> (\<exists>x. mc_registry M = Inr x)"
  by (auto simp: os_check_def split: sum.splits)

lemma bind_check_ok: "ck_ok (bind_check M) \<longleftrightarrow> (\<exists>x. mc_bind M = Inr x)"
  by (simp add: bind_check_def split: sum.splits)

text \<open>The calls up to the \<open>n\<close>-th from here on do not fail.\<close>

definition clear_for :: "nat \<Rightarrow> 'd world \<Rightarrow> bool" where
  "clear_for n w \<longleftrightarrow> (\<forall>i<n. \<not> stmt_fault w (stmt_no w + i))"

lemma conpty_ledger:
  assumes "fresh_kernel k"
  shows "ensures (\<lambda>r k'. ledger k' = ledger k \<and> (\<exists>c. r = Inr c \<and> ck_name c = ''conpty'')) (conpty_check M) k"
proof (cases "is_windows M")
  case True
  have e: "ensures Q (last_error_check M what) s" if "\<And>d. Q (Inr (failed ''conpty'' d)) s" for Q what and s :: kernel
    using that by (simp add: ensures_def last_error_check_def ret_def)
  show ?thesis
    unfolding conpty_check_def conpty_probe_def
    by (simp only: True if_True; (rule ensures_rules e | simp add: call_results
        | (simp add: ledger_def kernel_ops fresh_filters [OF assms]; fail))+)
qed (simp add: conpty_check_def ensures_ret)

lemma conpty_verdict:
  "ck_ok (projr (fst (conpty_check M w))) \<longleftrightarrow> is_windows M \<and> clear_for 3 w"
  by (auto simp: conpty_check_def conpty_probe_def call_def does_def last_error_check_def ret_def Let_def create_pipe_def
      create_console_def clear_for_def eval_nat_numeral All_less_Suc)

text \<open>The documented behaviour of a failed \<open>CryptProtectData\<close>: no buffer is handed out.\<close>

definition protect_documented :: "machine \<Rightarrow> bool" where
  "protect_documented M \<longleftrightarrow> (fst (mc_protect M SECRET) = 0 \<longrightarrow> pb_data (snd (mc_protect M SECRET)) = None)"

definition dpapi_works :: "machine \<Rightarrow> bool" where
  "dpapi_works M \<longleftrightarrow> (\<exists>p e u d. mc_protect M SECRET = (p, e) \<and> p \<noteq> 0 \<and> mc_unprotect M e = (u, d) \<and> u \<noteq> 0 \<and>
     (\<exists>a content. pb_data d = Some (a, content) \<and> cb_data d = word_of_nat (length SECRET) \<and> take (length SECRET) content = SECRET))"

lemma dpapi_verdict: "ck_ok (fst (dpapi_check M live)) \<longleftrightarrow> is_windows M \<and> dpapi_works M"
proof -
  have "unat (word_of_nat (length SECRET) :: 32 word) = length SECRET" by (simp add: SECRET_def)
  then show ?thesis
    by (auto simp: dpapi_check_def dpapi_probe_def dpapi_works_def blob_is_def Let_def split: prod.splits option.splits)
qed

lemma dpapi_frees: "protect_documented M \<Longrightarrow> snd (dpapi_check M live) = live"
  by (auto simp: dpapi_check_def dpapi_probe_def protect_documented_def handed_out_def free_blob_def Let_def
      remove1_commute split: prod.splits option.splits)

text \<open>
  A program that issues exactly \<open>n\<close> statements when none of them fails, and ends in an error as soon
  as one does.
\<close>

definition takes :: "('d \<Rightarrow> bool) \<Rightarrow> nat \<Rightarrow> ('d, 'e, 'a) io \<Rightarrow> ('a \<Rightarrow> 'd \<Rightarrow> bool) \<Rightarrow> bool" where
  "takes P n m Q \<longleftrightarrow> (\<forall>w. P (db w) \<longrightarrow>
     (if clear_for n w then \<exists>x w'. m w = (Inr x, w') \<and> Q x (db w') \<and> stmt_no w' = stmt_no w + n \<and> stmt_fault w' = stmt_fault w
      else \<exists>e w'. m w = (Inl e, w')))"

lemma clear_for_add:
  "clear_for (m + n) w \<longleftrightarrow> clear_for m w \<and> (\<forall>i<n. \<not> stmt_fault w (stmt_no w + m + i))"
proof
  assume a: "clear_for m w \<and> (\<forall>i<n. \<not> stmt_fault w (stmt_no w + m + i))"
  show "clear_for (m + n) w" unfolding clear_for_def
  proof (intro allI impI)
    fix i assume "i < m + n"
    then show "\<not> stmt_fault w (stmt_no w + i)"
      using a by (cases "i < m") (auto simp: clear_for_def dest!: spec [of _ "i - m"])
  qed
qed (auto simp: clear_for_def add.assoc)

lemma takes_ret: "(\<And>d. P d \<Longrightarrow> Q x d) \<Longrightarrow> takes P 0 (ret x) Q"
  by (simp add: takes_def ret_def clear_for_def)

lemma takes_now: "(\<And>d t. P d \<Longrightarrow> Q t d) \<Longrightarrow> takes P 0 now_millis Q"
  by (simp add: takes_def now_millis_def clear_for_def Let_def)

lemma takes_sql: "(\<And>d. P d \<Longrightarrow> \<exists>x d'. f d = Inr (x, d') \<and> Q x d') \<Longrightarrow> takes P 1 (map_err c (sql f)) Q"
  unfolding takes_def map_err_def sql_def clear_for_def by (fastforce simp: Let_def)

lemma takes_andthen:
  assumes "takes P n m R" "\<And>x. takes (R x) k (c x) Q" "s = n + k"
  shows "takes P s (andthen m c) Q"
  unfolding takes_def
proof (intro allI impI)
  fix w :: "'a world" assume p: "P (db w)"
  show "if clear_for s w
        then \<exists>x w'. andthen m c w = (Inr x, w') \<and> Q x (db w') \<and> stmt_no w' = stmt_no w + s \<and> stmt_fault w' = stmt_fault w
        else \<exists>e w'. andthen m c w = (Inl e, w')"
  proof (cases "clear_for n w")
    case True
    then obtain x w' where m: "m w = (Inr x, w')" "R x (db w')" "stmt_no w' = stmt_no w + n" "stmt_fault w' = stmt_fault w"
      using assms(1) p by (fastforce simp: takes_def)
    have "clear_for s w \<longleftrightarrow> clear_for k w'"
      using True m(3,4) by (simp add: assms(3) clear_for_add) (simp add: clear_for_def)
    moreover have "if clear_for k w' then \<exists>y w''. c x w' = (Inr y, w'') \<and> Q y (db w'') \<and> stmt_no w'' = stmt_no w' + k \<and>
        stmt_fault w'' = stmt_fault w' else \<exists>e w''. c x w' = (Inl e, w'')"
      using assms(2) [of x] m(2) by (simp add: takes_def)
    ultimately show ?thesis using m by (auto simp: andthen_apply assms(3) split: if_splits)
  next
    case False
    then have "\<not> clear_for s w" by (simp add: assms(3) clear_for_add)
    then show ?thesis using False assms(1) p by (fastforce simp: takes_def andthen_apply)
  qed
qed

lemma takes_transaction:
  assumes "takes P n body Q" "s = n + 2"
  shows "takes P s (transaction c body) Q"
proof -
  have t: "transaction c body = andthen (map_err c (sql (\<lambda>d. Inr ((), d)))) (\<lambda>_ w0.
      case andthen body (\<lambda>x. andthen (map_err c (sql (\<lambda>d. Inr ((), d)))) (\<lambda>_. ret x)) w0 of
        (Inl e, w1) \<Rightarrow> (Inl e, w1\<lparr>db := db w0\<rparr>) | (Inr x, w1) \<Rightarrow> (Inr x, w1))"
    by (simp add: transaction_def)
  have "takes P (n + 1) (andthen body (\<lambda>x. andthen (map_err c (sql (\<lambda>d. Inr ((), d)))) (\<lambda>_. ret x))) Q"
    by (rule takes_andthen [OF assms(1)], rule takes_andthen [where R = "\<lambda>_. Q _"], rule takes_sql, simp, rule takes_ret) auto
  then have "takes P (n + 1) (\<lambda>w0. case andthen body (\<lambda>x. andthen (map_err c (sql (\<lambda>d. Inr ((), d)))) (\<lambda>_. ret x)) w0 of
        (Inl e, w1) \<Rightarrow> (Inl e, w1\<lparr>db := db w0\<rparr>) | (Inr x, w1) \<Rightarrow> (Inr x, w1)) Q"
    unfolding takes_def by (smt (verit, best) case_prod_conv old.sum.simps(5,6))
  then show ?thesis unfolding t
    by (rule takes_andthen [where R = "\<lambda>_. P" and n = 1, rotated]) (simp_all add: assms(2) takes_sql [simplified])
qed

lemma takes_migrate: "takes (\<lambda>d. d = fresh_db) 6 migrate (\<lambda>names _. names = [''0001_init''])"
proof -
  let ?log = "\<lambda>d. migrations_log d = Some []"
  have b: "takes ?log 2 (andthen (run_migration_sql ''0001_init'' init_sql) (\<lambda>_. andthen now_millis (log_migration ''0001_init''))) (\<lambda>_ _. True)"
    unfolding run_migration_sql_def log_migration_def
    by (rule takes_andthen [where R = "\<lambda>_. ?log"], rule takes_sql, simp add: init_sql_def,
        rule takes_andthen [where R = "\<lambda>_. ?log"], rule takes_now, simp, rule takes_sql) auto
  have a: "takes (\<lambda>d. al = [] \<and> ?log d) 4 (apply_migrations al MIGRATIONS []) (\<lambda>names _. names = [''0001_init''])" for al
  proof (cases "al = []")
    case True
    show ?thesis unfolding True MIGRATIONS_def
      by simp (rule takes_andthen [where k = 0], rule takes_transaction [OF b refl], rule takes_ret, simp_all)
  qed (simp add: takes_def)
  have c: "takes (\<lambda>d. d = fresh_db) 1 create_migrations_log (\<lambda>_. ?log)"
    unfolding create_migrations_log_def by (rule takes_sql) (simp add: fresh_db_def)
  have n: "takes ?log 1 applied_names (\<lambda>al d. al = [] \<and> ?log d)"
    unfolding applied_names_def by (rule takes_sql) simp
  show ?thesis unfolding migrate_def
    by (rule takes_andthen [OF c, where k = 5], rule takes_andthen [OF n a]) simp_all
qed

lemma takes_memory: "takes (\<lambda>d. d = fresh_db) 10 (andthen open_in_memory (\<lambda>_. migrate)) (\<lambda>names _. names = [''0001_init''])"
proof -
  have o: "takes (\<lambda>d. d = fresh_db) 1 open_step (\<lambda>_ d. d = fresh_db)"
    unfolding open_step_def by (rule takes_sql) simp
  have "takes (\<lambda>d. d = fresh_db) 4 open_in_memory (\<lambda>_ d. d = fresh_db)"
    unfolding open_in_memory_def by (rule takes_andthen [OF o], rule takes_andthen [OF o], rule takes_andthen [OF o o]) simp_all
  then show ?thesis by (rule takes_andthen) (rule takes_migrate, simp)
qed

lemma migrate_verdict:
  assumes "db w = fresh_db"
  shows "\<exists>c. fst (migrate_check L w) = Inr c \<and> ck_name c = ''migrate'' \<and> (ck_ok c \<longleftrightarrow> clear_for 10 w) \<and>
    (ck_ok c \<longrightarrow> ck_detail c = ''applied 0001_init'')"
  using takes_memory assms
  by (cases "clear_for 10 w") (fastforce simp: takes_def migrate_check_def attempt_apply ret_apply passed_def failed_def)+

section \<open>The verdict of the doctor\<close>

lemma doctor_checks:
  "fst (doctor_run M L b) = Inr \<lparr>rp_checks = [os_check M, projr (fst (conpty_check M (bn_kernel b))), fst (dpapi_check M (bn_live b)),
     projr (fst (migrate_check L (bn_engine b))), bind_check M]\<rparr>"
  by (simp add: doctor_run_def case_prod_beta Let_def)

lemma doctor_bench:
  "bn_kernel (snd (doctor_run M L b)) = snd (conpty_check M (bn_kernel b))" "bn_live (snd (doctor_run M L b)) = snd (dpapi_check M (bn_live b))"
  by (simp_all add: doctor_run_def case_prod_beta Let_def)

lemma check_line_mark: "take 4 (check_line c) = (if ck_ok c then ''ok  '' else ''FAIL'')"
  by (simp add: check_line_def)

lemma agent_main_report:
  "fst (doctor_run M L b) = Inr report \<Longrightarrow>
   agent_main M L b = ((map check_line (rp_checks report), [], if all_ok report then 0 else 1), snd (doctor_run M L b))"
  by (cases "doctor_run M L b") (simp add: agent_main_def)

text \<open>
  C40. The doctor is green exactly on a usable machine: the exit code is 0 exactly when the binary runs on
  Windows, the registry key opens, both pipes and the pseudo console are created, a secret survives
  DPAPI, all ten statements that open and migrate a database in memory succeed, and a port can be bound;
  it is 1 otherwise. All five checks always run and print one line each, marked \<open>ok\<close> or \<open>FAIL\<close>, and
  whichever call fails, the probes leave no handle, console or DPAPI buffer behind.
\<close>

theorem doctor_verdict:
  assumes "fresh_kernel (db (bn_kernel b))" "db (bn_engine b) = fresh_db" "protect_documented M"
    "agent_main M L b = ((out, err, code), b')"
  shows "code = (if is_windows M \<and> (\<exists>key. mc_registry M = Inr key) \<and> clear_for 3 (bn_kernel b) \<and> dpapi_works M \<and>
           clear_for 10 (bn_engine b) \<and> (\<exists>port. mc_bind M = Inr port) then 0 else 1) \<and>
    length out = 5 \<and> err = [] \<and> (code = 0 \<longleftrightarrow> (\<forall>line\<in>set out. take 4 line = ''ok  '')) \<and>
    ledger (db (bn_kernel b')) = ledger (db (bn_kernel b)) \<and> bn_live b' = bn_live b"
proof -
  obtain m where m: "fst (migrate_check L (bn_engine b)) = Inr m" "ck_ok m \<longleftrightarrow> clear_for 10 (bn_engine b)"
    using migrate_verdict [OF assms(2)] by blast
  have k: "ledger (db (snd (conpty_check M (bn_kernel b)))) = ledger (db (bn_kernel b))"
    using conpty_ledger [OF assms(1)] by (simp add: ensures_def)
  have r: "out = map check_line [os_check M, projr (fst (conpty_check M (bn_kernel b))), fst (dpapi_check M (bn_live b)), m, bind_check M]"
    "err = []" "b' = snd (doctor_run M L b)"
    "code = (if list_all ck_ok [os_check M, projr (fst (conpty_check M (bn_kernel b))), fst (dpapi_check M (bn_live b)), m, bind_check M] then 0 else 1)"
    using assms(4) by (simp_all add: agent_main_report [OF doctor_checks] m(1) all_ok_def)
  then have "code = 0 \<longleftrightarrow> (\<forall>line\<in>set out. take 4 line = ''ok  '')" by (simp add: check_line_mark)
  moreover have "ledger (db (bn_kernel b')) = ledger (db (bn_kernel b))" "bn_live b' = bn_live b"
    using k dpapi_frees [OF assms(3)] by (simp_all add: r(3) doctor_bench)
  ultimately show ?thesis
    using r(1,2,4) by (simp add: os_check_ok conpty_verdict dpapi_verdict bind_check_ok m(2))
qed

text \<open>A machine on which everything works but the second pipe.\<close>

definition sample_machine :: machine where
  "sample_machine = \<lparr>mc_os = ''windows'', mc_registry = Inr (Some ''Windows 11 Pro'', None), mc_last_error = (\<lambda>_. 8),
     mc_hresult = 0x80070057, mc_protect = (\<lambda>s. (1, \<lparr>cb_data = 3, pb_data = Some (1, ''xyz'')\<rparr>)),
     mc_unprotect = (\<lambda>_. (1, \<lparr>cb_data = 25, pb_data = Some (2, SECRET)\<rparr>)), mc_bind = Inr (Some 49152)\<rparr>"

definition sample_bench :: "nat \<Rightarrow> bench" where
  "sample_bench n = \<lparr>bn_kernel = failing_at n, bn_live = [], bn_engine = calm_world fresh_db\<rparr>"

lemma sample_bench_ok: "fresh_kernel (db (bn_kernel (sample_bench n)))" "db (bn_engine (sample_bench n)) = fresh_db"
  "protect_documented sample_machine" "dpapi_works sample_machine" "clear_for k (bn_engine (sample_bench n))"
  by (simp_all add: sample_bench_def failing_fresh protect_documented_def dpapi_works_def clear_for_def calm_world_def)
    (simp_all add: sample_machine_def SECRET_def)

theorem doctor_verdict_witness:
  "\<exists>b out b' out'. agent_main sample_machine sample_libs (sample_bench 99) = ((out, [], 0), b) \<and> length out = 5 \<and>
     agent_main sample_machine sample_libs (sample_bench 1) = ((out', [], 1), b') \<and>
     ledger (db (bn_kernel b')) = ledger sample_kernel \<and> bn_live b' = []"
proof -
  obtain out err code b where r: "agent_main sample_machine sample_libs (sample_bench 99) = ((out, err, code), b)" by (metis prod.exhaust)
  obtain out' err' code' b' where r': "agent_main sample_machine sample_libs (sample_bench 1) = ((out', err', code'), b')" by (metis prod.exhaust)
  have c: "clear_for 3 (bn_kernel (sample_bench 99))" "\<not> clear_for 3 (bn_kernel (sample_bench 1))"
    by (auto simp: clear_for_def sample_bench_def failing_at_def)
  have m: "is_windows sample_machine" "\<exists>key. mc_registry sample_machine = Inr key" "\<exists>port. mc_bind sample_machine = Inr port"
    by (simp_all add: is_windows_def sample_machine_def)
  show ?thesis
    using doctor_verdict [OF sample_bench_ok(1-3) r] doctor_verdict [OF sample_bench_ok(1-3) r'] r r' c m sample_bench_ok(4,5)
    by (simp add: sample_bench_def failing_at_def)
qed

end
