(* ===== verification/E2E_Children.thy ===== *)
theory E2E_Children
  imports Adapter_Contract Console Exec Config
begin

text \<open>
  calcar-agent/examples/e2e_exec.rs: the checks of the end-to-end runner that start children, over the
  plain executor and over the adapters. What the children do is an argument: what their spawn, their
  waits and \<open>tasklist\<close> return, and what arrived on their streams when. A panic of \<open>expect\<close> is \<open>Inl\<close> with
  its message; the detail that a failed check prints is left out.
\<close>

section \<open>Results and panics\<close>

type_synonym checks = "(string \<times> bool) list"

definition and_then :: "'e + 'a \<Rightarrow> ('a \<Rightarrow> 'e + 'b) \<Rightarrow> 'e + 'b" where
  "and_then r f = (case r of Inl e \<Rightarrow> Inl e | Inr x \<Rightarrow> f x)"

definition expect_ok :: "string \<Rightarrow> 'e + 'a \<Rightarrow> string + 'a" where
  "expect_ok message r = (case r of Inl _ \<Rightarrow> Inl message | Inr x \<Rightarrow> Inr x)"

definition expect_found :: "string \<Rightarrow> 'a option \<Rightarrow> string + 'a" where
  "expect_found message found = (case found of None \<Rightarrow> Inl message | Some x \<Rightarrow> Inr x)"

lemmas panic_defs = and_then_def expect_ok_def expect_found_def

section \<open>The plain executor\<close>

definition e2e_plain :: "string list \<Rightarrow> PlainConfig" where
  "e2e_plain cmd = plain_config_new cmd"

text \<open>\<open>spawn\<close> refuses a command line that it cannot build before it calls the system.\<close>

definition spawn_child :: "launcher \<Rightarrow> launcher" where
  "spawn_child launch config = (case command_line (pg_argv config) of Inl e \<Rightarrow> Inl e | Inr _ \<Rightarrow> launch config)"

definition run_child :: "string \<Rightarrow> run_answer \<Rightarrow> PlainConfig \<Rightarrow> string + PlainOutput" where
  "run_child name os config =
     and_then (expect_ok (''spawn '' @ name) (spawn_child (ra_launch os) config)) (\<lambda>child.
     expect_ok (''join '' @ name) (child_join (ra_wait os) (ra_stdout os) (ra_stderr os) child))"

record output_children =
  oc_echo :: run_answer
  oc_split :: run_answer
  oc_exit42 :: run_answer
  oc_more :: run_answer
  oc_cap :: run_answer

definition cmd :: "string \<Rightarrow> string list" where
  "cmd body = [''cmd.exe'', ''/Q'', ''/C'', body]"

definition crlf :: string where "crlf = [carriage, newline]"

definition output_checks :: "output_children \<Rightarrow> string + checks" where
  "output_checks oc =
     and_then (run_child ''echo'' (oc_echo oc) (e2e_plain (cmd ''echo HELLO''))) (\<lambda>echo.
     and_then (run_child ''split'' (oc_split oc) (e2e_plain (cmd ''(echo OUT) & (echo ERR 1>&2)''))) (\<lambda>split.
     and_then (run_child ''exit42'' (oc_exit42 oc) (e2e_plain (cmd ''exit 42''))) (\<lambda>exit42.
     and_then (run_child ''more'' (oc_more oc)
         (with_input (plain_config_new (cmd ''more'')) (''LINE1'' @ crlf @ ''LINE2'' @ crlf))) (\<lambda>more.
     and_then (run_child ''cap'' (oc_cap oc)
         ((e2e_plain (cmd ''for /L %i in (1,1,2000) do @echo line-%i''))\<lparr>pg_output_cap_bytes := 4096\<rparr>)) (\<lambda>capped.
     Inr [(''plain-echo'', po_exit_code echo = Some 0 \<and> contains ''HELLO'' (utf8_lossy (po_stdout echo)) \<and> po_stderr echo = []),
          (''plain-split'', contains ''OUT'' (utf8_lossy (po_stdout split)) \<and> contains ''ERR'' (utf8_lossy (po_stderr split))),
          (''plain-exit-code'', po_exit_code exit42 = Some 42),
          (''plain-stdin'', contains ''LINE1'' (utf8_lossy (po_stdout more)) \<and> contains ''LINE2'' (utf8_lossy (po_stdout more))),
          (''plain-cap'', po_truncated capped \<and> length (po_stdout capped) \<le> 4096 \<and> length (po_stderr capped) \<le> 4096)])))))"

text \<open>A line of the CSV that \<open>tasklist\<close> prints names the process between quotes.\<close>

definition tasklist_has :: "string \<Rightarrow> nat \<Rightarrow> bool" where
  "tasklist_has out pid = list_ex (contains (dquote # show_nat pid @ [dquote])) (lines (utf8_lossy out))"

text \<open>What arrived on the two streams of a child.\<close>

definition arrive :: "string \<Rightarrow> string \<Rightarrow> PlainChild \<Rightarrow> PlainChild" where
  "arrive out err child = child\<lparr>ch_stdout := push (ch_stdout child) out, ch_stderr := push (ch_stderr child) err\<rparr>"

definition grandchild_of :: "PlainOutput \<Rightarrow> nat option" where
  "grandchild_of snap = (case List.map_filter (\<lambda>l. strip_prefix ''GRANDCHILD='' (trim l)) (lines (utf8_lossy (po_stdout snap))) of
       [] \<Rightarrow> None
     | v # _ \<Rightarrow> parse_unsigned (nat u32_max) (trim v))"

text \<open>
  The children that are killed: what the tree had printed after four seconds, what \<open>tasklist\<close> printed
  when it was asked for the grandchild before the kill and last after it (the loop before that only
  waits), and for the process of the child that was dropped.
\<close>

record killed_children =
  kc_tree :: run_answer
  kc_alive :: string
  kc_dead :: string
  kc_sleeper :: run_answer
  kc_dropped :: "PlainConfig \<Rightarrow> PtyError + nat"
  kc_gone :: string

definition tree_script :: string where
  "tree_script = ''$c = Start-Process -FilePath ping -ArgumentList '' @
     concat (map (\<lambda>a. CHR 0x27 # a @ [CHR 0x27, CHR '','']) [''-n'', ''60'']) @ CHR 0x27 # ''127.0.0.1'' @ CHR 0x27 #
     '' -WindowStyle Hidden -PassThru; Write-Output ('' @ dquote # ''GRANDCHILD='' @ dquote #
     '' + $c.Id); Start-Sleep -Seconds 60''"

definition ping :: "string \<Rightarrow> string list" where
  "ping count = [''ping.exe'', ''-n'', count, ''127.0.0.1'']"

definition tree_checks :: "killed_children \<Rightarrow> string + checks" where
  "tree_checks kc =
     and_then (expect_ok ''spawn tree'' (spawn_child (ra_launch (kc_tree kc))
         (e2e_plain [''powershell.exe'', ''-NoProfile'', ''-NonInteractive'', ''-Command'', tree_script]))) (\<lambda>child.
     let child1 = arrive (concat (ra_stdout (kc_tree kc))) (concat (ra_stderr (kc_tree kc))) child in
     and_then (expect_found ''grandchild pid in snapshot'' (grandchild_of (child_snapshot child1))) (\<lambda>grandchild.
     and_then (expect_ok ''wait tree'' (fst (child_wait (ra_wait (kc_tree kc) (wait_millis (Some 10000))) child1))) (\<lambda>exited.
     Inr [(''plain-tree-grandchild-alive'', tasklist_has (kc_alive kc) grandchild),
          (''plain-tree-child-reaped'', exited \<noteq> None),
          (''plain-tree-grandchild-dead'', \<not> tasklist_has (kc_dead kc) grandchild)])))"

definition kill_checks :: "killed_children \<Rightarrow> string + checks" where
  "kill_checks kc =
     and_then (expect_ok ''spawn sleep'' (spawn_child (ra_launch (kc_sleeper kc)) (e2e_plain (ping ''30'')))) (\<lambda>child.
     let (waited, child1) = child_wait (ra_wait (kc_sleeper kc) (wait_millis (Some 200))) child in
     and_then (expect_ok ''wait deadline'' waited) (\<lambda>early.
     and_then (expect_ok ''join sleep'' (child_join (ra_wait (kc_sleeper kc)) (ra_stdout (kc_sleeper kc)) (ra_stderr (kc_sleeper kc)) child1)) (\<lambda>out.
     and_then (Inr (spawn_child (ra_launch (kc_sleeper kc)) (plain_config_new []))) (\<lambda>bad.
     and_then (expect_ok ''spawn drop'' (kc_dropped kc (e2e_plain (ping ''60'')))) (\<lambda>pid.
     Inr [(''plain-deadline'', early = None), (''plain-kill-join'', po_exit_code out \<noteq> None),
          (''plain-empty-argv'', case bad of Inl _ \<Rightarrow> True | Inr _ \<Rightarrow> False),
          (''plain-drop-kills-tree'', \<not> tasklist_has (kc_gone kc) pid)])))))"

definition plain_checks :: "output_children \<Rightarrow> killed_children \<Rightarrow> string + checks" where
  "plain_checks oc kc =
     and_then (output_checks oc) (\<lambda>outputs. and_then (tree_checks kc) (\<lambda>tree. and_then (kill_checks kc) (\<lambda>kills.
     Inr (outputs @ tree @ kills))))"

section \<open>The adapters\<close>

fun adapter_arrive :: "string \<Rightarrow> string \<Rightarrow> Adapter \<Rightarrow> Adapter" where
  "adapter_arrive out err (GenericA a) = GenericA (a\<lparr>ga_child := map_option (arrive out err) (ga_child a)\<rparr>)"
| "adapter_arrive out err (OpencodeA a) = OpencodeA (on_child (arrive out err) a)"
| "adapter_arrive out err (ClaudeA a) = ClaudeA (on_child (arrive out err) a)"
| "adapter_arrive out err (CodexA a) = CodexA (on_child (arrive out err) a)"

text \<open>A round of a polling loop: what arrived on the two streams since the last, and what its poll sees.\<close>

type_synonym round = "string \<times> string \<times> wait_result"

text \<open>The loop, with one round for every time it comes round before the deadline.\<close>

fun poll_loop :: "EventType \<Rightarrow> round list \<Rightarrow> ProviderEvent list \<Rightarrow> Adapter \<Rightarrow> ProviderEvent list \<times> Adapter" where
  "poll_loop wanted [] seen a = (seen, a)"
| "poll_loop wanted ((out, err, os) # rounds) seen a =
     (let (new, a') = adapter_drain os (adapter_arrive out err a) in
      if list_ex (\<lambda>e. pv_event_type e = wanted) (seen @ new) then (seen @ new, a')
      else poll_loop wanted rounds (seen @ new) a')"

record child_story =
  cy_launch :: launcher
  cy_rounds :: "round list"
  cy_after :: wait_result

text \<open>\<open>kinds.contains\<close>.\<close>

definition has_kind :: "EventType \<Rightarrow> ProviderEvent list \<Rightarrow> bool" where
  "has_kind kind seen = list_ex (\<lambda>e. pv_event_type e = kind) seen"

definition is_unsupported :: "AdapterError + 'a \<Rightarrow> bool" where
  "is_unsupported r = (case r of Inl e \<Rightarrow> e = Unsupported | Inr _ \<Rightarrow> False)"

definition generic_checks :: "child_story \<Rightarrow> string + checks" where
  "generic_checks y =
     and_then (expect_ok ''generic adapter'' (for_provider Generic)) (\<lambda>generic.
     let caps = adapter_capabilities generic;
         req = spawn_request_new (cmd ''echo ADAPTER_MARKER'');
         (interactive, generic1) = adapter_spawn (cy_launch y) (cy_after y) (req\<lparr>sq_interactive := True\<rparr>) generic;
         (spawned, generic2) = adapter_spawn (cy_launch y) (cy_after y) req generic1 in
     and_then (expect_ok ''generic spawn'' spawned) (\<lambda>_.
     let (seen, generic3) = poll_loop CommandCompleted (cy_rounds y) [] generic2 in
     and_then (expect_ok ''g2'' (for_provider Generic)) (\<lambda>fresh.
     let (approved, generic4) = adapter_respond_approval ''r'' Allow generic3;
         (snap, generic5) = adapter_snapshot (cy_after y) generic4 in
     Inr [(''adapter-registry-generic'', adapter_name generic = ''generic''),
          (''adapter-generic-caps'', cap_streaming caps \<and> cap_stop caps \<and> \<not> cap_approvals caps \<and> \<not> cap_interactive_input caps),
          (''adapter-generic-interactive-unsupported'', is_unsupported interactive),
          (''adapter-generic-echo'', seen \<noteq> [] \<and> pv_event_type (hd seen) = CommandStarted \<and> has_kind CommandCompleted seen \<and>
             list_ex (\<lambda>e. contains ''ADAPTER_MARKER'' (pv_summary e)) seen),
          (''adapter-generic-inject-no-child'', fst (adapter_inject ''x'' fresh) = Inl NotRunning),
          (''adapter-generic-approval-unsupported'', is_unsupported approved),
          (''adapter-generic-snapshot'', \<not> as_running snap \<and> as_exit_code snap = Some 0 \<and> as_provider_session_id snap = None)])))"

definition fixture_script :: "string \<Rightarrow> string \<Rightarrow> string" where
  "fixture_script prefix sess = ''echo '' @ prefix @ ''_SESSION '' @ sess @ '' & echo '' @ prefix @ ''_START go & echo '' @ prefix @
     ''_APPROVAL req-fx do it & echo '' @ prefix @ ''_DONE fin & echo '' @ prefix @ ''_EXIT ok bye''"

definition fixture_checks :: "child_story \<Rightarrow> Provider \<Rightarrow> string \<Rightarrow> string \<Rightarrow> string + checks" where
  "fixture_checks y provider prefix sess =
     and_then (expect_ok ''provider adapter'' (for_provider provider)) (\<lambda>adapter.
     let (spawned, adapter1) = adapter_spawn (cy_launch y) (cy_after y) (spawn_request_new (cmd (fixture_script prefix sess))) adapter in
     and_then (expect_ok ''provider spawn'' spawned) (\<lambda>_.
     let (seen, adapter2) = poll_loop WorkflowCompleted (cy_rounds y) [] adapter1 in
     and_then (expect_found ''approval event'' (find (\<lambda>e. pv_event_type e = ApprovalRequired) seen)) (\<lambda>approval.
     let (snap, adapter3) = adapter_snapshot (cy_after y) adapter2;
         (deferred, adapter4) = adapter_respond_approval ''req-fx'' Allow adapter3 in
     Inr [(''adapter-'' @ prefix @ ''-fixture'', has_kind AgentStarted seen \<and> has_kind ApprovalRequired seen \<and> has_kind WorkflowCompleted seen),
          (''adapter-'' @ prefix @ ''-approval-pointer'', pv_detail_pointer approval = Some ''req-fx''),
          (''adapter-'' @ prefix @ ''-resume'', as_resume_pointer snap = Some sess),
          (''adapter-'' @ prefix @ ''-approval-deferred'', is_unsupported deferred)])))"

definition adapter_checks :: "child_story \<Rightarrow> (Provider \<Rightarrow> child_story) \<Rightarrow> string + checks" where
  "adapter_checks generic stories =
     and_then (generic_checks generic) (\<lambda>g.
     and_then (fixture_checks (stories Opencode) Opencode ''OPENCODE'' ''sess-op'') (\<lambda>o1.
     and_then (fixture_checks (stories Claude) Claude ''CLAUDE'' ''sess-cl'') (\<lambda>o2.
     and_then (fixture_checks (stories Codex) Codex ''CODEX'' ''sess-co'') (\<lambda>o3.
     Inr (g @ o1 @ o2 @ o3)))))"

end
