(* ===== verification/E2E_Children_Props.thy ===== *)
theory E2E_Children_Props
  imports E2E_Children
begin

text \<open>
  The checks of the runner that start children pass on every machine whose children do as they are told:
  however their output is cut into pieces, whenever it arrives and whenever it is polled, as long as no
  poll sees the exit of a child before the last of its output has arrived. Without that they fail.
\<close>

section \<open>A polling loop is a run of its adapter\<close>

definition round_inputs :: "round \<Rightarrow> stream_input list" where
  "round_inputs r = (case r of (out, err, os) \<Rightarrow> [OutChunk out, ErrChunk err, Drain os])"

definition inputs_of :: "round list \<Rightarrow> stream_input list" where
  "inputs_of rounds = concat (map round_inputs rounds)"

definition printed :: "round list \<Rightarrow> string" where
  "printed rounds = concat (map fst rounds)"

definition complained :: "round list \<Rightarrow> string" where
  "complained rounds = concat (map (\<lambda>r. fst (snd r)) rounds)"

definition saw_exit :: "round \<Rightarrow> bool" where
  "saw_exit r = (case snd (snd r) of Exited _ \<Rightarrow> True | _ \<Rightarrow> False)"

lemma inputs_of_append: "inputs_of (rs @ ss) = inputs_of rs @ inputs_of ss"
  by (simp add: inputs_of_def)

lemma printed_append: "printed (rs @ ss) = printed rs @ printed ss"
  by (simp add: printed_def)

lemma inputs_of_bytes: "out_bytes (inputs_of rounds) = printed rounds" "err_bytes (inputs_of rounds) = complained rounds"
  by (induction rounds) (auto simp: inputs_of_def round_inputs_def printed_def complained_def)

lemma inputs_of_running:
  assumes "\<forall>r\<in>set rounds. \<not> saw_exit r"
  shows "\<forall>i\<in>set (inputs_of rounds). still_runs i"
proof -
  have "\<not> saw_exit r \<Longrightarrow> i \<in> set (round_inputs r) \<Longrightarrow> still_runs i" for r i
    by (cases "snd (snd r)") (auto simp: round_inputs_def saw_exit_def split: prod.splits)
  then show ?thesis using assms by (auto simp: inputs_of_def)
qed

lemma marker_round:
  "marker_run prefix (round_inputs (out, err, os)) (seen, a) =
     (let (new, a') = marker_drain prefix os (on_child (arrive out err) a) in (seen @ new, a'))"
proof -
  have "on_child (\<lambda>ch. ch\<lparr>ch_stderr := push (ch_stderr ch) err\<rparr>) (on_child (\<lambda>ch. ch\<lparr>ch_stdout := push (ch_stdout ch) out\<rparr>) a) =
      on_child (arrive out err) a"
    by (cases "ma_child a") (simp_all add: on_child_def arrive_def)
  then show ?thesis by (simp add: marker_run_def round_inputs_def)
qed

lemma generic_round:
  "generic_run (round_inputs (out, err, os)) (seen, a) =
     (let (new, a') = generic_drain os (a\<lparr>ga_child := map_option (arrive out err) (ga_child a)\<rparr>) in (seen @ new, a'))"
  by (cases "ga_child a") (simp_all add: generic_run_def round_inputs_def arrive_def)

text \<open>Both loops at once: a run of rounds, cut where the wanted event was first seen.\<close>

lemma poll_loop_runs:
  assumes step: "\<And>out err os seen a. run (round_inputs (out, err, os)) (seen, a) =
      (let (new, a') = drain os (feed out err a) in (seen @ new, a'))"
    and run: "\<And>is js s. run (is @ js) s = run js (run is s)" "\<And>s. run [] s = s"
    and dispatch: "\<And>os a. adapter_drain os (W a) = rewrap W (drain os a)"
      "\<And>out err a. adapter_arrive out err (W a) = W (feed out err a)"
  shows "\<exists>k\<le>length rounds. poll_loop wanted rounds seen (W a) =
      (fst (run (inputs_of (take k rounds)) (seen, a)), W (snd (run (inputs_of (take k rounds)) (seen, a)))) \<and>
    (k = length rounds \<or> has_kind wanted (fst (run (inputs_of (take k rounds)) (seen, a))))"
proof (induction rounds arbitrary: seen a)
  case Nil
  then show ?case by (simp add: inputs_of_def run)
next
  case (Cons r rounds)
  obtain out err os where r: "r = (out, err, os)" by (cases r) auto
  obtain new a' where d: "drain os (feed out err a) = (new, a')" by fastforce
  then have one: "run (round_inputs r) (seen, a) = (seen @ new, a')" using step [of out err os seen a] by (simp add: r)
  show ?case
  proof (cases "has_kind wanted (seen @ new)")
    case True
    then have "poll_loop wanted (r # rounds) seen (W a) = (seen @ new, W a')"
      by (simp add: r dispatch rewrap_def d has_kind_def)
    then show ?thesis using one True by (intro exI [of _ 1]) (simp add: inputs_of_def)
  next
    case False
    then have "poll_loop wanted (r # rounds) seen (W a) = poll_loop wanted rounds (seen @ new) (W a')"
      by (simp add: r dispatch rewrap_def d has_kind_def)
    moreover have "run (inputs_of (take (Suc k) (r # rounds))) (seen, a) = run (inputs_of (take k rounds)) (seen @ new, a')" for k
      using one by (simp add: inputs_of_def run)
    moreover obtain k where "k \<le> length rounds" "poll_loop wanted rounds (seen @ new) (W a') =
        (fst (run (inputs_of (take k rounds)) (seen @ new, a')), W (snd (run (inputs_of (take k rounds)) (seen @ new, a'))))"
      "k = length rounds \<or> has_kind wanted (fst (run (inputs_of (take k rounds)) (seen @ new, a')))"
      using Cons [of "seen @ new" a'] by blast
    ultimately show ?thesis by (intro exI [of _ "Suc k"]) (simp del: take_Suc_Cons)
  qed
qed

lemma fold_runs:
  "marker_run p (is @ js) s = marker_run p js (marker_run p is s)" "marker_run p [] s = s"
  "generic_run (is @ js) t = generic_run js (generic_run is t)" "generic_run [] t = t"
  by (simp_all add: marker_run_def generic_run_def)

section \<open>The marker adapters\<close>

lemma no_lines: "full_lines [] = []" "all_lines [] = []" "stream_events prefix [] = []" "last_session prefix [] t = t"
  by (simp_all add: full_lines_def all_lines_def fragment_def stream_events_def last_session_def)

text \<open>A running child that prints nothing on its error output.\<close>

lemma running_quiet:
  assumes "running_ok prefix cap out [] (evs, a)"
  obtains ch so where "ma_child a = Some ch" "\<not> ch_exited ch" "\<not> ma_terminal_emitted a"
    "cs_buf (ch_stdout ch) = take cap out" "cs_buf (ch_stderr ch) = []"
    "in_step so (ma_stdout_cursor a) (ma_stdout_tail a) (cs_buf (ch_stdout ch))"
    "in_step [] (ma_stderr_cursor a) (ma_stderr_tail a) (cs_buf (ch_stderr ch))"
    "evs = stream_events prefix (full_lines so)" "ma_provider_session_id a = last_session prefix (full_lines so) None"
proof -
  obtain ch so se where r: "ma_child a = Some ch" "\<not> ch_exited ch" "\<not> ma_terminal_emitted a"
    "sink_holds (ch_stdout ch) cap out" "sink_holds (ch_stderr ch) cap []"
    "in_step so (ma_stdout_cursor a) (ma_stdout_tail a) (cs_buf (ch_stdout ch))"
    "in_step se (ma_stderr_cursor a) (ma_stderr_tail a) (cs_buf (ch_stderr ch))"
    "evs \<in> shuffles (stream_events prefix (full_lines so)) (stream_events prefix (full_lines se))"
    "list_all (\<lambda>l. \<not> names_session prefix l) (full_lines se) \<longrightarrow> ma_provider_session_id a = last_session prefix (full_lines so) None"
    using assms unfolding running_ok_def fst_conv snd_conv by blast
  have "se = []" using r(5,7) by (simp add: in_step_def sink_holds_def)
  with r that show thesis by (simp add: sink_holds_def no_lines)
qed

lemma last_poll:
  assumes "running_ok prefix cap out [] s" "length out \<le> cap" "fragment out = []"
  shows "\<exists>extra. fst (marker_input prefix (Drain os) s) = stream_events prefix (full_lines out) @ extra \<and>
    ma_provider_session_id (snd (marker_input prefix (Drain os) s)) = last_session prefix (full_lines out) None"
proof -
  obtain evs a where s: "s = (evs, a)" by fastforce
  obtain ch so where r: "ma_child a = Some ch" "\<not> ch_exited ch" "\<not> ma_terminal_emitted a"
    "cs_buf (ch_stdout ch) = out" "cs_buf (ch_stderr ch) = []"
    "in_step so (ma_stdout_cursor a) (ma_stdout_tail a) (cs_buf (ch_stdout ch))"
    "in_step [] (ma_stderr_cursor a) (ma_stderr_tail a) (cs_buf (ch_stderr ch))"
    and e: "evs = stream_events prefix (full_lines so)" "ma_provider_session_id a = last_session prefix (full_lines so) None"
    using assms(2) by (auto intro: running_quiet [OF assms(1) [unfolded s]])
  have all: "all_lines out = full_lines out" using assms(3) by (simp add: all_lines_def)
  show ?thesis
  proof (cases "\<exists>code. os = Exited code")
    case True
    then obtain code where os: "os = Exited code" by blast
    obtain lo le a' where "marker_drain prefix os a = (stream_events prefix lo @ stream_events prefix le @
        terminal_event a (ch\<lparr>ch_exit_code := code, ch_exited := True\<rparr>), a')" "full_lines out = full_lines so @ lo" "le = []"
      "ma_provider_session_id a' = last_session prefix le (last_session prefix lo (ma_provider_session_id a))"
      using marker_drain_exit [OF r(1-3,6,7), of prefix code] by (auto simp: os r(4,5) all no_lines)
    then show ?thesis using e by (simp add: s no_lines)
  next
    case False
    obtain lo le a' where "marker_drain prefix os a = (stream_events prefix lo @ stream_events prefix le, a')"
      "full_lines out = full_lines so @ lo" "le = []"
      "ma_provider_session_id a' = last_session prefix le (last_session prefix lo (ma_provider_session_id a))"
      using marker_drain_running [OF r(1,2) _ r(6,7), of os prefix] False by (auto simp: r(4,5) no_lines)
    then show ?thesis using e by (simp add: s no_lines)
  qed
qed

text \<open>A loop over a child that prints \<open>out\<close>: it stops after some of the lines with the wanted event, or has seen all.\<close>

lemma polled_lines:
  assumes "\<forall>r\<in>set before. \<not> saw_exit r" "complained (before @ [final]) = []"
    "length (printed (before @ [final])) \<le> stream_cap config" "fragment (printed (before @ [final])) = []"
    and dispatch: "\<And>os a. adapter_drain os (W a) = rewrap W (marker_drain prefix os a)"
      "\<And>out err a. adapter_arrive out err (W a) = W (on_child (arrive out err) a)"
  shows "\<exists>n extra a. poll_loop wanted (before @ [final]) [] (W (spawned config)) =
      (stream_events prefix (take n (full_lines (printed (before @ [final])))) @ extra, W a) \<and>
    ma_provider_session_id a = last_session prefix (take n (full_lines (printed (before @ [final])))) None \<and>
    (length (full_lines (printed (before @ [final]))) \<le> n \<or>
     has_kind wanted (stream_events prefix (take n (full_lines (printed (before @ [final]))))))"
proof -
  let ?rounds = "before @ [final]" and ?out = "printed (before @ [final])"
  let ?s = "\<lambda>k. marker_run prefix (inputs_of (take k ?rounds)) ([], spawned config)"
  obtain k where k: "k \<le> length ?rounds" "poll_loop wanted ?rounds [] (W (spawned config)) = (fst (?s k), W (snd (?s k)))"
    "k = length ?rounds \<or> has_kind wanted (fst (?s k))"
    using poll_loop_runs [where run = "marker_run prefix" and drain = "marker_drain prefix" and feed = "\<lambda>out err. on_child (arrive out err)"
        and W = W and rounds = ?rounds and wanted = wanted and seen = "[]" and a = "spawned config",
        OF marker_round fold_runs(1,2) dispatch] by blast
  show ?thesis
  proof (cases "k = length ?rounds")
    case True
    obtain o1 e1 os where f: "final = (o1, e1, os)" by (cases final) auto
    let ?run = "inputs_of before @ [OutChunk o1, ErrChunk e1]"
    have split: "inputs_of ?rounds = ?run @ [Drain os]" by (simp add: inputs_of_def round_inputs_def f)
    have "\<forall>i\<in>set ?run. still_runs i" using inputs_of_running [OF assms(1)] by auto
    moreover have "out_bytes ?run = ?out" "err_bytes ?run = []"
      using inputs_of_bytes(1,2) [of ?rounds] assms(2) unfolding split by (simp_all add: out_err_append)
    ultimately have "running_ok prefix (stream_cap config) ?out [] (marker_run prefix ?run ([], spawned config))"
      using running_ok_run [OF running_ok_spawned, of ?run prefix config] by simp
    from last_poll [OF this assms(3,4), of os] show ?thesis
      using k(2) True by (intro exI [of _ "length (full_lines ?out)"]) (auto simp: split fold_runs(1) marker_run_def)
  next
    case False
    then have sub: "take k ?rounds = take k before" using k(1) by simp
    have "\<forall>r\<in>set (take k before). \<not> saw_exit r" using assms(1) by (meson in_set_takeD)
    moreover have "complained (take k before) = []"
      using assms(2) by (auto simp: complained_def dest: in_set_takeD)
    ultimately have run: "running_ok prefix (stream_cap config) (printed (take k before)) [] (?s k)"
      using running_ok_run [OF running_ok_spawned inputs_of_running, of "take k before" prefix config] unfolding sub by (simp add: inputs_of_bytes)
    obtain evs a where st: "?s k = (evs, a)" by fastforce
    obtain ch so where "ma_child a = Some ch" "\<not> ch_exited ch" "\<not> ma_terminal_emitted a"
      and r: "cs_buf (ch_stdout ch) = take (stream_cap config) (printed (take k before))" and "cs_buf (ch_stderr ch) = []"
      and i: "in_step so (ma_stdout_cursor a) (ma_stdout_tail a) (cs_buf (ch_stdout ch))"
      and "in_step [] (ma_stderr_cursor a) (ma_stderr_tail a) (cs_buf (ch_stderr ch))"
      and e: "evs = stream_events prefix (full_lines so)" "ma_provider_session_id a = last_session prefix (full_lines so) None"
      by (rule running_quiet [OF run [unfolded st]])
    have "?out = printed (take k before) @ printed (drop k before @ [final])"
      by (metis append.assoc append_take_drop_id printed_append)
    moreover have "so = take (length so) (take (stream_cap config) (printed (take k before)))" using r i by (simp add: in_step_def)
    ultimately obtain rest where "?out = so @ rest" by (metis append_take_drop_id append_assoc)
    then obtain more where "full_lines ?out = full_lines so @ more" using split_append(1) [of so rest] by metis
    then have "full_lines so = take (length (full_lines so)) (full_lines ?out)" by simp
    then show ?thesis using e k(2,3) [unfolded st] False by (intro exI [of _ "length (full_lines so)"] exI [of _ "[]"]) auto
  qed
qed

section \<open>The fixtures\<close>

text \<open>What \<open>cmd.exe\<close> prints for the script: \<open>echo\<close> ends a line, and the blank before \<open>&\<close> belongs to it.\<close>

definition fixture_lines :: "string \<Rightarrow> string \<Rightarrow> string list" where
  "fixture_lines prefix sess = map (\<lambda>l. prefix @ l)
     [''_SESSION '' @ sess @ '' '', ''_START go '', ''_APPROVAL req-fx do it '', ''_DONE fin '', ''_EXIT ok bye'']"

definition fixture_output :: "string \<Rightarrow> string \<Rightarrow> string" where
  "fixture_output prefix sess = concat (map (\<lambda>l. l @ crlf) (fixture_lines prefix sess))"

definition fixtures :: "(Provider \<times> string \<times> string) list" where
  "fixtures = [(Opencode, ''OPENCODE'', ''sess-op''), (Claude, ''CLAUDE'', ''sess-cl''), (Codex, ''CODEX'', ''sess-co'')]"

text \<open>A child that starts, prints \<open>out\<close> in any pieces, and is not seen to have exited before it has.\<close>

definition tells :: "child_story \<Rightarrow> string \<Rightarrow> bool" where
  "tells y out \<longleftrightarrow> cy_launch y = (\<lambda>config. Inr (child_new config)) \<and> cy_rounds y \<noteq> [] \<and>
     (\<forall>r\<in>set (butlast (cy_rounds y)). \<not> saw_exit r) \<and> printed (cy_rounds y) = out \<and> complained (cy_rounds y) = []"

definition fixture_events :: "ProviderEvent list" where
  "fixture_events = [provider_event AgentStarted ''go '', (provider_event ApprovalRequired ''do it '')\<lparr>pv_detail_pointer := Some ''req-fx''\<rparr>,
     provider_event CommandCompleted ''fin '', provider_event WorkflowCompleted ''bye'']"

lemma fixture_runs:
  "list_all (\<lambda>(p, prefix, sess). let out = fixture_output prefix sess; marker = prefix @ ''_'' in
     map (line_events marker) (full_lines out) = [] # map (\<lambda>e. [e]) fixture_events \<and>
     last_session marker (full_lines out) None = Some sess \<and> fragment out = [] \<and> length out \<le> 150) fixtures"
  by code_simp

lemma fixture_facts:
  assumes "(p, prefix, sess) \<in> set fixtures"
  shows "length (full_lines (fixture_output prefix sess)) = 5" "length (fixture_output prefix sess) \<le> 150"
    "fragment (fixture_output prefix sess) = []"
    "last_session (prefix @ ''_'') (full_lines (fixture_output prefix sess)) None = Some sess"
    "stream_events (prefix @ ''_'') (full_lines (fixture_output prefix sess)) = fixture_events"
    "has_kind WorkflowCompleted (stream_events (prefix @ ''_'') (take n (full_lines (fixture_output prefix sess)))) \<Longrightarrow> 5 \<le> n"
proof -
  have f: "map (line_events (prefix @ ''_'')) (full_lines (fixture_output prefix sess)) = [] # map (\<lambda>e. [e]) fixture_events"
    "last_session (prefix @ ''_'') (full_lines (fixture_output prefix sess)) None = Some sess"
    "fragment (fixture_output prefix sess) = []" "length (fixture_output prefix sess) \<le> 150"
    using fixture_runs assms by (auto simp: list_all_iff Let_def)
  then show "last_session (prefix @ ''_'') (full_lines (fixture_output prefix sess)) None = Some sess"
    "fragment (fixture_output prefix sess) = []" "length (fixture_output prefix sess) \<le> 150" by blast+
  show "length (full_lines (fixture_output prefix sess)) = 5"
    using arg_cong [OF f(1), of length] by (simp add: fixture_events_def)
  show "stream_events (prefix @ ''_'') (full_lines (fixture_output prefix sess)) = fixture_events"
    by (simp add: stream_events_def f(1))
  assume k: "has_kind WorkflowCompleted (stream_events (prefix @ ''_'') (take n (full_lines (fixture_output prefix sess))))"
  have "stream_events (prefix @ ''_'') (take n (full_lines (fixture_output prefix sess))) =
      concat (take n ([] # map (\<lambda>e. [e]) fixture_events))"
    by (simp add: stream_events_def f(1) flip: take_map)
  moreover have "\<not> has_kind WorkflowCompleted (concat (take n ([] # map (\<lambda>e. [e]) fixture_events)))" if "n < 5"
    using that by (auto simp: has_kind_def fixture_events_def provider_event_def less_Suc_eq numeral_eq_Suc)
  ultimately show "5 \<le> n" using k by force
qed

text \<open>The adapter of a fixture, started on its script.\<close>

lemma fixture_adapter:
  assumes "(p, prefix, sess) \<in> set fixtures" "cy_launch y = (\<lambda>config. Inr (child_new config))"
  obtains W config where "for_provider p = Inr (W marker_new)" "stream_cap config = 1048576"
    "\<forall>os a. adapter_drain os (W a) = rewrap W (marker_drain (prefix @ ''_'') os a)"
    "\<forall>out err a. adapter_arrive out err (W a) = W (on_child (arrive out err) a)"
    "\<forall>os a. adapter_snapshot os (W a) = rewrap W (marker_snapshot os a)"
    "\<forall>rid d a. adapter_respond_approval rid d (W a) = rewrap W (marker_respond_approval rid d a)"
    "adapter_spawn (cy_launch y) (cy_after y) (spawn_request_new (cmd (fixture_script prefix sess))) (W marker_new) =
      (Inr (), W (spawned config))"
proof -
  let ?config = "\<lparr>pg_argv = cmd (fixture_script prefix sess), pg_working_dir = None, pg_env = [], pg_input = None,
     pg_output_cap_bytes = 1024 * 1024\<rparr>"
  have cap: "stream_cap ?config = 1048576" by (simp add: stream_cap_def clamp_cap_def MAX_PLAIN_OUTPUT_CAP_BYTES_def)
  have "marker_spawn (cy_launch y) (cy_after y) (spawn_request_new (cmd (fixture_script prefix sess))) marker_new =
      (Inr (), spawned ?config)"
    by (simp add: marker_spawn_def spawn_request_new_def cmd_def marker_poll_def marker_new_def marker_is_running_def
        marker_reset_def assms(2) spawned_def Let_def)
  moreover obtain W where "for_provider p = Inr (W marker_new)" "\<And>os a. adapter_drain os (W a) = rewrap W (marker_drain (prefix @ ''_'') os a)"
    "\<And>out err a. adapter_arrive out err (W a) = W (on_child (arrive out err) a)"
    "\<And>launch os req a. adapter_spawn launch os req (W a) = rewrap W (marker_spawn launch os req a)"
    "\<And>os a. adapter_snapshot os (W a) = rewrap W (marker_snapshot os a)"
    "\<And>rid d a. adapter_respond_approval rid d (W a) = rewrap W (marker_respond_approval rid d a)"
    using assms(1) by (auto simp: fixtures_def for_provider_def opencode_new_def codex_new_def opencode_calls codex_calls
        claude_drain_def OPENCODE_PREFIX_def CLAUDE_PREFIX_def CODEX_PREFIX_def)
  ultimately show thesis using cap by (intro that [of W ?config]) (simp_all add: rewrap_def)
qed

text \<open>Each fixture check passes for every child that tells the fixture.\<close>

lemma fixture_green:
  assumes "(p, prefix, sess) \<in> set fixtures" "tells y (fixture_output prefix sess)"
  shows "\<exists>checks. fixture_checks y p prefix sess = Inr checks \<and> list_all snd checks"
proof -
  let ?out = "fixture_output prefix sess" and ?m = "prefix @ ''_''"
  obtain before final where rounds: "cy_rounds y = before @ [final]"
    using assms(2) by (cases "cy_rounds y" rule: rev_cases) (auto simp: tells_def)
  have y: "cy_launch y = (\<lambda>config. Inr (child_new config))" "\<forall>r\<in>set before. \<not> saw_exit r" "printed (before @ [final]) = ?out"
    "complained (before @ [final]) = []"
    using assms(2) rounds by (auto simp: tells_def)
  obtain W config where w: "for_provider p = Inr (W marker_new)" "stream_cap config = 1048576"
    "\<forall>os a. adapter_drain os (W a) = rewrap W (marker_drain ?m os a)"
    "\<forall>out err a. adapter_arrive out err (W a) = W (on_child (arrive out err) a)"
    "\<forall>os a. adapter_snapshot os (W a) = rewrap W (marker_snapshot os a)"
    "\<forall>rid d a. adapter_respond_approval rid d (W a) = rewrap W (marker_respond_approval rid d a)"
    "adapter_spawn (cy_launch y) (cy_after y) (spawn_request_new (cmd (fixture_script prefix sess))) (W marker_new) =
      (Inr (), W (spawned config))"
    by (rule fixture_adapter [OF assms(1) y(1)])
  have cap: "length ?out \<le> stream_cap config" using fixture_facts(2) [OF assms(1)] w(2) by simp
  obtain n extra a where run: "poll_loop WorkflowCompleted (cy_rounds y) [] (W (spawned config)) =
      (stream_events ?m (take n (full_lines ?out)) @ extra, W a)"
    "ma_provider_session_id a = last_session ?m (take n (full_lines ?out)) None"
    "length (full_lines ?out) \<le> n \<or> has_kind WorkflowCompleted (stream_events ?m (take n (full_lines ?out)))"
    using polled_lines [OF y(2,4), of config W ?m WorkflowCompleted, unfolded y(3), OF cap fixture_facts(3) [OF assms(1)] w(3,4) [rule_format]]
    unfolding rounds by blast
  have "5 \<le> n" using run(3) fixture_facts(1,6) [OF assms(1)] by auto
  then have all: "take n (full_lines ?out) = full_lines ?out" using fixture_facts(1) [OF assms(1)] by simp
  have events: "stream_events ?m (take n (full_lines ?out)) = fixture_events" "ma_provider_session_id a = Some sess"
    using fixture_facts(4,5) [OF assms(1)] run(2) unfolding all by simp_all
  obtain a' where snap: "marker_snapshot (cy_after y) a = (fst (marker_snapshot (cy_after y) a), a')"
    "as_resume_pointer (fst (marker_snapshot (cy_after y) a)) = Some sess"
    using events(2) by (simp add: marker_snapshot_def marker_poll_def Let_def)
  show ?thesis
    using run(1) snap
    by (simp add: fixture_checks_def panic_defs w(1,5-7) rewrap_def events case_prod_beta Let_def
        fixture_events_def has_kind_def provider_event_def marker_respond_approval_def is_unsupported_def)
qed

section \<open>The generic adapter\<close>

lemma generic_kinds:
  assumes "generic_ok cap started out err (evs, a)" "pv_event_type started = CommandStarted"
  shows "\<not> has_kind CommandCompleted evs"
proof -
  obtain seen where "evs @ pending_list a = started # map line_event (decoded_lines seen)"
    using assms(1) unfolding generic_ok_def fst_conv snd_conv by blast
  then have "set evs \<subseteq> set (started # map line_event (decoded_lines seen))" by (metis set_append Un_upper1)
  then show ?thesis using assms(2) by (force simp: has_kind_def list_ex_iff provider_event_def)
qed

lemma polled_generic:
  assumes "\<forall>r\<in>set before. \<not> saw_exit r" "complained (before @ [(o1, e1, Exited code)]) = []" "pv_event_type started = CommandStarted"
  shows "\<exists>a ch. poll_loop CommandCompleted (before @ [(o1, e1, Exited code)]) [] (GenericA (generic_spawned config started)) =
      (started # map line_event (lines (utf8_lossy (take (stream_cap config) (printed (before @ [(o1, e1, Exited code)])))))
       @ [provider_event CommandCompleted (''completed with exit code '' @ show_int code)], GenericA a) \<and>
    ga_child a = Some ch \<and> child_exit_code ch = Some code"
proof -
  let ?rounds = "before @ [(o1, e1, Exited code)]"
  let ?s = "\<lambda>k. generic_run (inputs_of (take k ?rounds)) ([], generic_spawned config started)"
  obtain k where k: "k \<le> length ?rounds"
    "poll_loop CommandCompleted ?rounds [] (GenericA (generic_spawned config started)) = (fst (?s k), GenericA (snd (?s k)))"
    "k = length ?rounds \<or> has_kind CommandCompleted (fst (?s k))"
    using poll_loop_runs [where run = generic_run and drain = generic_drain and W = GenericA and rounds = ?rounds
        and feed = "\<lambda>out err a. a\<lparr>ga_child := map_option (arrive out err) (ga_child a)\<rparr>" and wanted = CommandCompleted
        and seen = "[]" and a = "generic_spawned config started", OF generic_round fold_runs(3,4)] by fastforce
  have "k = length ?rounds"
  proof (rule ccontr)
    assume other: "k \<noteq> length ?rounds"
    then have sub: "take k ?rounds = take k before" using k(1) by simp
    have "\<forall>r\<in>set (take k before). \<not> saw_exit r" using assms(1) by (meson in_set_takeD)
    then have "generic_ok (stream_cap config) started (printed (take k before)) (complained (take k before)) (fst (?s k), snd (?s k))"
      using generic_ok_run [OF inputs_of_running, of "take k before" config started] unfolding sub by (simp add: inputs_of_bytes)
    then show False using generic_kinds [OF _ assms(3)] k(3) other by blast
  qed
  let ?run = "inputs_of before @ [OutChunk o1, ErrChunk e1]"
  have split: "inputs_of ?rounds = ?run @ [Drain (Exited code)]" by (simp add: inputs_of_def round_inputs_def)
  have "\<forall>i\<in>set ?run. still_runs i" using inputs_of_running [OF assms(1)] by auto
  moreover have "out_bytes ?run = printed ?rounds" "err_bytes ?run = []"
    using inputs_of_bytes(1,2) [of ?rounds] assms(2) unfolding split by (simp_all add: out_err_append)
  ultimately show ?thesis
    using generic_run_exit [of ?run code config started] k(2) \<open>k = length ?rounds\<close> by (auto simp: split completion_events_def)
qed

lemma generic_green:
  assumes "tells y (''ADAPTER_MARKER'' @ crlf)" "snd (snd (last (cy_rounds y))) = Exited 0"
  shows "\<exists>checks. generic_checks y = Inr checks \<and> list_all snd checks"
proof -
  obtain before o1 e1 where rounds: "cy_rounds y = before @ [(o1, e1, Exited 0)]"
    using assms by (cases "cy_rounds y" rule: rev_cases) (auto simp: tells_def)
  have y: "cy_launch y = (\<lambda>config. Inr (child_new config))" "\<forall>r\<in>set before. \<not> saw_exit r"
    "printed (before @ [(o1, e1, Exited 0)]) = ''ADAPTER_MARKER'' @ crlf" "complained (before @ [(o1, e1, Exited 0)]) = []"
    using assms(1) rounds by (auto simp: tells_def)
  let ?req = "spawn_request_new (cmd ''echo ADAPTER_MARKER'')"
  let ?started = "provider_event CommandStarted (''started: '' @ join_spaces (sq_argv ?req))"
  obtain config where spawn: "generic_spawn (cy_launch y) ?req generic_new = (Inr (), generic_spawned config ?started)"
    "pg_output_cap_bytes config = 1048576"
    by (simp add: generic_spawn_def spawn_request_new_def y(1) generic_spawned_def Let_def)
  have cap: "stream_cap config = 1048576" by (simp add: stream_cap_def clamp_cap_def spawn(2) MAX_PLAIN_OUTPUT_CAP_BYTES_def)
  have "pv_event_type ?started = CommandStarted" by (simp add: provider_event_def)
  from polled_generic [OF y(2,4) this, of config] obtain a ch where run:
    "poll_loop CommandCompleted (cy_rounds y) [] (GenericA (generic_spawned config ?started)) =
      (?started # map line_event (lines (utf8_lossy (''ADAPTER_MARKER'' @ crlf)))
       @ [provider_event CommandCompleted (''completed with exit code '' @ show_int 0)], GenericA a)"
    "ga_child a = Some ch" "child_exit_code ch = Some 0"
    unfolding rounds y(3) by (auto simp: cap crlf_def)
  have "lines (utf8_lossy (''ADAPTER_MARKER'' @ crlf)) = [''ADAPTER_MARKER'']" by code_simp
  then show ?thesis
    using run spawn(1)
    by (simp add: generic_checks_def panic_defs for_provider_def rewrap_def generic_spawn_def [of _ "_\<lparr>sq_interactive := True\<rparr>"]
        generic_respond_approval_def generic_snapshot_def generic_exit_code_def generic_inject_def generic_new_def generic_capabilities_def
        is_unsupported_def has_kind_def provider_event_def Let_def)
qed

section \<open>All adapter checks\<close>

text \<open>Children that do as they are told: the fixtures, and a command whose last poll sees its exit.\<close>

definition tellers :: "child_story \<Rightarrow> (Provider \<Rightarrow> child_story) \<Rightarrow> bool" where
  "tellers generic stories \<longleftrightarrow> tells generic (''ADAPTER_MARKER'' @ crlf) \<and> snd (snd (last (cy_rounds generic))) = Exited 0 \<and>
     list_all (\<lambda>(p, prefix, sess). tells (stories p) (fixture_output prefix sess)) fixtures"

lemma adapters_green:
  assumes "tellers generic stories"
  shows "\<exists>checks. adapter_checks generic stories = Inr checks \<and> list_all snd checks"
proof -
  obtain g where g: "generic_checks generic = Inr g" "list_all snd g"
    using generic_green assms unfolding tellers_def by blast
  have f: "\<exists>checks. fixture_checks (stories p) p prefix sess = Inr checks \<and> list_all snd checks"
    if "(p, prefix, sess) \<in> set fixtures" for p prefix sess
    using that assms by (intro fixture_green) (auto simp: tellers_def list_all_iff)
  obtain o1 o2 o3 where "fixture_checks (stories Opencode) Opencode ''OPENCODE'' ''sess-op'' = Inr o1" "list_all snd o1"
    "fixture_checks (stories Claude) Claude ''CLAUDE'' ''sess-cl'' = Inr o2" "list_all snd o2"
    "fixture_checks (stories Codex) Codex ''CODEX'' ''sess-co'' = Inr o3" "list_all snd o3"
    using f [of Opencode "''OPENCODE''" "''sess-op''"] f [of Claude "''CLAUDE''" "''sess-cl''"] f [of Codex "''CODEX''" "''sess-co''"]
    by (auto simp: fixtures_def)
  with g show ?thesis by (simp add: adapter_checks_def panic_defs)
qed

text \<open>
  The fixture checks race with the pump threads: when the first poll already sees the exit of a child whose
  output has not arrived, the loop ends with the exit as its only event and the runner panics for want of
  an approval event, whatever arrives later.
\<close>

theorem fixture_races_exit:
  assumes "(p, prefix, sess) \<in> set fixtures" "cy_launch y = (\<lambda>config. Inr (child_new config))"
    "cy_rounds y = ([], [], Exited 0) # rounds"
  shows "fixture_checks y p prefix sess = Inl ''approval event''"
proof -
  have "take_lines [] True = ([], [])" by code_simp
  moreover have "parse_lines m [] x = x" for m x by (simp add: parse_lines_def)
  ultimately have d: "marker_drain m (Exited 0) (on_child (arrive [] []) (spawned config)) =
     ([provider_event WorkflowCompleted ''exit 0''], snd (marker_drain m (Exited 0) (on_child (arrive [] []) (spawned config))))" for m config
    by (simp add: marker_drain_def on_child_def arrive_def spawned_def marker_new_def child_new_def sink_new_def push_def child_wait_def
        child_snapshot_def child_exit_code_def consume_def terminal_event_def Let_def)
  obtain W config where w: "for_provider p = Inr (W marker_new)" "stream_cap config = 1048576"
    "\<forall>os a. adapter_drain os (W a) = rewrap W (marker_drain (prefix @ ''_'') os a)"
    "\<forall>out err a. adapter_arrive out err (W a) = W (on_child (arrive out err) a)"
    "\<forall>os a. adapter_snapshot os (W a) = rewrap W (marker_snapshot os a)"
    "\<forall>rid d a. adapter_respond_approval rid d (W a) = rewrap W (marker_respond_approval rid d a)"
    "adapter_spawn (cy_launch y) (cy_after y) (spawn_request_new (cmd (fixture_script prefix sess))) (W marker_new) =
      (Inr (), W (spawned config))"
    by (rule fixture_adapter [OF assms(1,2)])
  have "poll_loop WorkflowCompleted (cy_rounds y) [] (W (spawned config)) =
      ([provider_event WorkflowCompleted ''exit 0''],
       W (snd (marker_drain (prefix @ ''_'') (Exited 0) (on_child (arrive [] []) (spawned config)))))"
    by (subst assms(3)) (simp only: poll_loop.simps w(3,4) [rule_format], subst d, simp add: rewrap_def provider_event_def)
  then show ?thesis by (simp add: fixture_checks_def panic_defs w(1,7) provider_event_def)
qed

theorem fixture_races_exit_witness:
  "fixture_checks \<lparr>cy_launch = (\<lambda>config. Inr (child_new config)),
       cy_rounds = [([], [], Exited 0), (fixture_output ''CLAUDE'' ''sess-cl'', [], Exited 0)], cy_after = Exited 0\<rparr>
     Claude ''CLAUDE'' ''sess-cl'' = Inl ''approval event''"
  by (rule fixture_races_exit) (simp_all add: fixtures_def)

section \<open>The checks of the plain executor\<close>

text \<open>A child that starts, prints \<open>out\<close> and \<open>err\<close> in any pieces and exits with \<open>code\<close>.\<close>

definition prints :: "run_answer \<Rightarrow> string \<Rightarrow> string \<Rightarrow> int \<Rightarrow> bool" where
  "prints os out err code \<longleftrightarrow> ra_launch os = (\<lambda>config. Inr (child_new config)) \<and> concat (ra_stdout os) = out \<and>
     concat (ra_stderr os) = err \<and> ra_wait os (wait_millis None) = Exited code"

lemma run_child_prints:
  assumes "prints os out err code" "pg_argv config \<noteq> []"
  shows "run_child name os config = Inr \<lparr>po_stdout = take (stream_cap config) out, po_stderr = take (stream_cap config) err,
    po_exit_code = Some code, po_truncated = (stream_cap config < length out \<or> stream_cap config < length err)\<rparr>"
  using assms
  by (auto simp: run_child_def prints_def panic_defs spawn_child_def command_line_def child_join_def child_wait_def child_new_def
      child_snapshot_def child_truncated_def stream_cap_def pump_streams Let_def)

definition output_tellers :: "output_children \<Rightarrow> bool" where
  "output_tellers oc \<longleftrightarrow> prints (oc_echo oc) (''HELLO'' @ crlf) [] 0 \<and>
     (\<exists>code. prints (oc_split oc) (''OUT'' @ crlf) (''ERR '' @ crlf) code) \<and> prints (oc_exit42 oc) [] [] 42 \<and>
     (\<exists>err code. prints (oc_more oc) (''LINE1'' @ crlf @ ''LINE2'' @ crlf) err code) \<and>
     (\<exists>out err code. prints (oc_cap oc) out err code \<and> 4096 < length out)"

lemma outputs_green:
  assumes "output_tellers oc"
  shows "\<exists>checks. output_checks oc = Inr checks \<and> list_all snd checks"
proof -
  obtain c1 e2 c2 o3 e3 c3 where t: "prints (oc_echo oc) (''HELLO'' @ crlf) [] 0" "prints (oc_split oc) (''OUT'' @ crlf) (''ERR '' @ crlf) c1"
    "prints (oc_exit42 oc) [] [] 42" "prints (oc_more oc) (''LINE1'' @ crlf @ ''LINE2'' @ crlf) e2 c2" "prints (oc_cap oc) o3 e3 c3" "4096 < length o3"
    using assms unfolding output_tellers_def by blast
  have found: "contains ''HELLO'' (utf8_lossy (''HELLO'' @ crlf))" "contains ''OUT'' (utf8_lossy (''OUT'' @ crlf))"
    "contains ''ERR'' (utf8_lossy (''ERR '' @ crlf))" "contains ''LINE1'' (utf8_lossy (''LINE1'' @ crlf @ ''LINE2'' @ crlf))"
    "contains ''LINE2'' (utf8_lossy (''LINE1'' @ crlf @ ''LINE2'' @ crlf))" by code_simp+
  have cap: "stream_cap (e2e_plain c) = 1048576" "stream_cap (plain_config_new c) = 1048576" "stream_cap (with_input (plain_config_new c) i) = 1048576"
    "stream_cap ((e2e_plain c)\<lparr>pg_output_cap_bytes := 4096\<rparr>) = 4096" for c i
    by (simp_all add: stream_cap_def clamp_cap_def e2e_plain_def with_input_def plain_config_new_def DEFAULT_PLAIN_OUTPUT_CAP_BYTES_def
        MAX_PLAIN_OUTPUT_CAP_BYTES_def)
  have argv: "pg_argv (e2e_plain (cmd b)) \<noteq> []" "pg_argv (with_input (plain_config_new (cmd b)) i) \<noteq> []"
    "pg_argv ((e2e_plain (cmd b))\<lparr>pg_output_cap_bytes := n\<rparr>) \<noteq> []" for b i n
    by (simp_all add: e2e_plain_def with_input_def plain_config_new_def cmd_def)
  have short: "take 1048576 (''HELLO'' @ crlf) = ''HELLO'' @ crlf" "take 1048576 (''OUT'' @ crlf) = ''OUT'' @ crlf"
    "take 1048576 (''ERR '' @ crlf) = ''ERR '' @ crlf" "take 1048576 (''LINE1'' @ crlf @ ''LINE2'' @ crlf) = ''LINE1'' @ crlf @ ''LINE2'' @ crlf"
    by (simp_all add: crlf_def)
  show ?thesis
    unfolding output_checks_def run_child_prints [OF t(1) argv(1)] run_child_prints [OF t(2) argv(1)] run_child_prints [OF t(3) argv(1)]
      run_child_prints [OF t(4) argv(2)] run_child_prints [OF t(5) argv(3)] cap short
    using found t(6) by (simp add: and_then_def del: append_Cons append.simps)
qed

text \<open>
  Children that are killed as the runner expects: the job ends the whole tree and a deadline passes; what
  \<open>tasklist\<close> prints shows a process as long as it lives.
\<close>

definition killed_tellers :: "killed_children \<Rightarrow> bool" where
  "killed_tellers kc \<longleftrightarrow>
     ra_launch (kc_tree kc) = (\<lambda>config. Inr (child_new config)) \<and> (\<exists>code. ra_wait (kc_tree kc) 10000 = Exited code) \<and>
     (\<exists>pid \<le> nat u32_max. concat (ra_stdout (kc_tree kc)) = ''GRANDCHILD='' @ show_nat pid @ crlf \<and>
       tasklist_has (kc_alive kc) pid \<and> \<not> tasklist_has (kc_dead kc) pid) \<and>
     (\<exists>out err code. prints (kc_sleeper kc) out err code) \<and> ra_wait (kc_sleeper kc) 200 = Timeout \<and>
     (\<exists>pid. kc_dropped kc = (\<lambda>config. Inr pid) \<and> \<not> tasklist_has (kc_gone kc) pid)"

lemma digit_chars:
  assumes "is_digit c"
  shows "byte c < 128" "\<not> ws1 (byte c)" "c \<noteq> newline" "c \<noteq> CHR ''+''"
  using assms by (auto simp: is_digit_def digit_val_def byte_def ws1_def newline_def Let_def split: if_splits)

lemma trim_word:
  assumes "\<forall>c\<in>set s. byte c < 128 \<and> \<not> ws1 (byte c)"
  shows "trim s = s"
proof -
  have "ws_len s = 0" using assms ws_len_0 by (cases s) auto
  moreover have "ws_len_rev (rev s) = 0"
  proof (cases "rev s")
    case (Cons c cs)
    then have "byte c < 128" "\<not> ws1 (byte c)" using assms by (metis list.set_intros(1) set_rev)+
    then show ?thesis unfolding Cons by (cases "c # cs" rule: ws_len_rev.cases) (auto simp: ws2_def ws3_def)
  qed simp
  ultimately show ?thesis by (simp add: trim_def trim_end_def trim_start_id trim_rev.simps)
qed

lemma show_nat_short: "n < 10 ^ Suc k \<Longrightarrow> length (show_nat n) \<le> Suc k"
proof (induction k arbitrary: n)
  case 0
  then show ?case by (simp add: show_nat.simps [of n])
next
  case (Suc k)
  then have "n div 10 < 10 ^ Suc k" by simp
  from Suc.IH [OF this] show ?case by (simp add: show_nat.simps [of n])
qed

lemma grandchild_named:
  assumes "pid \<le> nat u32_max" "po_stdout snap = ''GRANDCHILD='' @ show_nat pid @ crlf"
  shows "grandchild_of snap = Some pid"
proof -
  let ?g = "''GRANDCHILD='' @ show_nat pid"
  note digits = digit_chars [OF show_nat_digits]
  have chars: "\<forall>c\<in>set ?g. byte c < 128 \<and> \<not> ws1 (byte c) \<and> c \<noteq> newline"
  proof -
    have "\<forall>c\<in>set ''GRANDCHILD=''. byte c < 128 \<and> \<not> ws1 (byte c) \<and> c \<noteq> newline" by code_simp
    moreover have "\<forall>c\<in>set (show_nat pid). byte c < 128 \<and> \<not> ws1 (byte c) \<and> c \<noteq> newline" using digits(1-3) by blast
    ultimately show ?thesis unfolding set_append ball_Un by blast
  qed
  have "valid_utf8 (?g @ crlf)" using chars by (intro valid_utf8_ascii) (auto simp: crlf_def byte_def carriage_def newline_def)
  then have "utf8_lossy (?g @ crlf) = (?g @ [carriage]) @ newline # []" by (simp add: utf8_lossy_valid crlf_def)
  moreover have "newline \<notin> set (?g @ [carriage])" using chars by (auto simp: carriage_def newline_def)
  ultimately have "lines (utf8_lossy (?g @ crlf)) = [?g]"
    using split_line [of "?g @ [carriage]" "[]"] by (simp add: lines_def full_lines_def fragment_def strip_cr_def)
  moreover have "trim ?g = ?g" "trim (show_nat pid) = show_nat pid" using chars by (intro trim_word; simp)+
  moreover have "show_nat pid \<noteq> []" by (simp add: show_nat.simps [of pid])
  then have "parse_unsigned (nat u32_max) (show_nat pid) = Some pid"
    using digits(4) [of "hd (show_nat pid)" pid] digits_val_show_nat [of pid] assms(1)
    by (cases "show_nat pid") (auto simp: parse_unsigned_def)
  ultimately show ?thesis using assms(2) by (simp add: grandchild_of_def map_filter_simps strip_prefix_def)
qed

lemma kills_green:
  assumes "killed_tellers kc"
  shows "\<exists>tree kills. tree_checks kc = Inr tree \<and> kill_checks kc = Inr kills \<and> list_all snd (tree @ kills)"
proof -
  obtain code pid where t: "ra_launch (kc_tree kc) = (\<lambda>config. Inr (child_new config))" "ra_wait (kc_tree kc) 10000 = Exited code"
    "pid \<le> nat u32_max" "concat (ra_stdout (kc_tree kc)) = ''GRANDCHILD='' @ show_nat pid @ crlf"
    "tasklist_has (kc_alive kc) pid" "\<not> tasklist_has (kc_dead kc) pid"
    using assms unfolding killed_tellers_def by blast
  obtain out err c2 pid2 where k: "ra_launch (kc_sleeper kc) = (\<lambda>config. Inr (child_new config))" "ra_wait (kc_sleeper kc) (wait_millis None) = Exited c2"
    "ra_wait (kc_sleeper kc) 200 = Timeout" "kc_dropped kc = (\<lambda>config. Inr pid2)" "\<not> tasklist_has (kc_gone kc) pid2"
    using assms unfolding killed_tellers_def prints_def by blast
  have millis: "wait_millis (Some 10000) = 10000" "wait_millis (Some 200) = 200" by (simp_all add: wait_millis_def u32_max_def)
  have "length (show_nat pid) \<le> Suc 9" using t(3) by (intro show_nat_short) (simp add: u32_max_def)
  then have fits: "take 1048576 (''GRANDCHILD='' @ show_nat pid @ crlf) = ''GRANDCHILD='' @ show_nat pid @ crlf"
    by (intro take_all) (simp add: crlf_def)
  let ?child = "arrive (concat (ra_stdout (kc_tree kc))) (concat (ra_stderr (kc_tree kc)))
     (child_new (e2e_plain [''powershell.exe'', ''-NoProfile'', ''-NonInteractive'', ''-Command'', tree_script]))"
  have cap: "clamp_cap (pg_output_cap_bytes (e2e_plain c)) = 1048576" for c
    by (simp add: clamp_cap_def e2e_plain_def plain_config_new_def DEFAULT_PLAIN_OUTPUT_CAP_BYTES_def MAX_PLAIN_OUTPUT_CAP_BYTES_def)
  have "po_stdout (child_snapshot ?child) = ''GRANDCHILD='' @ show_nat pid @ crlf"
    using fits pump_streams(1) [of 1048576 "[''GRANDCHILD='' @ show_nat pid @ crlf]"]
    by (simp add: arrive_def child_snapshot_def child_new_def cap t(4) Let_def del: append_Cons append.simps)
  from grandchild_named [OF t(3) this] have "grandchild_of (child_snapshot ?child) = Some pid" .
  moreover have "\<not> ch_exited ?child" by (simp add: arrive_def child_new_def Let_def)
  moreover have argv: "command_line (pg_argv (e2e_plain (c # cs))) = Inr (join_spaces (map quote_arg (c # cs)))" for c cs
    by (simp add: command_line_def e2e_plain_def plain_config_new_def)
  ultimately have "tree_checks kc = Inr [(''plain-tree-grandchild-alive'', True), (''plain-tree-child-reaped'', True), (''plain-tree-grandchild-dead'', True)]"
    using t by (simp add: tree_checks_def panic_defs spawn_child_def millis child_wait_def Let_def)
  moreover have "kill_checks kc = Inr [(''plain-deadline'', True), (''plain-kill-join'', True), (''plain-empty-argv'', True), (''plain-drop-kills-tree'', True)]"
    using k by (simp add: kill_checks_def panic_defs spawn_child_def millis child_wait_def child_new_def child_join_def child_snapshot_def
        argv ping_def command_line_def e2e_plain_def plain_config_new_def Let_def)
  ultimately show ?thesis by simp
qed

lemma plain_green:
  assumes "output_tellers oc" "killed_tellers kc"
  shows "\<exists>checks. plain_checks oc kc = Inr checks \<and> list_all snd checks"
  using outputs_green [OF assms(1)] kills_green [OF assms(2)] by (auto simp: plain_checks_def panic_defs)

end
