(* ===== verification/E2E.thy ===== *)
theory E2E
  imports Doctor E2E_Children_Props
begin

text \<open>
  calcar-agent/examples/e2e_exec.rs: the checks of the end-to-end runner over the store, the lifecycle, the
  sessions, the router and the permission manager, and the exit code of the whole runner. These checks
  are a program over the database; a panic of \<open>expect\<close> is \<open>Inl\<close> with its message. The detail that a
  failed check prints is left out.
\<close>

section \<open>The runner\<close>

type_synonym 'a e2e = "(database, string, 'a) io"

definition expect :: "string \<Rightarrow> (database, 'e, 'a) io \<Rightarrow> 'a e2e" where
  "expect message m = map_err (\<lambda>_. message) m"

definition expect_some :: "string \<Rightarrow> 'a option \<Rightarrow> 'a e2e" where
  "expect_some message found = (case found of None \<Rightarrow> fail message | Some x \<Rightarrow> ret x)"

text \<open>\<open>is_err\<close> of a call.\<close>

definition refuses :: "(database, 'e, 'a) io \<Rightarrow> bool e2e" where
  "refuses m = attempt m (\<lambda>r. ret (case r of Inl _ \<Rightarrow> True | Inr _ \<Rightarrow> False))"

text \<open>\<open>{:?}\<close> of a list of events is an argument.\<close>

definition flow_checks :: "(WorkflowEvent list \<Rightarrow> string) \<Rightarrow> (string \<times> bool) list e2e" where
  "flow_checks debug =
     andthen (expect ''in-memory manager'' (andthen (store open_in_memory) (\<lambda>_. manager_new))) (\<lambda>_.
     andthen (expect ''create'' (manager_create_workflow ''wf1'' Generic ''title'' (Some ''sess-1''))) (\<lambda>row.
     andthen (refuses (manager_create_workflow ''wf1'' Generic ''t'' None)) (\<lambda>duplicate.
     andthen (refuses (manager_create_workflow [] Generic ''t'' None)) (\<lambda>empty_id.
     andthen (refuses (manager_create_workflow ''wfx'' Provider.Unspecified ''t'' None)) (\<lambda>unspecified.
     andthen (expect ''to approval'' (transition ''wf1'' WaitingApproval ''need owner tap'')) (\<lambda>_.
     andthen (expect ''events'' (events_since ''wf1'' 0 100)) (\<lambda>events.
     andthen (refuses (transition ''wf1'' DisconnectedRunning ''x'')) (\<lambda>projected.
     andthen (refuses (transition ''wf1'' WorkflowState.Unspecified ''x'')) (\<lambda>no_state.
     andthen (refuses (transition_on_disconnect ''wf1'' Completed ''x'')) (\<lambda>completed.
     andthen (expect ''project'' (project_on_disconnect ''wf1'')) (\<lambda>view.
     andthen (expect ''get'' (manager_get_workflow ''wf1'')) (\<lambda>found.
     andthen (expect_some ''row'' found) (\<lambda>stored.
     andthen (expect ''complete'' (transition ''wf1'' Completed ''done'')) (\<lambda>_.
     andthen (refuses (transition ''wf1'' Running ''x'')) (\<lambda>frozen.
     ret [(''flow-create-running'', WorkflowState_from_i32 (wr_state row) = Some Running),
          (''flow-duplicate'', duplicate), (''flow-empty-id'', empty_id), (''flow-unspecified-provider'', unspecified),
          (''flow-reason-events'', 2 \<le> length events \<and> contains ''need owner tap'' (debug events)),
          (''flow-refuse-projection-target'', projected), (''flow-refuse-unspecified'', no_state),
          (''flow-refuse-completed-on-disconnect'', completed),
          (''flow-projection'', wv_projected view = DisconnectedRunning \<and> WorkflowState_from_i32 (wr_state stored) = Some WaitingApproval),
          (''flow-terminal-frozen'', frozen)])))))))))))))))"

definition recovery_setup :: "'f libs \<Rightarrow> unit e2e" where
  "recovery_setup L =
     andthen (expect ''open file'' (open_manager L)) (\<lambda>_.
     andthen (expect ''create r'' (manager_create_workflow ''wf-r'' Generic ''restart me'' (Some ''ps-1''))) (\<lambda>_.
     andthen (expect ''to input'' (transition ''wf-r'' WaitingInput ''waiting'')) (\<lambda>_.
     andthen (expect ''create nobind'' (manager_create_workflow ''wf-nobind'' Generic ''no bind'' None)) (\<lambda>_.
     andthen (expect ''create done'' (manager_create_workflow ''wf-done'' Generic ''done'' None)) (\<lambda>_.
     andthen (expect ''complete done'' (transition ''wf-done'' Completed ''done'')) (\<lambda>_.
     ret ()))))))"

definition newest_seq :: "WorkflowEvent list \<Rightarrow> int option" where
  "newest_seq events = (case map we_seq_no events of [] \<Rightarrow> None | s # ss \<Rightarrow> Some (foldl max s ss))"

definition recovery_checks :: "'f libs \<Rightarrow> checks e2e" where
  "recovery_checks L =
     andthen (expect ''reopen'' (open_manager L)) (\<lambda>_.
     andthen (expect ''reconcile r'' (reconcile ''wf-r'')) (\<lambda>first.
     andthen (case first of
         Reattach session pointer replayed last_seq \<Rightarrow>
           andthen (expect ''events r'' (events_since ''wf-r'' 0 1000)) (\<lambda>events.
           ret (session = ''ps-1'' \<and> last_seq = newest_seq events))
       | _ \<Rightarrow> ret False) (\<lambda>reattach.
     andthen (expect ''reconcile nobind'' (reconcile ''wf-nobind'')) (\<lambda>second.
     andthen (case second of
         CleanFailed reason \<Rightarrow>
           andthen (expect ''get'' (manager_get_workflow ''wf-nobind'')) (\<lambda>found.
           andthen (expect_some ''row'' found) (\<lambda>row.
           ret (WorkflowState_from_i32 (wr_state row) = Some Failed)))
       | _ \<Rightarrow> ret False) (\<lambda>clean_failed.
     andthen (expect ''reconcile done'' (reconcile ''wf-done'')) (\<lambda>third.
     andthen (refuses (reconcile ''nope'')) (\<lambda>unknown.
     ret [(''recover-reattach'', reattach), (''recover-cleanfailed'', clean_failed),
          (''recover-terminal'', case third of AlreadyTerminal state \<Rightarrow> True | _ \<Rightarrow> False),
          (''recover-unknown'', unknown)])))))))"

definition session_checks :: "'f libs \<Rightarrow> checks e2e" where
  "session_checks L =
     andthen (expect ''open store'' (storage_open L)) (\<lambda>_.
     andthen (expect ''bind'' (bind ''wf-r'' ''ps-1'' (Some ''resume-9''))) (\<lambda>_.
     andthen (expect ''lookup'' (lookup ''wf-r'')) (\<lambda>found.
     andthen (expect_some ''binding'' found) (\<lambda>got.
     andthen (expect ''lookup unknown'' (lookup ''nope'')) (\<lambda>phantom.
     andthen (expect ''reopen store'' (storage_open L)) (\<lambda>_.
     andthen (expect ''lookup2'' (lookup ''wf-r'')) (\<lambda>again.
     ret [(''session-roundtrip'', sn_provider_session_id got = ''ps-1'' \<and> sn_resume_pointer got = Some ''resume-9''),
          (''session-unknown-none'', phantom = None),
          (''session-restart'', map_option sn_provider_session_id again = Some ''ps-1'')])))))))"

definition router_checks :: "checks e2e" where
  "router_checks =
     andthen (expect ''deliver'' (deliver router_new ''wf-r'' ''in-1'')) (\<lambda>(first, r1).
     andthen (expect ''redeliver'' (deliver r1 ''wf-r'' ''in-1'')) (\<lambda>(second, r2).
     andthen (expect ''cross'' (deliver r2 ''wf-nobind'' ''in-1'')) (\<lambda>(cross, r3).
     andthen (refuses (deliver r3 ''nope'' ''in-9'')) (\<lambda>unknown.
     let (forgot, r4) = forget_workflow r3 ''wf-r'' in
     andthen (expect ''after forget'' (deliver r4 ''wf-r'' ''in-1'')) (\<lambda>(still, r5).
     ret [(''router-first'', first = Delivered), (''router-duplicate'', second = RouteOutcome.Duplicate),
          (''router-counts'', delivered_for r2 ''wf-r'' = 1 \<and> duplicates_for r2 ''wf-r'' = 1),
          (''router-cross-workflow'', cross = Delivered), (''router-unknown'', unknown), (''router-forget'', forgot = (1, 1)),
          (''router-still-duplicate'', still = RouteOutcome.Duplicate)])))))"

definition permission_checks :: "checks e2e" where
  "permission_checks =
     andthen (expect ''approval request'' (permission_request permission_new ''wf-r'' ''ap-1'' ''dev-a'' ''run tests'' 60000)) (\<lambda>p1.
     andthen (expect ''resolve'' (permission_resolve p1 ''ap-1'' ''dev-a'' Allow)) (\<lambda>(first, p2).
     andthen (expect ''reresolve'' (permission_resolve p2 ''ap-1'' ''dev-a'' Allow)) (\<lambda>(second, p3).
     andthen (expect ''expiring request'' (permission_request p3 ''wf-r'' ''ap-exp'' ''dev-a'' ''old'' 0)) (\<lambda>p4.
     andthen (expect ''sweep'' sweep_expired) (\<lambda>_.
     andthen (expect ''resolve expired'' (permission_resolve p4 ''ap-exp'' ''dev-a'' Allow)) (\<lambda>(late, p5).
     andthen (expect ''guarded request'' (permission_request p5 ''wf-r'' ''ap-dev'' ''dev-a'' ''guarded'' 60000)) (\<lambda>p6.
     andthen (expect ''wrong device'' (permission_resolve p6 ''ap-dev'' ''dev-b'' Allow)) (\<lambda>(stranger, p7).
     andthen (expect ''bound resolve'' (permission_resolve p7 ''ap-dev'' ''dev-a'' Reject)) (\<lambda>(owner, p8).
     ret [(''perm-apply'', first = Applied), (''perm-double-accept'', second = ApprovalOutcome.Duplicate),
          (''perm-expired'', late = ApprovalOutcome.Expired), (''perm-wrong-device'', stranger = Unknown),
          (''perm-bound-device'', owner = Applied)])))))))))"

definition file_checks :: "'f libs \<Rightarrow> checks e2e" where
  "file_checks L =
     andthen (recovery_setup L) (\<lambda>_.
     andthen (recovery_checks L) (\<lambda>recovery.
     andthen (session_checks L) (\<lambda>sessions.
     andthen router_checks (\<lambda>router.
     andthen permission_checks (\<lambda>permissions.
     ret (recovery @ sessions @ router @ permissions))))))"

text \<open>The exit code: 0 when every check passed, 1 when one failed, 101 for a panic.\<close>

definition e2e_exit ::
  "(WorkflowEvent list \<Rightarrow> string) \<Rightarrow> 'f libs \<Rightarrow> output_children \<Rightarrow> killed_children \<Rightarrow> child_story \<Rightarrow> (Provider \<Rightarrow> child_story) \<Rightarrow>
   database world \<Rightarrow> database world \<Rightarrow> nat" where
  "e2e_exit debug L oc kc generic stories memory file =
     (case (plain_checks oc kc, fst (flow_checks debug memory), fst (file_checks L file), adapter_checks generic stories) of
       (Inr plain, Inr flow, Inr rest, Inr adapters) \<Rightarrow> if list_all snd (plain @ flow @ rest @ adapters) then 0 else 1
     | _ \<Rightarrow> 101)"

section \<open>Running it\<close>

text \<open>
  A clock that never runs backwards, shows some time between 2001 and 2286 and passes less than a minute.
\<close>

definition steady_clock :: "'d world \<Rightarrow> bool" where
  "steady_clock w \<longleftrightarrow> (\<forall>n. 1000000000000 \<le> clock_at w n \<and> clock_at w n < 10000000000000) \<and>
     (\<forall>m n. m \<le> n \<longrightarrow> clock_at w m \<le> clock_at w n \<and> clock_at w n < clock_at w m + 60000)"

lemma show_nat_length: "10 ^ k \<le> n \<Longrightarrow> n < 10 ^ Suc k \<Longrightarrow> length (show_nat n) = Suc k"
proof (induction n arbitrary: k rule: show_nat.induct)
  case (1 n)
  show ?case
  proof (cases "n < 10")
    case True
    have "k = 0"
    proof (rule ccontr)
      assume "k \<noteq> 0"
      then have "(10::nat) ^ 1 \<le> 10 ^ k" by (intro power_increasing) auto
      then show False using True 1(2) by simp
    qed
    then show ?thesis using True by (simp add: show_nat.simps [of n])
  next
    case False
    then obtain j where k: "k = Suc j" using 1(2,3) by (cases k) auto
    then have "length (show_nat (n div 10)) = Suc j" using 1(1) [OF False, of j] 1(2,3) by auto
    then show ?thesis using False k by (simp add: show_nat.simps [of n])
  qed
qed

lemma clock_facts:
  assumes "steady_clock w"
  shows "(clock_at w n < 0) = False" "as_i64 (clock_at w n) = clock_at w n" "length (show_int (clock_at w n)) = 13"
proof -
  have c: "1000000000000 \<le> clock_at w n" "clock_at w n < 10000000000000" using assms by (simp_all add: steady_clock_def)
  then show "(clock_at w n < 0) = False" by simp
  show "as_i64 (clock_at w n) = clock_at w n" using c by (simp add: as_i64_def)
  have "10 ^ 12 \<le> nat (clock_at w n)" "nat (clock_at w n) < 10 ^ Suc 12" using c by simp_all
  then have "length (show_nat (nat (clock_at w n))) = Suc 12" by (rule show_nat_length)
  then show "length (show_int (clock_at w n)) = 13" using c by (simp add: show_int_def)
qed

lemma small_ints: "show_int 1 = ''1''" "show_int 3 = ''3''" "show_int 4 = ''4''" "show_int 2 = ''2''" "show_int 5 = ''5''"
  by code_simp+

lemma clock_order:
  assumes "steady_clock w"
  shows "m \<le> n \<Longrightarrow> clock_at w m \<le> clock_at w n" "m \<le> n \<Longrightarrow> (clock_at w m + 60000 \<le> clock_at w n) = False"
    "saturating_add_i64 (clock_at w n) 60000 = clock_at w n + 60000" "saturating_add_i64 (clock_at w n) 0 = clock_at w n"
proof -
  have c: "1000000000000 \<le> clock_at w n" "clock_at w n < 10000000000000" using assms by (simp_all add: steady_clock_def)
  then show "saturating_add_i64 (clock_at w n) 60000 = clock_at w n + 60000" "saturating_add_i64 (clock_at w n) 0 = clock_at w n"
    by (simp_all add: saturating_add_i64_def width_defs)
  show "m \<le> n \<Longrightarrow> clock_at w m \<le> clock_at w n" "m \<le> n \<Longrightarrow> (clock_at w m + 60000 \<le> clock_at w n) = False"
    using assms unfolding steady_clock_def by fastforce+
qed

lemmas engine_defs = expect_def expect_some_def refuses_def store_def open_in_memory_def open_step_def manager_new_def migrate_def create_migrations_log_def
  applied_names_def MIGRATIONS_def run_migration_sql_def log_migration_def fresh_db_def init_sql_def Let_def
  create_workflow_def stmt_def query_def insert_workflow_def find_workflow_def get_workflow_def
  upsert_session_binding_def upsert_binding_def find_binding_def get_session_binding_def
  append_event_def append_body_def max_seq_def insert_event_def draft_row_def insert_outbox_def trim_ring_def ring_count_def ring_bytes_def
  outbox_of_def events_of_def MAX_RING_EVENTS_def MAX_RING_BYTES_def draft_event_def find_truncation_def approx_bytes_def opt_len_def
  set_workflow_state_def update_workflow_state_def events_after_def TERMINAL_STATES_def is_persistable_def

lemmas manager_defs = manager_create_workflow_def lifecycle_record_def lifecycle_event_type_def lifecycle_draft_def
  transition_def transition_on_disconnect_def check_storable_def check_reason_def
  events_since_def project_on_disconnect_def stored_state_def manager_get_workflow_def reconcile_def recover_live_def reattach_or_fail_def
  must_never_persist_def open_manager_def storage_open_def bind_def lookup_def WorkflowState_from_i32_def

text \<open>Debug output shows a summary that needs no escapes.\<close>

definition debug_shows :: "(WorkflowEvent list \<Rightarrow> string) \<Rightarrow> bool" where
  "debug_shows debug \<longleftrightarrow> (\<forall>events. (\<exists>e\<in>set events. we_summary e = ''need owner tap'') \<longrightarrow> contains ''need owner tap'' (debug events))"

lemma debug_showsD: "debug_shows debug \<Longrightarrow> \<exists>e\<in>set events. we_summary e = ''need owner tap'' \<Longrightarrow> contains ''need owner tap'' (debug events)"
  by (simp add: debug_shows_def)

lemma flow_green:
  assumes "quiet w" "db w = fresh_db" "steady_clock w" "debug_shows debug"
  shows "\<exists>checks. fst (flow_checks debug w) = Inr checks \<and> list_all snd checks"
  using assms(1,2)
  by (simp add: flow_checks_def io_simps engine_defs manager_defs clock_facts [OF assms(3)] small_ints quiet_not_fault [OF assms(1)]
      map_event_def debug_showsD [OF assms(4)])


lemmas request_defs = router_new_def deliver_def redeliver_def storage_key_def bump_def count_for_def delivered_for_def duplicates_for_def
  forget_workflow_def create_pending_request_def insert_request_def find_request_def resolve_pending_request_def expire_one_def
  resolve_one_def overdue_def expire_all_def expire_pending_requests_def permission_new_def permission_request_def permission_resolve_def
  namespaced_key_def tracked_key_def mark_resolved_def verdict_payload_def apply_verdict_def sweep_expired_def

text \<open>What the router and the permission checks need of the file.\<close>

definition ready_for_requests :: "database \<Rightarrow> bool" where
  "ready_for_requests d \<longleftrightarrow> schema d \<and> t_requests d = [] \<and> find_workflow d ''wf-r'' \<noteq> None \<and> find_workflow d ''wf-nobind'' \<noteq> None \<and>
     find_workflow d ''nope'' = None"

lemma steady_clock_updates [simp]:
  "steady_clock (w\<lparr>db := d\<rparr>) = steady_clock w" "steady_clock (w\<lparr>stmt_no := n\<rparr>) = steady_clock w"
  "steady_clock (w\<lparr>clock_no := n\<rparr>) = steady_clock w"
  by (simp_all add: steady_clock_def)

lemma find_workflow_requests [simp]: "find_workflow (d\<lparr>t_requests := rs\<rparr>) wid = find_workflow d wid"
  by (simp add: find_workflow_def)

lemma router_green:
  assumes "quiet w" "steady_clock w" "ready_for_requests (db w)"
  shows "\<exists>r p w1 w2. router_checks w = (Inr r, w1) \<and> permission_checks w1 = (Inr p, w2) \<and> list_all snd (r @ p)"
proof -
  obtain d where d: "db w = d" "schema d" "t_requests d = []" "find_workflow d ''nope'' = None"
    "\<exists>a. find_workflow d ''wf-r'' = Some a" "\<exists>a. find_workflow d ''wf-nobind'' = Some a"
    using assms(3) by (auto simp: ready_for_requests_def)
  then obtain a b where ab: "find_workflow d ''wf-r'' = Some a" "find_workflow d ''wf-nobind'' = Some b" by blast
  note defs = io_simps request_defs expect_def refuses_def get_workflow_def query_def stmt_def Let_def
    clock_facts [OF assms(2)] clock_order [OF assms(2)] quiet_not_fault [OF assms(1)] i64_max_def assms(1) d(1-4) ab
  show ?thesis by (simp add: router_checks_def permission_checks_def defs)
qed

definition recovers :: "'f libs \<Rightarrow> database world \<Rightarrow> bool" where
  "recovers L w \<longleftrightarrow> (\<exists>r s w1 w2 w3. recovery_setup L w = (Inr (), w1) \<and> recovery_checks L w1 = (Inr r, w2) \<and>
    session_checks L w2 = (Inr s, w3) \<and> list_all snd (r @ s) \<and> quiet w3 \<and> steady_clock w3 \<and> ready_for_requests (db w3))"

lemmas recovery_defs = recovers_def recovery_setup_def recovery_checks_def session_checks_def u32_max_def map_event_def newest_seq_def
  recovery_reason_def as_u64_def ready_for_requests_def

lemma recovery_green_no_dir:
  assumes "quiet w" "db w = fresh_db" "steady_clock w" "lib_dir_error L = None"
  shows "recovers L w"
  using assms
  by (simp add: recovery_defs io_simps engine_defs manager_defs clock_facts [OF assms(3)] small_ints quiet_not_fault [OF assms(1)])

lemma recovery_green_dir:
  assumes "quiet w" "db w = fresh_db" "steady_clock w" "lib_dir_error L = Some e"
  shows "recovers L w"
  using assms
  by (simp add: recovery_defs io_simps engine_defs manager_defs clock_facts [OF assms(3)] small_ints quiet_not_fault [OF assms(1)])

lemma recovery_green: "quiet w \<Longrightarrow> db w = fresh_db \<Longrightarrow> steady_clock w \<Longrightarrow> recovers L w"
  using recovery_green_no_dir recovery_green_dir by (cases "lib_dir_error L") blast+


text \<open>Children for an example: the fixtures arrive in two pieces, the second with the exit.\<close>

definition sample_output :: "string \<Rightarrow> string \<Rightarrow> int \<Rightarrow> run_answer" where
  "sample_output out err code = \<lparr>ra_launch = (\<lambda>config. Inr (child_new config)),
     ra_wait = (\<lambda>ms. if ms = 200 then Timeout else Exited code), ra_stdout = [out], ra_stderr = [err]\<rparr>"

definition sample_outputs :: output_children where
  "sample_outputs = \<lparr>oc_echo = sample_output (''HELLO'' @ crlf) [] 0, oc_split = sample_output (''OUT'' @ crlf) (''ERR '' @ crlf) 0,
     oc_exit42 = sample_output [] [] 42, oc_more = sample_output (''LINE1'' @ crlf @ ''LINE2'' @ crlf) [] 0,
     oc_cap = sample_output (replicate 4097 (CHR ''x'')) [] 0\<rparr>"

definition sample_kills :: killed_children where
  "sample_kills = \<lparr>kc_tree = sample_output (''GRANDCHILD='' @ show_nat 7 @ crlf) [] 1, kc_alive = dquote # ''7'' @ [dquote], kc_dead = [],
     kc_sleeper = sample_output [] [] 1, kc_dropped = (\<lambda>config. Inr 7), kc_gone = []\<rparr>"

definition sample_story :: "string \<Rightarrow> child_story" where
  "sample_story out = \<lparr>cy_launch = (\<lambda>config. Inr (child_new config)),
     cy_rounds = [(take 9 out, [], Timeout), (drop 9 out, [], Exited 0)], cy_after = Exited 0\<rparr>"

definition sample_stories :: "Provider \<Rightarrow> child_story" where
  "sample_stories p = sample_story (case map_of fixtures p of None \<Rightarrow> [] | Some (prefix, sess) \<Rightarrow> fixture_output prefix sess)"

lemma sample_tells: "tells (sample_story out) out"
  by (simp add: tells_def sample_story_def saw_exit_def printed_def complained_def)

lemma sample_tellers:
  "output_tellers sample_outputs" "killed_tellers sample_kills" "tellers (sample_story (''ADAPTER_MARKER'' @ crlf)) sample_stories"
proof -
  have p: "prints (sample_output out err code) out err code" for out err code
    by (simp add: prints_def sample_output_def wait_millis_def u32_max_def)
  show "output_tellers sample_outputs"
    unfolding output_tellers_def sample_outputs_def output_children.select_convs
    by (rule conjI exI p | simp)+
  have "tasklist_has (dquote # ''7'' @ [dquote]) 7" "\<not> tasklist_has [] pid" for pid
    by code_simp (simp add: tasklist_has_def lines_def full_lines_def fragment_def)
  moreover have "\<exists>out err code. prints (sample_output [] [] 1) out err code" using p by blast
  ultimately show "killed_tellers sample_kills"
    unfolding killed_tellers_def sample_kills_def killed_children.select_convs
    by (intro conjI exI [of _ "7::nat"]) (auto simp: sample_output_def u32_max_def fun_eq_iff)
  show "tellers (sample_story (''ADAPTER_MARKER'' @ crlf)) sample_stories"
    using sample_tells by (auto simp: tellers_def sample_stories_def fixtures_def) (simp add: sample_story_def)
qed

lemma contains_infix: "contains m (as @ m @ bs)"
proof (induction as)
  case Nil
  have "take (length m) (m @ bs) = m" by simp
  then show ?case by (cases "m @ bs") (simp_all del: append_is_Nil_conv)
qed simp


end
