(* ===== verification/Spec2Isabelle.thy ===== *)
theory Spec2Isabelle
  imports Permission Adapter_Contract Platforms Server_Answers E2E
begin

text \<open>
  A verification of the Calcar agent: the Rust workspace under src/agent/crates. The agent runs coding
  workflows on a Windows computer and answers a phone. It keeps its truth in one SQLite file.

  \<^bold>\<open>The parts and how they meet.\<close> A request reaches \<open>ConnectServer::reply\<close> (calcar-connect/server.rs), is
  checked for the bearer token (auth.rs), routed, and its body parsed (json.rs). A handler opens the
  store (calcar-storage), asks the workflow manager (calcar-workflow/lifecycle.rs) for the row, and for
  an input lets the router (router.rs) claim its key as a pending request before the command runs
  through the plain executor (exec.rs, calcar-pty/plain.rs). What a run printed becomes a tail file and
  two events of the workflow's ring. Provider adapters (calcar-adapters) turn the output of a child
  into events, the permission manager (permission.rs) asks the owner's device for approvals. Pseudo
  consoles (calcar-pty/lib.rs) are the interactive alternative to plain pipes.

  \<^bold>\<open>Effects.\<close> A program is a function from a world to a result and the next world (World): \<open>Inl\<close> is an early
  return with an error. A world holds the state, a schedule that says which of the engine's statements
  (or system calls) fail, and what each reading of the clock returns. Both are arbitrary, so a theorem
  about every world covers every failure and every clock, one that runs backwards included. \<open>moves\<close>,
  \<open>triple\<close> and \<open>works\<close> carry the proofs: what holds across every run, what a run establishes, and what a
  run without engine faults returns.

  \<^bold>\<open>The theories.\<close>
  \<^item> Prelude, World, Rust_Str, Rust_Text: lists, step systems (locales \<open>invariant_system\<close> and
    \<open>monotone_system\<close>), programs, Rust's integers at their widths, byte strings, UTF-8 and white space.
  \<^item> Events: calcar-events, the wire enums (locale \<open>wire_enum\<close>) and the event record.
  \<^item> Storage: calcar-storage/src/lib.rs over the tables of migrations/0001_init.sql, one definition per
    method, one constant per SQL statement. Storage_Ring has the arithmetic of the event ring,
    Storage_Steps the invariant \<open>wf_db\<close> and the order \<open>db_le\<close> along every sequence of calls
    (\<open>storage_run\<close>), Storage_Props and Storage_Contracts what callers rely on.
  \<^item> Lifecycle, Lifecycle_Props: lifecycle.rs and session.rs. Requests: the contract of single-use
    requests (locale \<open>once_store\<close>), which the router and the server use. Router: router.rs.
    Permission: permission.rs as a step system.
  \<^item> Plain: command lines, capped sinks, pumps and waiting of plain.rs. Handles: \<open>spawn\<close>, \<open>kill\<close> and \<open>Drop\<close> of
    both executors over a ledger of kernel objects. Pump: the pump thread and the bounded channel of a
    console as a step relation, \<open>read_until\<close>. Environment, Environment_Props: the environment block and
    wide strings, and how a child reads them. Console: the buffers both executors start a process with, the
    input of a child, resizing, the blocking read.
  \<^item> Adapters: traitdef.rs, generic.rs, registry.rs and the three marker adapters claude.rs, codex.rs and
    opencode.rs, which share one definition with their prefix as an argument. Adapter_Props and
    Generic_Props: the event streams. Adapter_Contract: the trait as the locale \<open>provider_adapter\<close>.
    Platforms: the stub of the plain executor off Windows.
  \<^item> Json, Json_Props: json.rs. Http: auth.rs and the request and response functions of server.rs. Config:
    config.rs and main.rs. Exec: exec.rs. Catalog, Catalog_Props: catalog.rs and the host (database,
    files, registry, launched commands). Server: every route of server.rs. Server_Props: what holds of
    every request under every fault. Server_Answers: what is answered when the engine does not fail.
  \<^item> Doctor: doctor.rs and main.rs of calcar-agent over a machine that is an argument.
    E2E_Children, E2E_Children_Props, E2E: the end-to-end runner examples/e2e_exec.rs over the models of all
    layers, the checks that start children (what arrives on their streams in which round of polling is an
    argument), what they show, and the whole runner.

  \<^bold>\<open>What is shown.\<close>
  \<^item> Storage: an append numbers, trims and enqueues exactly, atomically, and always succeeds in a healthy
    engine; replay returns the events after a number without gaps; every reachable file is well formed;
    finished workflows stay finished; a request is resolved at most once and not after its deadline;
    migrations are applied once.
  \<^item> Workflows: transitions take effect with their reason on record, a disconnect completes nothing,
    recovery after a restart decides from the stored binding. An input is delivered at most once, across
    faults and restarts, and always answered when the engine is healthy. Of the verdicts on an approval
    one counts, from the owning device, in time.
  \<^item> Processes: a child sees exactly the arguments, variables and directory configured; what is written to
    it arrives as a prefix; a pump keeps exactly the first bytes up to its cap; no failing call of either
    \<open>spawn\<close> leaks a handle or closes one twice, and a drop gives everything back; the channel of a console
    loses and reorders nothing within its capacity; joining its pump returns exactly when what is
    outstanding fits into the channel.
  \<^item> Adapters: events and the resume pointer do not depend on how output was chunked or polled, the terminal
    event comes once, the capability flags are honest in every sequence of calls, and off Windows nothing runs.
  \<^item> Server: no token, no effect; a command is launched at most once per input; an input is answered end
    to end with its run on record; an interactive input consumes nothing; approvals are answered by the
    stored state; a snapshot holds the whole ring; JSON and the registry file survive a round trip.
  \<^item> Doctor: it is green exactly on a machine on which every probe succeeds, and leaves nothing behind.
  \<^item> E2E: the repository's own runner is green on the model, in every healthy engine, with every steady
    clock and with children that do as they are told: the layers compose as it expects.

  \<^bold>\<open>Bounds and totality.\<close> Every definition is total; no fuel is used. The rounds of
  \<open>read_until\<close> are a list of clock readings and results, and it is shown to return within them; those of the
  runner's polling loops are a list with one entry for every poll before the deadline. The JSON parser recurses
  on the rest of the text. Integers keep Rust's width where a cast or an overflow can matter (\<open>as_i64\<close>,
  \<open>as_u64\<close>, \<open>wait_millis\<close>); byte comparison and UTF-16 use machine words.

  \<^bold>\<open>Parameters.\<close> Code outside the repository is an argument: parsing and printing of \<open>f64\<close>, \<open>tiny_http\<close>'s
  comparison of header names, \<open>Path::parent\<close> and \<open>Path::join\<close>, the texts of \<open>rusqlite\<close> and of the
  system, \<open>str::to_uppercase\<close> (record \<open>libs\<close> and arguments of the definitions). The only laws assumed of
  them are hypotheses of the theorems that need them: that \<open>f64\<close> survives printing and parsing, that a
  failed \<open>CryptProtectData\<close> hands out no buffer, that \<open>{:?}\<close> shows a plain summary. What Windows answers (a
  wait, a spawn, a write, the chunks a pump reads) is an argument as well. How a child reads its command
  line and its environment is the documented convention of Windows, written out as definitions.

  \<^bold>\<open>Not modelled.\<close> Tests. Logging, and the details that a failed check of the runner prints. The
  accessors of paths and of process ids. Parsing the agent's command line, which is clap. SQLite itself: a statement takes effect as
  a whole or fails, and a transaction rolls back. The poisoning of mutexes.
\<close>

end
